(* ===== verification/Prelude.thy ===== *)
theory Prelude
  imports Main "HOL-Library.Word" "HOL-Library.Monad_Syntax"
begin

text \<open>
  What every component of the development shares: the result type of the fallible Rust
  functions and its combinators, checked indexing (a Rust slice access panics out of
  range, which is the value \<open>None\<close> here), the small part of \<open>Vec\<close>, \<open>VecDeque\<close> and
  \<open>HashMap\<close> that the sources use, and the generic lemmas about them. The collection
  \<open>ok_simps\<close> holds the equations that drive results through \<open>and_then\<close> chains.
\<close>

named_theorems ok_simps

section \<open>Results\<close>

text \<open>
  \<open>Result<T, E>\<close> is \<open>'e + 'a\<close>, with \<open>Inl\<close> for \<open>Err\<close> and \<open>Inr\<close> for \<open>Ok\<close>. The
  question mark operator and \<open>Result::and_then\<close> are \<open>and_then\<close>.
\<close>

definition and_then :: "'e + 'a \<Rightarrow> ('a \<Rightarrow> 'e + 'b) \<Rightarrow> 'e + 'b" where
  "and_then r f = (case r of Inl e \<Rightarrow> Inl e | Inr a \<Rightarrow> f a)"

lemma and_then_simps [simp, ok_simps]:
  "and_then (Inl e) f = Inl e"
  "and_then (Inr a) f = f a"
  by (simp_all add: and_then_def)

lemma and_then_Inr_iff [ok_simps]:
  "and_then r f = Inr b \<longleftrightarrow> (\<exists>a. r = Inr a \<and> f a = Inr b)"
  by (cases r) auto

lemma and_then_Inl_iff [ok_simps]:
  "and_then r f = Inl e \<longleftrightarrow> r = Inl e \<or> (\<exists>a. r = Inr a \<and> f a = Inl e)"
  by (cases r) auto

lemma and_then_assoc: "and_then (and_then r f) g = and_then r (\<lambda>a. and_then (f a) g)"
  by (cases r) auto

text \<open>\<open>Option::ok_or\<close> and \<open>Result::map_err\<close>.\<close>

definition ok_or :: "'e \<Rightarrow> 'a option \<Rightarrow> 'e + 'a" where
  "ok_or e x = (case x of None \<Rightarrow> Inl e | Some a \<Rightarrow> Inr a)"

definition map_err :: "('e \<Rightarrow> 'f) \<Rightarrow> 'e + 'a \<Rightarrow> 'f + 'a" where
  "map_err g r = (case r of Inl e \<Rightarrow> Inl (g e) | Inr a \<Rightarrow> Inr a)"

lemma ok_or_simps [simp]: "ok_or e None = Inl e" "ok_or e (Some a) = Inr a"
  by (simp_all add: ok_or_def)

lemma ok_or_Inr_iff [ok_simps]: "ok_or e x = Inr a \<longleftrightarrow> x = Some a"
  by (cases x) auto

lemma map_err_simps [simp]: "map_err g (Inl e) = Inl (g e)" "map_err g (Inr a) = Inr a"
  by (simp_all add: map_err_def)

lemma map_err_Inr_iff [ok_simps]: "map_err g r = Inr a \<longleftrightarrow> r = Inr a"
  by (cases r) auto

text \<open>
  \<open>iter.map(f).collect::<Result<Vec<_>>>()\<close>: the elements are converted in order and the
  first error is returned.
\<close>

fun try_map :: "('a \<Rightarrow> 'e + 'b) \<Rightarrow> 'a list \<Rightarrow> 'e + 'b list" where
  "try_map f [] = Inr []"
| "try_map f (x # xs) =
     (case f x of Inl e \<Rightarrow> Inl e
      | Inr y \<Rightarrow> (case try_map f xs of Inl e \<Rightarrow> Inl e | Inr ys \<Rightarrow> Inr (y # ys)))"

lemma try_map_Inr_iff: "try_map f xs = Inr ys \<longleftrightarrow> list_all2 (\<lambda>x y. f x = Inr y) xs ys"
proof (induction xs arbitrary: ys)
  case Nil
  then show ?case by auto
next
  case (Cons x xs)
  show ?case
  proof (cases "f x")
    case (Inl e)
    then show ?thesis by (auto simp: list_all2_Cons1)
  next
    case (Inr y)
    then show ?thesis
      by (cases "try_map f xs") (auto simp: list_all2_Cons1 Cons.IH [symmetric])
  qed
qed

lemma try_map_roundtrip: "(\<And>x. x \<in> set xs \<Longrightarrow> g (f x) = Inr x) \<Longrightarrow> try_map g (map f xs) = Inr xs"
  by (induction xs) auto

lemma try_map_length: "try_map f xs = Inr ys \<Longrightarrow> length ys = length xs"
  by (simp add: try_map_Inr_iff list_all2_lengthD)

lemma try_map_Inl: "try_map f xs = Inl e \<Longrightarrow> \<exists>x\<in>set xs. f x = Inl e"
  by (induction xs) (auto split: sum.splits)

section \<open>Vectors and deques\<close>

text \<open>Checked indexing: \<open>None\<close> is the panic of \<open>xs[i]\<close> out of range.\<close>

definition vec_get :: "'a list \<Rightarrow> nat \<Rightarrow> 'a option" where
  "vec_get xs i = (if i < length xs then Some (xs ! i) else None)"

lemma vec_get_lt [simp]: "i < length xs \<Longrightarrow> vec_get xs i = Some (xs ! i)"
  by (simp add: vec_get_def)

lemma vec_get_Some_iff: "vec_get xs i = Some x \<longleftrightarrow> i < length xs \<and> xs ! i = x"
  by (auto simp: vec_get_def)

text \<open>
  \<open>iter().enumerate().find_map(..)\<close> with an equality test: the index of the first match;
  and \<open>VecDeque::remove(index)\<close>.
\<close>

fun find_index :: "('a \<Rightarrow> bool) \<Rightarrow> 'a list \<Rightarrow> nat option" where
  "find_index P [] = None"
| "find_index P (x # xs) = (if P x then Some 0 else map_option Suc (find_index P xs))"

definition remove_at :: "nat \<Rightarrow> 'a list \<Rightarrow> 'a list" where
  "remove_at i xs = take i xs @ drop (Suc i) xs"

lemma find_index_None_iff: "find_index P xs = None \<longleftrightarrow> (\<forall>x\<in>set xs. \<not> P x)"
  by (induction xs) auto

lemma find_index_eq_None [simp]: "find_index (\<lambda>x. x = a) xs = None \<longleftrightarrow> a \<notin> set xs"
  by (induction xs) auto

lemma find_index_Some: "find_index P xs = Some i \<Longrightarrow> i < length xs \<and> P (xs ! i)"
  by (induction xs arbitrary: i) (auto split: if_splits)

lemma find_index_remove_at:
  "find_index (\<lambda>x. x = a) xs = Some i \<Longrightarrow> remove_at i xs = remove1 a xs \<and> a \<in> set xs"
proof (induction xs arbitrary: i)
  case Nil
  then show ?case by simp
next
  case (Cons x xs)
  then show ?case by (cases "x = a") (auto simp: remove_at_def)
qed

text \<open>\<open>VecDeque::pop_front\<close>.\<close>

fun pop_front :: "'a list \<Rightarrow> 'a option \<times> 'a list" where
  "pop_front [] = (None, [])"
| "pop_front (x # xs) = (Some x, xs)"

text \<open>
  A random pick from a collection (\<open>choose(&mut thread_rng())\<close>): the random number is an
  argument, and every element can be picked.
\<close>

definition choose_one :: "nat \<Rightarrow> 'a list \<Rightarrow> 'a option" where
  "choose_one r xs = (if xs = [] then None else Some (xs ! (r mod length xs)))"

lemma choose_one_in: "choose_one r xs = Some x \<Longrightarrow> x \<in> set xs"
  by (auto simp: choose_one_def split: if_splits)

lemma choose_one_None_iff [simp]: "choose_one r xs = None \<longleftrightarrow> xs = []"
  by (simp add: choose_one_def)

lemma choose_one_any: "x \<in> set xs \<Longrightarrow> \<exists>r. choose_one r xs = Some x"
proof -
  assume "x \<in> set xs"
  then obtain i where "i < length xs" and "xs ! i = x" by (auto simp: in_set_conv_nth)
  then have "choose_one i xs = Some x" by (auto simp: choose_one_def)
  then show ?thesis ..
qed

text \<open>\<open>usize::checked_sub\<close>.\<close>

definition checked_sub :: "nat \<Rightarrow> nat \<Rightarrow> nat option" where
  "checked_sub a b = (if b \<le> a then Some (a - b) else None)"

section \<open>Hash maps\<close>

text \<open>
  A \<open>HashMap\<close> is a map with a finite domain. Where the code iterates over one, the order
  of the iteration is an argument of the model, and \<open>iter_order\<close> says what the standard
  library promises of it: every key once.
\<close>

definition iter_order :: "('k \<rightharpoonup> 'v) \<Rightarrow> 'k list \<Rightarrow> bool" where
  "iter_order m ks \<longleftrightarrow> distinct ks \<and> set ks = dom m"

definition remove_keys :: "'k list \<Rightarrow> ('k \<rightharpoonup> 'v) \<Rightarrow> ('k \<rightharpoonup> 'v)" where
  "remove_keys ks m = fold (\<lambda>k m. m(k := None)) ks m"

definition insert_keys :: "'k list \<Rightarrow> 'v \<Rightarrow> ('k \<rightharpoonup> 'v) \<Rightarrow> ('k \<rightharpoonup> 'v)" where
  "insert_keys ks v m = fold (\<lambda>k m. m(k \<mapsto> v)) ks m"

lemma remove_keys_apply: "remove_keys ks m x = (if x \<in> set ks then None else m x)"
  by (induction ks arbitrary: m) (auto simp: remove_keys_def)

lemma insert_keys_apply: "insert_keys ks v m x = (if x \<in> set ks then Some v else m x)"
  by (induction ks arbitrary: m) (auto simp: insert_keys_def)

lemma dom_remove_keys [simp]: "dom (remove_keys ks m) = dom m - set ks"
  by (auto simp: remove_keys_apply dom_def split: if_splits)

lemma dom_insert_keys [simp]: "dom (insert_keys ks v m) = dom m \<union> set ks"
  by (auto simp: insert_keys_apply dom_def split: if_splits)

lemma map_of_iter_order:
  "iter_order m ks \<Longrightarrow> k \<in> set ks \<longleftrightarrow> (\<exists>v. m k = Some v)"
  by (auto simp: iter_order_def)

section \<open>Prefixes of lists\<close>

lemma take_append_take: "take k (take k xs @ ys) = take k (xs @ ys)"
  by (cases "length xs \<le> k") auto

lemma distinct_concat_map:
  assumes "distinct is" and "\<And>i. i \<in> set is \<Longrightarrow> distinct (f i)"
    and "\<And>i j x. i \<in> set is \<Longrightarrow> j \<in> set is \<Longrightarrow> x \<in> set (f i) \<Longrightarrow> x \<in> set (f j) \<Longrightarrow> i = j"
  shows "distinct (concat (map f is))"
  using assms
proof (induction "is")
  case Nil
  then show ?case by simp
next
  case (Cons i "is")
  then have "distinct (concat (map f is))" by auto
  moreover have "set (f i) \<inter> set (concat (map f is)) = {}"
    using Cons.prems(1,3) by (fastforce simp: disjoint_iff)
  ultimately show ?case using Cons.prems(2) by simp
qed


section \<open>Effectful calls\<close>

text \<open>
  A call that changes a state and may fail: it returns its result together with the state it
  leaves, on failure too. \<open>act_bind\<close> is the sequence \<open>m.await?; f\<close>.
\<close>

type_synonym ('s, 'e, 'a) act = "'s \<Rightarrow> ('e + 'a) \<times> 's"

definition act_ok :: "'a \<Rightarrow> ('s, 'e, 'a) act" where
  "act_ok a s = (Inr a, s)"

definition act_err :: "'e \<Rightarrow> ('s, 'e, 'a) act" where
  "act_err e s = (Inl e, s)"

definition act_lift :: "'e + 'a \<Rightarrow> ('s, 'e, 'a) act" where
  "act_lift r s = (r, s)"

definition act_bind :: "('s, 'e, 'a) act \<Rightarrow> ('a \<Rightarrow> ('s, 'e, 'b) act) \<Rightarrow> ('s, 'e, 'b) act" where
  "act_bind m f s = (case m s of (Inl e, s') \<Rightarrow> (Inl e, s') | (Inr a, s') \<Rightarrow> f a s')"

definition act_map_err :: "('e \<Rightarrow> 'f) \<Rightarrow> ('s, 'e, 'a) act \<Rightarrow> ('s, 'f, 'a) act" where
  "act_map_err g m s = (map_err g (fst (m s)), snd (m s))"

lemma act_simps [simp]:
  "act_ok a s = (Inr a, s)" "act_err e s = (Inl e, s)" "act_lift r s = (r, s)"
  by (simp_all add: act_ok_def act_err_def act_lift_def)

lemma act_bind_Inr: "m s = (Inr a, s') \<Longrightarrow> act_bind m f s = f a s'"
  by (simp add: act_bind_def)

lemma act_bind_Inl: "m s = (Inl e, s') \<Longrightarrow> act_bind m f s = (Inl e, s')"
  by (simp add: act_bind_def)

lemma act_bind_ok_iff:
  "act_bind m f s = (Inr b, s'') \<longleftrightarrow> (\<exists>a s'. m s = (Inr a, s') \<and> f a s' = (Inr b, s''))"
  by (auto simp: act_bind_def split: prod.splits sum.splits)

lemma act_map_err_eq: "m s = (r, s') \<Longrightarrow> act_map_err g m s = (map_err g r, s')"
  by (simp add: act_map_err_def)

end
