(* ===== verification/Net_Types.thy ===== *)
theory Net_Types
  imports Prelude "HOL-Library.Sublist" "HOL-Library.Countable"
begin

text \<open>
  The data that all crates share: peer ids, multiaddrs, connection handles, the NAT state
  (\<open>xstack/src/nat.rs\<close>), the error type (\<open>xstack/src/errors.rs\<close>), the address predicates and
  \<open>ToSockAddr\<close> of \<open>xstack/src/multiaddr.rs\<close>, and \<open>ConnectTo\<close> of \<open>xstack/src/transport.rs\<close>.

  \<open>PeerId\<close>, \<open>PublicKey\<close> and \<open>Multiaddr\<close> come from other packages. Peer ids and keys are opaque
  identities. A multiaddr is the sequence of protocol components that its \<open>iter\<close> yields, which
  is all that the sources look at; a component the sources do not name is \<open>OtherProto\<close>. The
  packages' own functions (parsing, byte encoding, \<open>protocol_stack\<close> names) stay parameters.
\<close>

section \<open>Identities and addresses\<close>

datatype peer_id = PeerId nat

datatype public_key = PublicKey nat

text \<open>\<open>PeerId\<close> is ordered; the order is used where a set of peers is listed.\<close>

instantiation peer_id :: linorder
begin

fun less_eq_peer_id :: "peer_id \<Rightarrow> peer_id \<Rightarrow> bool" where
  "less_eq_peer_id (PeerId m) (PeerId n) \<longleftrightarrow> m \<le> n"

fun less_peer_id :: "peer_id \<Rightarrow> peer_id \<Rightarrow> bool" where
  "less_peer_id (PeerId m) (PeerId n) \<longleftrightarrow> m < n"

instance
proof
  fix x y z :: peer_id
  show "x < y \<longleftrightarrow> x \<le> y \<and> \<not> y \<le> x" by (cases x; cases y) auto
  show "x \<le> x" by (cases x) simp
  show "x \<le> y \<Longrightarrow> y \<le> z \<Longrightarrow> x \<le> z" by (cases x; cases y; cases z) simp
  show "x \<le> y \<Longrightarrow> y \<le> x \<Longrightarrow> x = y" by (cases x; cases y) simp
  show "x \<le> y \<or> y \<le> x" by (cases x; cases y) auto
qed

end

type_synonym bytes = "8 word list"

datatype protocol =
    Ip4 "32 word" | Ip6 "128 word" | Tcp "16 word" | Udp "16 word"
  | Dns string | Dns4 string | Dns6 string | Dnsaddr string
  | P2p peer_id | P2pCircuit | QuicV1 | Tls | OtherProto nat

type_synonym multiaddr = "protocol list"

text \<open>Addresses are countable: they have an encoding as bytes, which the witnesses use.\<close>

instance peer_id :: countable by countable_datatype

instance word :: (len) countable
  by (rule countable_classI [of unat]) (simp add: word_unat_eq_iff)

instance protocol :: countable by countable_datatype

definition some_addr_bytes :: "multiaddr \<Rightarrow> bytes" where
  "some_addr_bytes a = replicate (to_nat a) 0"

definition some_addr_parse :: "bytes \<Rightarrow> string + multiaddr" where
  "some_addr_parse b = Inr (from_nat (length b))"

lemma some_addr_roundtrip [simp]: "some_addr_parse (some_addr_bytes a) = Inr a"
  by (simp add: some_addr_parse_def some_addr_bytes_def)

fun some_key_bytes :: "public_key \<Rightarrow> bytes" where
  "some_key_bytes (PublicKey n) = replicate n 0"

definition some_key_parse :: "bytes \<Rightarrow> string + public_key" where
  "some_key_parse b = Inr (PublicKey (length b))"

fun some_key_peer :: "public_key \<Rightarrow> peer_id" where
  "some_key_peer (PublicKey n) = PeerId n"

fun some_id_bytes :: "peer_id \<Rightarrow> bytes" where
  "some_id_bytes (PeerId n) = replicate n 0"

definition some_id_parse :: "bytes \<Rightarrow> string + peer_id" where
  "some_id_parse b = Inr (PeerId (length b))"

lemma some_key_roundtrip [simp]: "some_key_parse (some_key_bytes k) = Inr k"
  by (cases k) (simp add: some_key_parse_def)

lemma some_id_roundtrip [simp]: "some_id_parse (some_id_bytes p) = Inr p"
  by (cases p) (simp add: some_id_parse_def)

text \<open>\<open>Multiaddr::with\<close> (and \<open>push\<close>), \<open>Multiaddr::pop\<close> and \<open>Multiaddr::ends_with\<close> on the sequence.\<close>

abbreviation addr_with :: "multiaddr \<Rightarrow> protocol \<Rightarrow> multiaddr" where
  "addr_with a p \<equiv> a @ [p]"

definition addr_pop :: "multiaddr \<Rightarrow> (protocol \<times> multiaddr) option" where
  "addr_pop a = (if a = [] then None else Some (last a, butlast a))"

abbreviation addr_ends_with :: "multiaddr \<Rightarrow> multiaddr \<Rightarrow> bool" where
  "addr_ends_with a s \<equiv> suffix s a"

lemma addr_pop_Some_iff: "addr_pop a = Some (p, b) \<longleftrightarrow> a = addr_with b p"
  by (cases a rule: rev_cases) (auto simp: addr_pop_def)

lemma addr_pop_with [simp]: "addr_pop (addr_with a p) = Some (p, a)"
  by (simp add: addr_pop_Some_iff)

lemma suffix_single_iff: "suffix [x] xs \<longleftrightarrow> xs \<noteq> [] \<and> last xs = x"
  by (cases xs rule: rev_cases) (auto simp: suffix_def)

datatype ip_addr = V4 "32 word" | V6 "128 word"

type_synonym sock_addr = "ip_addr \<times> 16 word"

text \<open>
  A \<open>P2pConn\<close> handle: the values its driver reports for the whole life of the connection.
  \<open>conn_peer\<close> is \<open>public_key().to_peer_id()\<close>.
\<close>

record p2p_conn =
  conn_id :: string
  conn_peer :: peer_id
  conn_peer_addr :: multiaddr
  conn_local_addr :: multiaddr
  conn_relay :: bool

section \<open>NAT state\<close>

datatype auto_nat = Public | NAT | Unknown

definition auto_nat_default :: auto_nat where
  "auto_nat_default = Unknown"

section \<open>Errors\<close>

text \<open>
  The payload of a foreign error is its message. \<open>std::io::Error\<close> is an error of the operating
  system or a wrapped error of the crate (\<open>io::Error::new(Other, err)\<close>).
\<close>

datatype xs_error =
    UnspportMultiAddr multiaddr
  | IoError io_error
  | RoutingPath peer_id
  | UnsignedVarint string
  | Overflow nat
  | ProtobufError string
  | IdentityDecodingError string
  | AuthenticateFailed
  | MultiaddrError string
  | UnknownProtocolString multiaddr
  | NegotiationError string
  | InvalidPingLength nat
  | Timeout
  | OtherError string
  | BindError string
  | ProtocolListenerErr nat
  | ProtocolListenerBind string
  | NullTransportStack
  | PeerNotFound
  | EmptyPeerAddrs
  | PingMismatch
  | AutoNatResponse
  | Utf8Error string
  | FromUtf8Error string
and io_error = OsError string | Wrapped xs_error

text \<open>\<open>impl From<Error> for std::io::Error\<close>, and \<open>#[from] std::io::Error\<close> for the other way.\<close>

fun error_to_io :: "xs_error \<Rightarrow> io_error" where
  "error_to_io (IoError err) = err"
| "error_to_io err = Wrapped err"

definition error_of_io :: "io_error \<Rightarrow> xs_error" where
  "error_of_io err = IoError err"

lemma error_to_io_of_io [simp]: "error_to_io (error_of_io err) = err"
  by (simp add: error_of_io_def)

section \<open>Socket addresses and transport hints\<close>

fun to_sockaddr :: "multiaddr \<Rightarrow> xs_error + sock_addr" where
  "to_sockaddr addr =
     (case addr of
        [] \<Rightarrow> Inl (UnknownProtocolString addr)
      | first # rest \<Rightarrow>
          and_then
            (case first of Ip4 ip \<Rightarrow> Inr (V4 ip) | Ip6 ip \<Rightarrow> Inr (V6 ip)
             | _ \<Rightarrow> Inl (UnknownProtocolString addr))
            (\<lambda>ip. case rest of
                [] \<Rightarrow> Inl (UnknownProtocolString addr)
              | next # _ \<Rightarrow>
                  (case next of Tcp port \<Rightarrow> Inr (ip, port) | Udp port \<Rightarrow> Inr (ip, port)
                   | _ \<Rightarrow> Inl (UnknownProtocolString addr))))"

text \<open>\<open>tag\<close> is the name that \<open>protocol_stack\<close> gives a component.\<close>

definition is_tcp_transport :: "(protocol \<Rightarrow> string) \<Rightarrow> multiaddr \<Rightarrow> bool" where
  "is_tcp_transport tag addr =
     (if P2pCircuit \<in> set addr then False
      else let stack = map tag addr in
        if length stack > 1 then stack ! 1 = ''tcp'' else False)"

definition is_quic_transport :: "(protocol \<Rightarrow> string) \<Rightarrow> multiaddr \<Rightarrow> bool" where
  "is_quic_transport tag addr =
     (if P2pCircuit \<in> set addr then False
      else let stack = map tag addr in
        if length stack > 2 then stack ! 1 = ''udp'' \<and> stack ! 2 = ''quic-v1'' else False)"

fun is_dnsaddr_transport :: "multiaddr \<Rightarrow> bool" where
  "is_dnsaddr_transport [] = False"
| "is_dnsaddr_transport (proto # rest) =
     (case proto of
        Dns _ \<Rightarrow> True | Dns4 _ \<Rightarrow> True | Dns6 _ \<Rightarrow> True | Dnsaddr _ \<Rightarrow> True
      | _ \<Rightarrow> is_dnsaddr_transport rest)"

text \<open>
  What the multiaddr package documents of the names: these three are the names of these
  three components and of no other. \<open>std_tag\<close> is one such naming.
\<close>

definition tag_law :: "(protocol \<Rightarrow> string) \<Rightarrow> bool" where
  "tag_law tag \<longleftrightarrow> (\<forall>p. (tag p = ''tcp'' \<longleftrightarrow> (\<exists>n. p = Tcp n)) \<and>
     (tag p = ''udp'' \<longleftrightarrow> (\<exists>n. p = Udp n)) \<and> (tag p = ''quic-v1'' \<longleftrightarrow> p = QuicV1))"

fun std_tag :: "protocol \<Rightarrow> string" where
  "std_tag (Tcp _) = ''tcp''"
| "std_tag (Udp _) = ''udp''"
| "std_tag QuicV1 = ''quic-v1''"
| "std_tag _ = ''''"

lemma tag_law_std: "tag_law std_tag"
  unfolding tag_law_def
proof
  fix p
  show "(std_tag p = ''tcp'' \<longleftrightarrow> (\<exists>n. p = Tcp n)) \<and>
     (std_tag p = ''udp'' \<longleftrightarrow> (\<exists>n. p = Udp n)) \<and> (std_tag p = ''quic-v1'' \<longleftrightarrow> p = QuicV1)"
    by (cases p) simp_all
qed

lemma is_dnsaddr_iff:
  "is_dnsaddr_transport addr \<longleftrightarrow>
     (\<exists>p\<in>set addr. case p of Dns _ \<Rightarrow> True | Dns4 _ \<Rightarrow> True | Dns6 _ \<Rightarrow> True | Dnsaddr _ \<Rightarrow> True | _ \<Rightarrow> False)"
  by (induction addr) (auto split: protocol.splits)

lemma to_sockaddr_ip [simp]:
  "to_sockaddr (Ip4 a # Tcp port # rest) = Inr (V4 a, port)"
  "to_sockaddr (Ip4 a # Udp port # rest) = Inr (V4 a, port)"
  "to_sockaddr (Ip6 b # Tcp port # rest) = Inr (V6 b, port)"
  "to_sockaddr (Ip6 b # Udp port # rest) = Inr (V6 b, port)"
  by simp_all

lemma to_sockaddr_not_ip:
  "\<forall>w. first \<noteq> Ip4 w \<Longrightarrow> \<forall>w. first \<noteq> Ip6 w \<Longrightarrow>
     to_sockaddr (first # rest) = Inl (UnknownProtocolString (first # rest))"
  by (cases first) simp_all

declare to_sockaddr.simps [simp del]

lemma tcp_stack_shape:
  assumes "tag_law tag"
  shows "is_tcp_transport tag addr \<longleftrightarrow>
    P2pCircuit \<notin> set addr \<and> (\<exists>first port rest. addr = first # Tcp port # rest)"
proof (cases addr)
  case Nil
  then show ?thesis by (simp add: is_tcp_transport_def)
next
  case (Cons first rest)
  then show ?thesis
    using assms by (cases rest) (auto simp: is_tcp_transport_def tag_law_def)
qed

lemma quic_stack_shape:
  assumes "tag_law tag"
  shows "is_quic_transport tag addr \<longleftrightarrow>
    P2pCircuit \<notin> set addr \<and> (\<exists>first port rest. addr = first # Udp port # QuicV1 # rest)"
proof (cases addr)
  case Nil
  then show ?thesis by (simp add: is_quic_transport_def)
next
  case (Cons first rest)
  then show ?thesis
    using assms
    by (cases rest; cases "tl rest") (auto simp: is_quic_transport_def tag_law_def)
qed

section \<open>Connection targets\<close>

datatype connect_to =
    PeerIdRef peer_id | MultiaddrRef multiaddr | MultiaddrsRef "multiaddr list"
  | ToPeerId peer_id | ToMultiaddr multiaddr | ToMultiaddrs "multiaddr list"

text \<open>\<open>TryFrom<&str>\<close>: a peer id first, a multiaddr otherwise; the two parsers are parameters.\<close>

definition connect_to_of_str ::
    "(string \<Rightarrow> xs_error + peer_id) \<Rightarrow> (string \<Rightarrow> xs_error + multiaddr) \<Rightarrow> string \<Rightarrow> xs_error + connect_to" where
  "connect_to_of_str parse_peer parse_addr s =
     (case parse_peer s of
        Inr peer_id \<Rightarrow> Inr (ToPeerId peer_id)
      | Inl _ \<Rightarrow> and_then (parse_addr s) (\<lambda>addr. Inr (ToMultiaddr addr)))"

text \<open>
  routing of addresses to transports. An address is never both a TCP and a QUIC address,
  an address that passes through a relay is neither, and an address that either transport
  accepts and that starts with an IP component converts to a socket address with the port
  that stands in its second component.
\<close>

theorem transport_hints_sound:
  assumes "tag_law tag"
  shows "\<not> (is_tcp_transport tag addr \<and> is_quic_transport tag addr) \<and>
    (P2pCircuit \<in> set addr \<longrightarrow> \<not> is_tcp_transport tag addr \<and> \<not> is_quic_transport tag addr) \<and>
    (is_tcp_transport tag (Ip4 ip # addr) \<longrightarrow>
      (\<exists>port rest. addr = Tcp port # rest \<and> to_sockaddr (Ip4 ip # addr) = Inr (V4 ip, port))) \<and>
    (is_quic_transport tag (Ip6 ip6 # addr) \<longrightarrow>
      (\<exists>port rest. addr = Udp port # QuicV1 # rest \<and> to_sockaddr (Ip6 ip6 # addr) = Inr (V6 ip6, port)))"
  using assms by (auto simp: tcp_stack_shape quic_stack_shape)

theorem transport_hints_sound_witness:
  "is_tcp_transport std_tag [Ip4 127, Tcp 80] \<and> to_sockaddr [Ip4 127, Tcp 80] = Inr (V4 127, 80) \<and>
   \<not> is_tcp_transport std_tag [Ip4 1, Tcp 2, P2pCircuit]"
  using transport_hints_sound [OF tag_law_std, of "[Ip4 1, Tcp 2, P2pCircuit]" 127]
    transport_hints_sound [OF tag_law_std, of "[Tcp 80]" 127]
  by (simp add: is_tcp_transport_def)

end
