(* ===== verification/XorMetric.thy ===== *)
theory XorMetric
  imports Net_Types
begin

unbundle bit_operations_syntax

text \<open>
  The key space of \<open>kad/src/kbucket.rs\<close>: 256-bit keys (\<open>KBucketKey\<close>), the XOR distance
  (\<open>KBucketDistance\<close>) with its derived order, and \<open>k_index\<close>, the integer part of the base 2
  logarithm of a distance. SHA-256 (another package) is the parameter \<open>sha256\<close>, from bytes to
  the 256-bit integer that the digest's bytes spell.
\<close>

section \<open>Keys and distances\<close>

type_synonym u256 = "256 word"

datatype kbucket_key = KBucketKey (key_bits: u256)

datatype kbucket_distance = KBucketDistance (dist_bits: u256)

text \<open>\<open>#[derive(PartialOrd, Ord)]\<close>: the order of the one field.\<close>

instantiation kbucket_distance :: linorder
begin

definition less_eq_kbucket_distance :: "kbucket_distance \<Rightarrow> kbucket_distance \<Rightarrow> bool" where
  "less_eq_kbucket_distance d e \<longleftrightarrow> dist_bits d \<le> dist_bits e"

definition less_kbucket_distance :: "kbucket_distance \<Rightarrow> kbucket_distance \<Rightarrow> bool" where
  "less_kbucket_distance d e \<longleftrightarrow> dist_bits d < dist_bits e"

instance
  by standard
    (auto simp: less_eq_kbucket_distance_def less_kbucket_distance_def intro: kbucket_distance.expand)

end

definition distance :: "kbucket_key \<Rightarrow> kbucket_key \<Rightarrow> kbucket_distance" where
  "distance a b = KBucketDistance (key_bits a XOR key_bits b)"

definition key_from_bytes :: "(bytes \<Rightarrow> u256) \<Rightarrow> bytes \<Rightarrow> kbucket_key" where
  "key_from_bytes sha256 value = KBucketKey (sha256 value)"

definition key_from_peer :: "(bytes \<Rightarrow> u256) \<Rightarrow> (peer_id \<Rightarrow> bytes) \<Rightarrow> peer_id \<Rightarrow> kbucket_key" where
  "key_from_peer sha256 to_bytes value = key_from_bytes sha256 (to_bytes value)"

text \<open>\<open>U256::leading_zeros\<close>: the zero bits above the highest one bit.\<close>

fun clz_from :: "nat \<Rightarrow> u256 \<Rightarrow> nat" where
  "clz_from 0 w = 0"
| "clz_from (Suc i) w = (if bit w i then 0 else Suc (clz_from i w))"

definition leading_zeros :: "u256 \<Rightarrow> nat" where
  "leading_zeros w = clz_from 256 w"

definition k_index :: "kbucket_distance \<Rightarrow> nat option" where
  "k_index d = checked_sub (256 - leading_zeros (dist_bits d)) 1"

section \<open>The logarithm\<close>

lemma clz_from_le: "clz_from n w \<le> n"
  by (induction n) auto

lemma clz_from_bits:
  "(\<forall>j. n - clz_from n w \<le> j \<and> j < n \<longrightarrow> \<not> bit w j) \<and>
   (clz_from n w < n \<longrightarrow> bit w (n - clz_from n w - 1))"
proof (induction n)
  case 0
  then show ?case by simp
next
  case (Suc n)
  show ?case
  proof (cases "bit w n")
    case True
    then show ?thesis by auto
  next
    case False
    with Suc.IH clz_from_le [of n w] show ?thesis
      by (auto simp: Suc_diff_le not_less_eq less_Suc_eq)
  qed
qed

lemma unat_lt_pow2_iff:
  fixes w :: "'a::len word"
  shows "unat w < 2 ^ n \<longleftrightarrow> (\<forall>j\<ge>n. \<not> bit w j)"
proof
  assume "unat w < 2 ^ n"
  then have "take_bit n (unat w) = unat w"
    by (simp add: take_bit_nat_eq_self_iff)
  then have "\<not> bit (unat w) j" if "n \<le> j" for j
    using that by (metis bit_take_bit_iff not_le)
  then show "\<forall>j\<ge>n. \<not> bit w j" by (simp add: bit_unsigned_iff)
next
  assume *: "\<forall>j\<ge>n. \<not> bit w j"
  have "take_bit n (unat w) = unat w"
  proof (rule bit_eqI)
    fix j
    show "bit (take_bit n (unat w)) j \<longleftrightarrow> bit (unat w) j"
      using * by (cases "n \<le> j") (auto simp: bit_take_bit_iff bit_unsigned_iff)
  qed
  then show "unat w < 2 ^ n"
    by (metis take_bit_nat_less_exp)
qed

text \<open>The logarithm is exact: \<open>k_index d = Some i\<close> says that \<open>d\<close> lies in \<open>[2^i, 2^(i+1))\<close>.\<close>

lemma k_index_None_iff: "k_index d = None \<longleftrightarrow> dist_bits d = 0"
proof -
  let ?w = "dist_bits d"
  have "k_index d = None \<longleftrightarrow> clz_from 256 ?w = 256"
    using clz_from_le [of 256 ?w] by (auto simp: k_index_def checked_sub_def leading_zeros_def)
  also have "\<dots> \<longleftrightarrow> ?w = 0"
  proof
    assume *: "clz_from 256 ?w = 256"
    show "?w = 0"
    proof (rule bit_word_eqI)
      fix n
      assume "n < LENGTH(256)"
      with clz_from_bits [of 256 ?w] * show "bit ?w n = bit 0 n" by simp
    qed
  next
    assume "?w = 0"
    then show "clz_from 256 ?w = 256"
      using clz_from_bits [of 256 ?w] clz_from_le [of 256 ?w] by (auto simp: le_less)
  qed
  finally show ?thesis .
qed

lemma k_index_Some_iff:
  "k_index d = Some i \<longleftrightarrow> 2 ^ i \<le> unat (dist_bits d) \<and> unat (dist_bits d) < 2 ^ Suc i"
proof -
  let ?w = "dist_bits d"
  have bounds: "2 ^ i \<le> unat ?w \<and> unat ?w < 2 ^ Suc i" if "k_index d = Some i" for i
  proof -
    from that have i: "clz_from 256 ?w < 256" "i = 255 - clz_from 256 ?w"
      by (auto simp: k_index_def checked_sub_def leading_zeros_def split: if_splits)
    with clz_from_bits [of 256 ?w]
    have top: "bit ?w i" and above: "\<forall>j. Suc i \<le> j \<and> j < 256 \<longrightarrow> \<not> bit ?w j" by auto
    have "\<forall>j\<ge>Suc i. \<not> bit ?w j"
      using above bit_imp_le_length [of ?w] by fastforce
    with top show ?thesis
      using unat_lt_pow2_iff [of ?w i] unat_lt_pow2_iff [of ?w "Suc i"] by (auto simp: not_le)
  qed
  show ?thesis
  proof
    assume "k_index d = Some i"
    then show "2 ^ i \<le> unat ?w \<and> unat ?w < 2 ^ Suc i" by (rule bounds)
  next
    assume *: "2 ^ i \<le> unat ?w \<and> unat ?w < 2 ^ Suc i"
    then have "?w \<noteq> 0" by auto
    then obtain j where j: "k_index d = Some j" using k_index_None_iff by blast
    then have "2 ^ j \<le> unat ?w \<and> unat ?w < 2 ^ Suc j" by (rule bounds)
    with * have ij: "(2::nat) ^ i < 2 ^ Suc j" and ji: "(2::nat) ^ j < 2 ^ Suc i" by linarith+
    have "i < Suc j" by (rule power_less_imp_less_exp [OF _ ij]) simp
    moreover have "j < Suc i" by (rule power_less_imp_less_exp [OF _ ji]) simp
    ultimately have "i = j" by simp
    with j show "k_index d = Some i" by simp
  qed
qed

lemma k_index_lt: "k_index d = Some i \<Longrightarrow> i < 256"
  by (auto simp: k_index_def checked_sub_def split: if_splits)

section \<open>The metric\<close>

lemma distance_sym: "distance a b = distance b a"
  by (simp add: distance_def xor.commute)

lemma distance_zero_iff: "dist_bits (distance a b) = 0 \<longleftrightarrow> a = b"
proof
  assume "dist_bits (distance a b) = 0"
  then have "(key_bits a XOR key_bits b) XOR key_bits b = key_bits b"
    by (simp add: distance_def)
  then have "key_bits a = key_bits b" by (simp add: xor.assoc)
  then show "a = b" by (rule kbucket_key.expand)
qed (simp add: distance_def)

lemma xor_le_plus:
  fixes x y :: "'a::len word"
  shows "unat (x XOR y) \<le> unat x + unat y"
proof -
  have "(uint x AND uint y) + (uint x OR uint y) = uint x + uint y"
    by (rule plus_and_or)
  moreover have "0 \<le> uint x AND uint y" by simp
  moreover have "uint x XOR uint y \<le> (uint x XOR uint y) OR (uint x AND uint y)"
    by (rule or_greater_eq) simp
  moreover have "(uint x XOR uint y) OR (uint x AND uint y) = uint x OR uint y"
    by (rule bit_eqI) (auto simp: bit_simps)
  ultimately have "uint x XOR uint y \<le> uint x + uint y"
    by linarith
  then have "uint (x XOR y) \<le> uint x + uint y"
    by (simp add: unsigned_xor_eq)
  then have "int (unat (x XOR y)) \<le> int (unat x + unat y)" by simp
  then show ?thesis by (simp only: of_nat_le_iff)
qed

text \<open>
  The triangle inequality of the XOR metric, and the fact that makes \<open>k_index\<close> a partition
  of the network: keys with different logarithms from one origin are at least the larger
  power of two apart, and keys with the same logarithm are nearer than that power.
\<close>

lemma distance_triangle:
  "unat (dist_bits (distance a c)) \<le> unat (dist_bits (distance a b)) + unat (dist_bits (distance b c))"
proof -
  have "key_bits a XOR key_bits c = (key_bits a XOR key_bits b) XOR (key_bits b XOR key_bits c)"
    by (rule bit_word_eqI) (auto simp: bit_simps)
  then show ?thesis by (simp add: distance_def xor_le_plus)
qed

lemma k_index_bits:
  "k_index d = Some i \<longleftrightarrow> bit (dist_bits d) i \<and> (\<forall>j>i. \<not> bit (dist_bits d) j)"
proof -
  have "k_index d = Some i \<longleftrightarrow>
      \<not> (\<forall>j\<ge>i. \<not> bit (dist_bits d) j) \<and> (\<forall>j\<ge>Suc i. \<not> bit (dist_bits d) j)"
    unfolding k_index_Some_iff unat_lt_pow2_iff [symmetric] by auto
  also have "\<dots> \<longleftrightarrow> bit (dist_bits d) i \<and> (\<forall>j>i. \<not> bit (dist_bits d) j)"
    by (metis Suc_le_eq le_neq_implies_less order_refl)
  finally show ?thesis .
qed

lemma same_index_near:
  assumes "k_index (distance p l) = Some i" and "k_index (distance k l) = Some i"
  shows "unat (dist_bits (distance p k)) < 2 ^ i"
  unfolding unat_lt_pow2_iff
proof (intro allI impI)
  fix j
  assume "i \<le> j"
  with assms have "bit (key_bits p XOR key_bits l) j \<longleftrightarrow> bit (key_bits k XOR key_bits l) j"
    by (cases "i = j") (auto simp: k_index_bits distance_def)
  then show "\<not> bit (dist_bits (distance p k)) j"
    by (auto simp: distance_def bit_simps dest: bit_imp_le_length)
qed

lemma other_index_far:
  assumes "k_index (distance p l) = Some i" and "k_index (distance k l) = Some j" and "i \<noteq> j"
  shows "2 ^ max i j \<le> unat (dist_bits (distance p k))"
proof -
  have "bit (key_bits p XOR key_bits l) (max i j) \<noteq> bit (key_bits k XOR key_bits l) (max i j)"
    using assms by (cases "i < j") (auto simp: k_index_bits distance_def max_def)
  then have "bit (dist_bits (distance p k)) (max i j)"
    by (auto simp: distance_def bit_simps dest: bit_imp_le_length)
  then have "\<not> unat (dist_bits (distance p k)) < 2 ^ max i j"
    unfolding unat_lt_pow2_iff by blast
  then show ?thesis by simp
qed

text \<open>
  \<open>k_index\<close> is the integer part of the base 2 logarithm of the distance: \<open>None\<close> exactly for
  the distance zero (two equal keys), and otherwise the \<open>i < 256\<close> with
  \<open>2^i \<le> distance < 2^(i+1)\<close>; in particular no subtraction in it underflows.
\<close>

theorem k_index_is_log2:
  "(case k_index (distance a b) of
      None \<Rightarrow> a = b
    | Some i \<Rightarrow> i < 256 \<and> 2 ^ i \<le> unat (dist_bits (distance a b)) \<and>
        unat (dist_bits (distance a b)) < 2 ^ (i + 1))"
  using k_index_None_iff [of "distance a b"] k_index_lt [of "distance a b"]
  by (auto simp: distance_zero_iff k_index_Some_iff simp del: power_Suc split: option.split)

end
