(* ===== verification/KBucket.thy ===== *)
theory KBucket
  imports XorMetric
begin

text \<open>
  \<open>kad/src/kbucket.rs\<close>: the k-buckets (\<open>KBucket\<close>, a deque with the least recently seen peer in
  front), the table with its lazily created buckets (\<open>RawKBucketTable\<close>), and the shared table with
  its length counter (\<open>KBucketTable\<close>). \<open>K\<close> is the const parameter of the Rust types, \<open>key_of\<close> is
  \<open>KBucketKey::from(&PeerId)\<close>. \<open>None\<close> as the outcome of an operation is a panic.

  The abstract view of a table is \<open>peers_at\<close>, a function from the 256 logarithmic distances to
  the list of peers kept there; every operation is shown to be the operation on that view.
\<close>

section \<open>One bucket\<close>

type_synonym kbucket = "peer_id list"

definition kbucket_new :: "peer_id \<Rightarrow> kbucket" where
  "kbucket_new peer_id = [] @ [peer_id]"

definition bucket_try_insert :: "nat \<Rightarrow> kbucket \<Rightarrow> peer_id \<Rightarrow> peer_id option \<times> kbucket" where
  "bucket_try_insert K b peer_id =
     (case find_index (\<lambda>item. item = peer_id) b of
        Some index \<Rightarrow> (Some peer_id, remove_at index b @ [peer_id])
      | None \<Rightarrow>
          if length b = K then pop_front b
          else (None, b @ [peer_id]))"

definition bucket_ok :: "nat \<Rightarrow> kbucket \<Rightarrow> bool" where
  "bucket_ok K b \<longleftrightarrow> distinct b \<and> length b \<le> K"

text \<open>The three outcomes: refreshed, evicted the oldest peer, appended.\<close>

lemma bucket_try_insert_known:
  "p \<in> set b \<Longrightarrow> bucket_try_insert K b p = (Some p, remove1 p b @ [p])"
  by (auto simp: bucket_try_insert_def split: option.splits dest: find_index_remove_at)

lemma bucket_try_insert_full:
  "p \<notin> set b \<Longrightarrow> length b = K \<Longrightarrow> bucket_try_insert K b p = pop_front b"
  by (auto simp: bucket_try_insert_def split: option.splits dest: find_index_remove_at)

lemma bucket_try_insert_room:
  "p \<notin> set b \<Longrightarrow> length b \<noteq> K \<Longrightarrow> bucket_try_insert K b p = (None, b @ [p])"
  by (auto simp: bucket_try_insert_def split: option.splits dest: find_index_remove_at)

lemmas bucket_try_insert_simps =
  bucket_try_insert_known bucket_try_insert_full bucket_try_insert_room

lemma bucket_try_insert_cases:
  obtains (known) "p \<in> set b" "bucket_try_insert K b p = (Some p, remove1 p b @ [p])"
  | (evict) x xs where "p \<notin> set b" "b = x # xs" "length b = K" "bucket_try_insert K b p = (Some x, xs)"
  | (zero) "b = []" "K = 0" "bucket_try_insert K b p = (None, [])"
  | (room) "p \<notin> set b" "length b \<noteq> K" "bucket_try_insert K b p = (None, b @ [p])"
proof (cases "p \<in> set b")
  case True
  then show ?thesis using known bucket_try_insert_known by blast
next
  case p: False
  show ?thesis
  proof (cases "length b = K")
    case True
    with p show ?thesis
      using evict zero by (cases b) (auto simp: bucket_try_insert_full)
  next
    case False
    with p show ?thesis using room bucket_try_insert_room by blast
  qed
qed

lemma bucket_try_insert_ok: "bucket_ok K b \<Longrightarrow> bucket_ok K (snd (bucket_try_insert K b p))"
proof (cases rule: bucket_try_insert_cases [of p b K])
  case known
  assume "bucket_ok K b"
  moreover from known have "length b \<noteq> 0" by auto
  ultimately show ?thesis using known by (auto simp: bucket_ok_def length_remove1)
qed (auto simp: bucket_ok_def)

lemma bucket_try_insert_set: "set (snd (bucket_try_insert K b p)) \<subseteq> insert p (set b)"
  by (cases rule: bucket_try_insert_cases [of p b K]) (auto dest: notin_set_remove1)

lemma bucket_try_insert_length:
  assumes "bucket_ok K b" and "0 < K"
  shows "length (snd (bucket_try_insert K b p)) =
    (case fst (bucket_try_insert K b p) of
       None \<Rightarrow> length b + 1 | Some q \<Rightarrow> if q = p then length b else length b - 1)"
  using assms
  by (cases rule: bucket_try_insert_cases [of p b K])
    (auto simp: length_remove1 dest: length_pos_if_in_set)

lemma bucket_try_insert_evicted:
  "fst (bucket_try_insert K b p) = Some q \<Longrightarrow> q = p \<or> q \<in> set b"
  by (cases rule: bucket_try_insert_cases [of p b K]) auto

section \<open>The table\<close>

record raw_table =
  local_key :: kbucket_key
  k_buckets :: "kbucket list"
  k_index_of :: "nat option list"

definition new_table :: "kbucket_key \<Rightarrow> raw_table" where
  "new_table key = \<lparr>local_key = key, k_buckets = [], k_index_of = replicate 256 None\<rparr>"

text \<open>The inner \<open>Option\<close> is the result, the outer one the two indexing operations.\<close>

definition bucket :: "raw_table \<Rightarrow> nat \<Rightarrow> kbucket option option" where
  "bucket t index = do {
     slot \<leftarrow> vec_get (k_index_of t) index;
     (case slot of
        None \<Rightarrow> Some None
      | Some index \<Rightarrow> map_option Some (vec_get (k_buckets t) index))
   }"

definition try_insert ::
    "nat \<Rightarrow> (peer_id \<Rightarrow> kbucket_key) \<Rightarrow> raw_table \<Rightarrow> peer_id \<Rightarrow> (peer_id option \<times> raw_table) option" where
  "try_insert K key_of t peer_id = do {
     ki \<leftarrow> k_index (distance (key_of peer_id) (local_key t));
     slot \<leftarrow> vec_get (k_index_of t) ki;
     (case slot of
        Some index \<Rightarrow> do {
          b \<leftarrow> vec_get (k_buckets t) index;
          let (r, b') = bucket_try_insert K b peer_id;
          Some (r, t\<lparr>k_buckets := (k_buckets t)[index := b']\<rparr>)
        }
      | None \<Rightarrow>
          (let bs = k_buckets t @ [kbucket_new peer_id] in
           Some (None, t\<lparr>k_buckets := bs, k_index_of := (k_index_of t)[ki := Some (length bs - 1)]\<rparr>)))
   }"

text \<open>
  The body of the \<open>while\<close> loop of \<open>closest\<close>: \<open>visit\<close> is the treatment of one bucket (written out
  twice in the source), with \<open>True\<close> for its \<open>break\<close>. The result is the most recent peers first.
\<close>

definition visit :: "nat \<Rightarrow> raw_table \<Rightarrow> nat \<Rightarrow> peer_id list \<Rightarrow> (bool \<times> peer_id list) option" where
  "visit K t index peers = do {
     b \<leftarrow> bucket t index;
     (case b of
        None \<Rightarrow> Some (False, peers)
      | Some bk \<Rightarrow>
          if length bk + length peers > K
          then (let offset = length bk + length peers - K
                in Some (True, peers @ rev (drop offset bk)))
          else Some (False, peers @ rev bk))
   }"

definition lower_half :: "nat \<Rightarrow> raw_table \<Rightarrow> nat \<Rightarrow> nat \<Rightarrow> peer_id list \<Rightarrow> (bool \<times> peer_id list) option" where
  "lower_half K t ki step peers =
     (if step \<le> ki then visit K t (ki - step) peers
      else if length (k_index_of t) \<le> ki + step then Some (True, peers)
      else Some (False, peers))"

definition upper_half :: "nat \<Rightarrow> raw_table \<Rightarrow> nat \<Rightarrow> nat \<Rightarrow> peer_id list \<Rightarrow> (bool \<times> peer_id list) option" where
  "upper_half K t ki step peers =
     (if ki + step < length (k_index_of t) then visit K t (ki + step) peers
      else if ki < step then Some (True, peers)
      else Some (False, peers))"

function closest_loop :: "nat \<Rightarrow> raw_table \<Rightarrow> nat \<Rightarrow> nat \<Rightarrow> peer_id list \<Rightarrow> peer_id list option" where
  "closest_loop K t ki step peers =
     (if length peers < K then
        (case lower_half K t ki step peers of
           None \<Rightarrow> None
         | Some (True, peers) \<Rightarrow> Some peers
         | Some (False, peers) \<Rightarrow>
             (case upper_half K t ki step peers of
                None \<Rightarrow> None
              | Some (True, peers) \<Rightarrow> Some peers
              | Some (False, peers) \<Rightarrow> closest_loop K t ki (step + 1) peers))
      else Some peers)"
  by pat_completeness auto
termination
  by (relation "measure (\<lambda>(K, t, ki, step, peers). Suc (ki + length (k_index_of t)) - step)")
    (auto simp: lower_half_def upper_half_def split: if_splits)

declare closest_loop.simps [simp del]

definition closest :: "nat \<Rightarrow> raw_table \<Rightarrow> kbucket_key \<Rightarrow> peer_id list option" where
  "closest K t key = do {
     let ki = (case k_index (distance key (local_key t)) of None \<Rightarrow> 1 | Some i \<Rightarrow> i);
     b \<leftarrow> bucket t ki;
     let peers = (case b of None \<Rightarrow> [] | Some bk \<Rightarrow> rev bk);
     closest_loop K t ki 1 peers
   }"

section \<open>The abstract view and the table invariant\<close>

definition peers_at :: "raw_table \<Rightarrow> nat \<Rightarrow> peer_id list" where
  "peers_at t i = (case bucket t i of Some (Some b) \<Rightarrow> b | _ \<Rightarrow> [])"

definition table_shape :: "raw_table \<Rightarrow> bool" where
  "table_shape t \<longleftrightarrow> length (k_index_of t) = 256 \<and>
     (\<forall>i<256. \<forall>j. k_index_of t ! i = Some j \<longrightarrow> j < length (k_buckets t)) \<and>
     (\<forall>i<256. \<forall>i'<256. \<forall>j. k_index_of t ! i = Some j \<and> k_index_of t ! i' = Some j \<longrightarrow> i = i')"

definition table_ok :: "nat \<Rightarrow> (peer_id \<Rightarrow> kbucket_key) \<Rightarrow> raw_table \<Rightarrow> bool" where
  "table_ok K key_of t \<longleftrightarrow> table_shape t \<and>
     (\<forall>i<256. bucket_ok K (peers_at t i) \<and>
        (\<forall>p\<in>set (peers_at t i). k_index (distance (key_of p) (local_key t)) = Some i))"

definition table_peers :: "raw_table \<Rightarrow> peer_id list" where
  "table_peers t = concat (map (peers_at t) [0..<length (k_index_of t)])"

lemma bucket_defined:
  "table_shape t \<Longrightarrow> i < 256 \<Longrightarrow>
     bucket t i = Some (map_option (\<lambda>j. k_buckets t ! j) (k_index_of t ! i))"
  by (auto simp: bucket_def table_shape_def split: option.splits)

lemma peers_at_eq:
  "table_shape t \<Longrightarrow> i < 256 \<Longrightarrow>
     peers_at t i = (case k_index_of t ! i of None \<Rightarrow> [] | Some j \<Rightarrow> k_buckets t ! j)"
  by (auto simp: peers_at_def bucket_defined split: option.splits)

lemma new_table_ok: "table_ok K key_of (new_table key)"
proof -
  have shape: "table_shape (new_table key)"
    by (simp add: table_shape_def new_table_def)
  have "peers_at (new_table key) i = []" if "i < 256" for i
    using that peers_at_eq [OF shape that] by (simp add: new_table_def)
  with shape show ?thesis by (simp add: table_ok_def bucket_ok_def)
qed

lemma new_table_peers: "table_peers (new_table key) = []"
proof -
  have shape: "table_shape (new_table key)"
    by (simp add: table_shape_def new_table_def)
  then have "peers_at (new_table key) i = []" if "i < length (k_index_of (new_table key))" for i
    using that peers_at_eq [OF shape, of i] by (simp add: new_table_def)
  then show ?thesis by (simp add: table_peers_def del: upt_rec_numeral)
qed

text \<open>Insertion is the bucket operation at the peer's logarithmic distance, and nothing else.\<close>

lemma try_insert_local:
  "key_of p = local_key t \<Longrightarrow> try_insert K key_of t p = None"
  using k_index_None_iff [of "distance (key_of p) (local_key t)"]
  by (simp add: try_insert_def distance_zero_iff)

lemma table_shapeD:
  assumes "table_shape t"
  shows table_shape_length: "length (k_index_of t) = 256"
    and table_shape_bound: "i < 256 \<Longrightarrow> k_index_of t ! i = Some j \<Longrightarrow> j < length (k_buckets t)"
    and table_shape_inj: "i < 256 \<Longrightarrow> i' < 256 \<Longrightarrow> k_index_of t ! i = Some j \<Longrightarrow>
      k_index_of t ! i' = Some j \<Longrightarrow> i = i'"
  using assms unfolding table_shape_def by blast+

lemma try_insert_existing_bucket:
  fixes b :: kbucket
  assumes shape: "table_shape t" and i: "i < 256" and slot: "k_index_of t ! i = Some j"
  defines "t' \<equiv> t\<lparr>k_buckets := (k_buckets t)[j := b]\<rparr>"
  shows "table_shape t'" and "i' < 256 \<Longrightarrow> peers_at t' i' = (if i' = i then b else peers_at t i')"
proof -
  show shape': "table_shape t'" using shape by (simp add: table_shape_def t'_def)
  assume i': "i' < 256"
  have j: "j < length (k_buckets t)" by (rule table_shape_bound [OF shape i slot])
  have upd: "k_index_of t' = k_index_of t" "k_buckets t' = (k_buckets t)[j := b]"
    by (simp_all add: t'_def)
  show "peers_at t' i' = (if i' = i then b else peers_at t i')"
  proof (cases "k_index_of t ! i'")
    case None
    with slot show ?thesis
      by (auto simp: peers_at_eq [OF shape' i'] peers_at_eq [OF shape i'] upd)
  next
    case (Some j')
    moreover have "j' = j \<longleftrightarrow> i' = i"
      using table_shape_inj [OF shape i' i Some] slot Some by auto
    ultimately show ?thesis
      using j by (auto simp: peers_at_eq [OF shape' i'] peers_at_eq [OF shape i'] upd)
  qed
qed

lemma try_insert_new_bucket:
  fixes b :: kbucket
  assumes shape: "table_shape t" and i: "i < 256" and slot: "k_index_of t ! i = None"
  defines "t' \<equiv> t\<lparr>k_buckets := k_buckets t @ [b],
                    k_index_of := (k_index_of t)[i := Some (length (k_buckets t))]\<rparr>"
  shows "table_shape t'" and "i' < 256 \<Longrightarrow> peers_at t' i' = (if i' = i then b else peers_at t i')"
proof -
  note len = table_shape_length [OF shape] and bound = table_shape_bound [OF shape]
  have idx: "k_index_of t' ! i' = (if i' = i then Some (length (k_buckets t)) else k_index_of t ! i')"
    if "i' < 256" for i'
    using that i len by (simp add: t'_def nth_list_update)
  have bufs: "k_buckets t' = k_buckets t @ [b]" by (simp add: t'_def)
  show shape': "table_shape t'"
    unfolding table_shape_def
  proof (intro conjI allI impI)
    show "length (k_index_of t') = 256" using len by (simp add: t'_def)
  next
    fix i' j
    assume "i' < 256" "k_index_of t' ! i' = Some j"
    then show "j < length (k_buckets t')"
      using bound [of i' j] by (simp add: idx bufs split: if_splits)
  next
    fix i' i'' j
    assume "i' < 256" "i'' < 256" "k_index_of t' ! i' = Some j \<and> k_index_of t' ! i'' = Some j"
    then show "i' = i''"
      using bound [of i' j] bound [of i'' j] table_shape_inj [OF shape, of i' i'' j]
      by (simp add: idx split: if_splits)
  qed
  assume i': "i' < 256"
  show "peers_at t' i' = (if i' = i then b else peers_at t i')"
    using bound [OF i']
    by (simp add: peers_at_eq [OF shape' i'] peers_at_eq [OF shape i'] idx [OF i'] bufs nth_append
        split: option.split)
qed

lemma try_insert_refines:
  assumes shape: "table_shape t" and "0 < K"
    and ki: "k_index (distance (key_of p) (local_key t)) = Some i"
  obtains t' where "try_insert K key_of t p = Some (fst (bucket_try_insert K (peers_at t i) p), t')"
    and "table_shape t'" and "local_key t' = local_key t"
    and "\<And>i'. i' < 256 \<Longrightarrow> peers_at t' i' =
      (if i' = i then snd (bucket_try_insert K (peers_at t i) p) else peers_at t i')"
proof -
  from ki have i: "i < 256" by (rule k_index_lt)
  have len: "length (k_index_of t) = 256" using shape by (simp add: table_shape_def)
  show thesis
  proof (cases "k_index_of t ! i")
    case None
    then have "peers_at t i = []" using shape i by (simp add: peers_at_eq)
    moreover from None i len ki have "try_insert K key_of t p = Some (None,
        t\<lparr>k_buckets := k_buckets t @ [[p]], k_index_of := (k_index_of t)[i := Some (length (k_buckets t))]\<rparr>)"
      by (simp add: try_insert_def kbucket_new_def)
    ultimately show thesis
      using that try_insert_new_bucket [OF shape i None, where b = "[p]"] \<open>0 < K\<close>
      by (simp add: bucket_try_insert_room)
  next
    case (Some j)
    then have "j < length (k_buckets t)" and pa: "peers_at t i = k_buckets t ! j"
      using shape i by (auto simp: peers_at_eq table_shape_def)
    with Some i len ki have "try_insert K key_of t p =
        Some (fst (bucket_try_insert K (peers_at t i) p),
          t\<lparr>k_buckets := (k_buckets t)[j := snd (bucket_try_insert K (peers_at t i) p)]\<rparr>)"
      by (simp add: try_insert_def split_beta)
    then show thesis
      using that try_insert_existing_bucket [OF shape i Some] by simp
  qed
qed

lemma table_okD:
  assumes "table_ok K key_of t"
  shows table_ok_shape: "table_shape t"
    and table_ok_bucket: "i < 256 \<Longrightarrow> bucket_ok K (peers_at t i)"
    and table_ok_index: "i < 256 \<Longrightarrow> p \<in> set (peers_at t i) \<Longrightarrow>
      k_index (distance (key_of p) (local_key t)) = Some i"
  using assms unfolding table_ok_def by blast+

lemma set_table_peers:
  "table_shape t \<Longrightarrow> set (table_peers t) = (\<Union>i<256. set (peers_at t i))"
  by (auto simp: table_peers_def table_shape_length)

lemma in_table_peers_iff:
  assumes "table_ok K key_of t" and "k_index (distance (key_of p) (local_key t)) = Some i"
  shows "p \<in> set (table_peers t) \<longleftrightarrow> p \<in> set (peers_at t i)"
  using assms table_ok_index [OF assms(1)] k_index_lt [OF assms(2)]
  by (fastforce simp: set_table_peers [OF table_ok_shape])

lemma table_peers_distinct: "table_ok K key_of t \<Longrightarrow> distinct (table_peers t)"
  unfolding table_peers_def
proof (rule distinct_concat_map)
  assume ok: "table_ok K key_of t"
  note len = table_shape_length [OF table_ok_shape [OF ok]]
  fix i
  assume "i \<in> set [0..<length (k_index_of t)]"
  then have i: "i < 256" by (simp add: len)
  from table_ok_bucket [OF ok i] show "distinct (peers_at t i)" by (simp add: bucket_ok_def)
  fix j p
  assume "j \<in> set [0..<length (k_index_of t)]" "p \<in> set (peers_at t i)" "p \<in> set (peers_at t j)"
  then show "i = j"
    using table_ok_index [OF ok i, of p] table_ok_index [OF ok, of j p] by (simp add: len)
qed simp

lemma local_not_in_table:
  assumes "table_ok K key_of t" and "p \<in> set (table_peers t)"
  shows "key_of p \<noteq> local_key t"
proof -
  from assms obtain i where "i < 256" "p \<in> set (peers_at t i)"
    by (auto simp: set_table_peers [OF table_ok_shape])
  then have "k_index (distance (key_of p) (local_key t)) = Some i"
    using assms(1) table_ok_index by blast
  then show ?thesis
    using k_index_None_iff [of "distance (key_of p) (local_key t)"] distance_zero_iff by force
qed

lemma try_insert_ex:
  assumes "table_shape t" and "0 < K" and "k_index (distance (key_of p) (local_key t)) = Some i"
  shows "\<exists>t'. try_insert K key_of t p = Some (fst (bucket_try_insert K (peers_at t i) p), t') \<and>
    table_shape t' \<and> local_key t' = local_key t \<and>
    (\<forall>i'<256. peers_at t' i' =
      (if i' = i then snd (bucket_try_insert K (peers_at t i) p) else peers_at t i'))"
  by (rule try_insert_refines [where key_of = key_of and p = p, OF assms]) blast

text \<open>The number of peers changes as the result of the insertion says.\<close>

lemma length_concat_upt_update:
  assumes "i < n" and "\<And>j. j < n \<Longrightarrow> j \<noteq> i \<Longrightarrow> g j = f j"
  shows "length (concat (map g [0..<n])) + length (f i) = length (concat (map f [0..<n])) + length (g i)"
  using assms
proof (induction n)
  case 0
  then show ?case by simp
next
  case (Suc n)
  show ?case
  proof (cases "i = n")
    case True
    then have "map g [0..<n] = map f [0..<n]" using Suc.prems by auto
    with True show ?thesis by (simp del: map_eq_conv)
  next
    case False
    then show ?thesis using Suc by simp
  qed
qed

lemma try_insert_table:
  assumes ok: "table_ok K key_of t" and K: "0 < K" and p: "key_of p \<noteq> local_key t"
  obtains r t' where "try_insert K key_of t p = Some (r, t')" and "table_ok K key_of t'"
    and "local_key t' = local_key t"
    and "length (table_peers t') + (if r \<noteq> None \<and> r \<noteq> Some p then 1 else 0) =
      length (table_peers t) + (if r = None then 1 else 0)"
    and "\<forall>q. r = Some q \<longrightarrow> q = p \<or> q \<in> set (table_peers t)"
    and "set (table_peers t') \<subseteq> insert p (set (table_peers t))"
proof -
  note shape = table_ok_shape [OF ok]
  from p obtain i where ki: "k_index (distance (key_of p) (local_key t)) = Some i"
    using k_index_None_iff distance_zero_iff by (metis not_None_eq)
  then have i: "i < 256" by (rule k_index_lt)
  let ?r = "bucket_try_insert K (peers_at t i) p"
  from try_insert_refines [where key_of = key_of and p = p, OF shape K ki] obtain t'
    where ins: "try_insert K key_of t p = Some (fst ?r, t')" and shape': "table_shape t'"
      and loc: "local_key t' = local_key t"
      and at: "\<And>i'. i' < 256 \<Longrightarrow> peers_at t' i' = (if i' = i then snd ?r else peers_at t i')"
    by blast
  have bok: "bucket_ok K (peers_at t i)" by (rule table_ok_bucket [OF ok i])
  have in_new: "q \<in> set (peers_at t' j) \<Longrightarrow> q = p \<and> j = i \<or> q \<in> set (peers_at t j)" if "j < 256" for q j
    using at [OF that] bucket_try_insert_set [of K "peers_at t i" p] by (auto split: if_splits)
  have ok': "table_ok K key_of t'"
    unfolding table_ok_def
  proof (intro conjI allI impI ballI)
    show "table_shape t'" by (rule shape')
  next
    fix j :: nat
    assume j: "j < 256"
    then show "bucket_ok K (peers_at t' j)"
      using bok table_ok_bucket [OF ok j] by (simp add: at bucket_try_insert_ok)
    fix q
    assume "q \<in> set (peers_at t' j)"
    with in_new [OF j] have "q = p \<and> j = i \<or> q \<in> set (peers_at t j)" by blast
    then show "k_index (distance (key_of q) (local_key t')) = Some j"
      using ki table_ok_index [OF ok j] loc by auto
  qed
  have "length (table_peers t') + length (peers_at t i) = length (table_peers t) + length (peers_at t' i)"
    unfolding table_peers_def table_shape_length [OF shape] table_shape_length [OF shape']
    by (rule length_concat_upt_update) (use i at in auto)
  then have len: "length (table_peers t') + length (peers_at t i) = length (table_peers t) + length (snd ?r)"
    by (simp add: at i)
  have ev: "q = p \<or> q \<in> set (table_peers t)" if "fst ?r = Some q" for q
    using bucket_try_insert_evicted [OF that] i by (auto simp: set_table_peers [OF shape])
  have pos: "fst ?r = Some q \<Longrightarrow> q \<noteq> p \<Longrightarrow> \<exists>n. length (peers_at t i) = Suc n" for q
    using bucket_try_insert_evicted [of K "peers_at t i" p q] by (cases "peers_at t i") auto
  have "length (table_peers t') + (if fst ?r \<noteq> None \<and> fst ?r \<noteq> Some p then 1 else 0) =
      length (table_peers t) + (if fst ?r = None then 1 else 0)"
  proof (cases "fst ?r")
    case None
    then show ?thesis using len bucket_try_insert_length [OF bok K, of p] by simp
  next
    case (Some q)
    then show ?thesis
      using len bucket_try_insert_length [OF bok K, of p] pos [OF Some] by auto
  qed
  moreover have "set (table_peers t') \<subseteq> insert p (set (table_peers t))"
    using in_new by (auto simp: set_table_peers [OF shape] set_table_peers [OF shape'])
  ultimately show thesis using that [OF ins ok' loc] ev by blast
qed

section \<open>The search for close peers\<close>

text \<open>
  The order in which \<open>closest\<close> looks at the buckets, as a specification: the bucket of the key
  first, then alternately one step below and one step above. The result of the search is the
  first \<open>K\<close> peers along that order, the most recent of each bucket first.
\<close>

definition probe_pair :: "nat \<Rightarrow> nat \<Rightarrow> nat list" where
  "probe_pair ki step =
     (if step \<le> ki then [ki - step] else []) @ (if ki + step < 256 then [ki + step] else [])"

definition probe_order :: "nat \<Rightarrow> nat list" where
  "probe_order ki = ki # concat (map (probe_pair ki) [1..<256])"

definition closest_spec :: "nat \<Rightarrow> raw_table \<Rightarrow> nat \<Rightarrow> peer_id list" where
  "closest_spec K t ki = take K (concat (map (\<lambda>i. rev (peers_at t i)) (probe_order ki)))"

lemma set_probe_pair: "i \<in> set (probe_pair ki step) \<longleftrightarrow> (step \<le> ki \<and> i = ki - step \<or> ki + step < 256 \<and> i = ki + step)"
  by (auto simp: probe_pair_def)

lemma set_probe_order:
  assumes "ki < 256"
  shows "set (probe_order ki) = {..<256}"
proof
  show "set (probe_order ki) \<subseteq> {..<256}"
    using assms by (auto simp: probe_order_def set_probe_pair)
next
  show "{..<256} \<subseteq> set (probe_order ki)"
  proof
    fix i :: nat
    assume i: "i \<in> {..<256}"
    consider "i = ki" | "i < ki" | "ki < i" by linarith
    then show "i \<in> set (probe_order ki)"
    proof cases
      case 1
      then show ?thesis by (simp add: probe_order_def)
    next
      case 2
      then have "i \<in> set (probe_pair ki (ki - i))" and "ki - i \<in> {1..<256}"
        using assms by (auto simp: set_probe_pair)
      then show ?thesis unfolding probe_order_def by force
    next
      case 3
      then have "i \<in> set (probe_pair ki (i - ki))" and "i - ki \<in> {1..<256}"
        using i by (auto simp: set_probe_pair)
      then show ?thesis unfolding probe_order_def by force
    qed
  qed
qed

lemma distinct_probe_order: "distinct (probe_order ki)"
proof -
  have "distinct (concat (map (probe_pair ki) [1..<256]))"
    by (rule distinct_concat_map) (auto simp: set_probe_pair probe_pair_def)
  moreover have "ki \<notin> set (concat (map (probe_pair ki) [1..<256]))"
    by (auto simp: set_probe_pair)
  ultimately show ?thesis by (simp add: probe_order_def)
qed

lemma take_rev_drop:
  "length xs \<le> n \<Longrightarrow> K < length b + n \<Longrightarrow> n \<le> K \<Longrightarrow> n = length xs \<Longrightarrow>
     xs @ rev (drop (length b + n - K) b) = take K (xs @ rev b)"
  by (simp add: rev_drop)

lemma visit_spec:
  assumes "table_shape t" and "i < 256" and "length peers \<le> K"
  shows "visit K t i peers = Some (K < length (peers_at t i) + length peers, take K (peers @ rev (peers_at t i)))"
proof (cases "k_index_of t ! i")
  case None
  then show ?thesis
    using assms by (simp add: visit_def bucket_defined peers_at_eq)
next
  case (Some j)
  then show ?thesis
    using assms by (simp add: visit_def bucket_defined peers_at_eq Let_def rev_drop)
qed

lemma closest_loop_spec:
  assumes shape: "table_shape t" and ki: "ki < 256" and len: "length peers \<le> K"
  shows "closest_loop K t ki step peers =
    Some (take K (peers @ concat (map (\<lambda>i. rev (peers_at t i)) (concat (map (probe_pair ki) [step..<256])))))"
    (is "_ = Some (take K (peers @ ?rest step))")
  using len
proof (induction "256 - step" arbitrary: step peers)
  case 0
  then have "lower_half K t ki step peers = Some (True, peers)"
    using ki by (simp add: lower_half_def table_shape_length [OF shape])
  with 0 show ?case by (simp add: closest_loop.simps [of K t ki step peers])
next
  case (Suc n)
  define lo where "lo = (if step \<le> ki then rev (peers_at t (ki - step)) else [])"
  define hi where "hi = (if ki + step < 256 then rev (peers_at t (ki + step)) else [])"
  define stop where "stop \<longleftrightarrow> ki < step \<and> 256 \<le> ki + step"
  define R where "R = ?rest (Suc step)"
  from Suc.hyps have step: "step < 256" and n: "n = 256 - Suc step" by simp_all
  then have "[step..<256] = step # [Suc step..<256]" by (intro upt_conv_Cons)
  then have rest: "?rest step = lo @ hi @ R" by (simp add: probe_pair_def lo_def hi_def R_def)
  have lower: "lower_half K t ki step peers = Some (stop \<or> K < length (peers @ lo), take K (peers @ lo))"
    using Suc.prems ki visit_spec [OF shape, of "ki - step" peers K]
    by (auto simp: lower_half_def table_shape_length [OF shape] lo_def stop_def)
  have upper: "upper_half K t ki step ps = Some (stop \<or> K < length (ps @ hi), take K (ps @ hi))"
    if "length ps \<le> K" for ps
    using that visit_spec [OF shape, of "ki + step" ps K]
    by (auto simp: upper_half_def table_shape_length [OF shape] hi_def stop_def)
  have "\<And>i. Suc step \<le> i \<Longrightarrow> stop \<Longrightarrow> probe_pair ki i = []"
    by (simp add: probe_pair_def stop_def)
  then have out: "stop \<Longrightarrow> lo = [] \<and> hi = [] \<and> R = []"
    by (simp add: stop_def lo_def hi_def R_def)
  have next_step: "closest_loop K t ki (Suc step) ps = Some (take K (ps @ R))" if "length ps \<le> K" for ps
    using Suc.hyps(1) [OF n that] by (simp add: R_def)
  show ?case
  proof (cases "K \<le> length peers \<or> stop")
    case True
    with Suc.prems out show ?thesis
      by (auto simp: closest_loop.simps [of K t ki step peers] lower rest)
  next
    case go: False
    then have unfold: "closest_loop K t ki step peers =
        (if K < length (peers @ lo) then Some (take K (peers @ lo))
         else if K < length (peers @ lo @ hi) then Some (take K (peers @ lo @ hi))
         else closest_loop K t ki (Suc step) (peers @ lo @ hi))"
      by (simp add: closest_loop.simps [of K t ki step peers] lower upper)
    show ?thesis using next_step [of "peers @ lo @ hi"] by (simp add: unfold rest)
  qed
qed

lemma closest_correct:
  assumes ok: "table_ok K key_of t"
  shows "closest K t key = Some (closest_spec K t (case k_index (distance key (local_key t)) of None \<Rightarrow> 1 | Some i \<Rightarrow> i))"
proof -
  note shape = table_ok_shape [OF ok]
  let ?ki = "case k_index (distance key (local_key t)) of None \<Rightarrow> 1 | Some i \<Rightarrow> i"
  have ki: "?ki < 256" by (auto split: option.split dest: k_index_lt)
  have "length (rev (peers_at t ?ki)) \<le> K"
    using table_ok_bucket [OF ok ki] by (simp add: bucket_ok_def)
  then have "closest_loop K t ?ki 1 (rev (peers_at t ?ki)) = Some (closest_spec K t ?ki)"
    by (simp add: closest_loop_spec [OF shape ki] closest_spec_def probe_order_def)
  moreover have "(case map_option (\<lambda>j. k_buckets t ! j) (k_index_of t ! ?ki) of None \<Rightarrow> [] | Some bk \<Rightarrow> rev bk)
      = rev (peers_at t ?ki)"
    by (simp add: peers_at_eq [OF shape ki] split: option.split)
  ultimately show ?thesis
    by (simp add: closest_def bucket_defined [OF shape ki])
qed

lemma closest_spec_props:
  assumes ok: "table_ok K key_of t" and ki: "ki < 256"
  shows "length (closest_spec K t ki) = min K (length (table_peers t))"
    and "distinct (closest_spec K t ki)"
    and "set (closest_spec K t ki) \<subseteq> set (table_peers t)"
proof -
  let ?all = "concat (map (\<lambda>i. rev (peers_at t i)) (probe_order ki))"
  have set: "set ?all = set (table_peers t)"
    by (simp add: set_table_peers [OF table_ok_shape [OF ok]] set_probe_order [OF ki] lessThan_def)
  have dist: "distinct ?all"
  proof (rule distinct_concat_map [OF distinct_probe_order])
    fix i
    assume "i \<in> set (probe_order ki)"
    then have i: "i < 256" by (simp add: set_probe_order [OF ki])
    from table_ok_bucket [OF ok i] show "distinct (rev (peers_at t i))" by (simp add: bucket_ok_def)
    fix j p
    assume "j \<in> set (probe_order ki)" "p \<in> set (rev (peers_at t i))" "p \<in> set (rev (peers_at t j))"
    then show "i = j"
      using table_ok_index [OF ok i, of p] table_ok_index [OF ok, of j p] by (simp add: set_probe_order [OF ki])
  qed
  have "length ?all = length (table_peers t)"
    using distinct_card [OF dist] distinct_card [OF table_peers_distinct [OF ok]] set by simp
  then show "length (closest_spec K t ki) = min K (length (table_peers t))"
    by (simp add: closest_spec_def)
  show "distinct (closest_spec K t ki)"
    using dist by (simp add: closest_spec_def distinct_take)
  show "set (closest_spec K t ki) \<subseteq> set (table_peers t)"
    using set_take_subset [of K ?all] set by (simp add: closest_spec_def)
qed

section \<open>The shared table\<close>

text \<open>
  \<open>KBucketTable\<close>: the table under its lock and the atomic length counter (a 64-bit \<open>usize\<close>, whose
  \<open>fetch_sub\<close> wraps). \<open>insert\<close> starts a background ping of the peer that came back from the
  table, and the end of that ping inserts again, so a state also holds the pings under way, as
  pairs of the pinged peer (\<open>lru\<close>) and the peer that was to be inserted. Other insertions can come
  between. Each lock-protected section is one step.
\<close>

record kbucket_table =
  table :: raw_table
  len_counter :: "64 word"
  pings :: "(peer_id \<times> peer_id) list"

definition bind_table :: "kbucket_key \<Rightarrow> kbucket_table" where
  "bind_table key = \<lparr>table = new_table key, len_counter = 0, pings = []\<rparr>"

definition insert_prv ::
    "nat \<Rightarrow> (peer_id \<Rightarrow> kbucket_key) \<Rightarrow> kbucket_table \<Rightarrow> peer_id \<Rightarrow> (peer_id option \<times> kbucket_table) option" where
  "insert_prv K key_of s peer_id = do {
     (r, t) \<leftarrow> try_insert K key_of (table s) peer_id;
     (case r of
        Some pop \<Rightarrow>
          (if pop \<noteq> peer_id
           then Some (Some pop, s\<lparr>table := t, len_counter := len_counter s - 1\<rparr>)
           else Some (Some pop, s\<lparr>table := t\<rparr>))
      | None \<Rightarrow> Some (None, s\<lparr>table := t, len_counter := len_counter s + 1\<rparr>))
   }"

definition insert_peer ::
    "nat \<Rightarrow> (peer_id \<Rightarrow> kbucket_key) \<Rightarrow> kbucket_table \<Rightarrow> peer_id \<Rightarrow> kbucket_table option" where
  "insert_peer K key_of s peer_id = do {
     (r, s) \<leftarrow> insert_prv K key_of s peer_id;
     Some (case r of None \<Rightarrow> s | Some lru \<Rightarrow> s\<lparr>pings := pings s @ [(lru, peer_id)]\<rparr>)
   }"

text \<open>The end of a background ping, with \<open>ok\<close> for \<open>Ok(())\<close>.\<close>

definition ping_done ::
    "nat \<Rightarrow> (peer_id \<Rightarrow> kbucket_key) \<Rightarrow> kbucket_table \<Rightarrow> peer_id \<times> peer_id \<Rightarrow> bool \<Rightarrow> kbucket_table option" where
  "ping_done K key_of s ping ok = do {
     let (lru, peer_id) = ping;
     (_, s) \<leftarrow> insert_prv K key_of s (if \<not> ok then lru else peer_id);
     Some (s\<lparr>pings := remove1 ping (pings s)\<rparr>)
   }"

inductive kad_step ::
    "nat \<Rightarrow> (peer_id \<Rightarrow> kbucket_key) \<Rightarrow> kbucket_table \<Rightarrow> kbucket_table \<Rightarrow> bool"
  for K key_of where
  step_insert: "insert_peer K key_of s p = Some s' \<Longrightarrow> kad_step K key_of s s'"
| step_ping: "ping \<in> set (pings s) \<Longrightarrow> ping_done K key_of s ping ok = Some s' \<Longrightarrow> kad_step K key_of s s'"

inductive kad_reachable :: "nat \<Rightarrow> (peer_id \<Rightarrow> kbucket_key) \<Rightarrow> kbucket_key \<Rightarrow> kbucket_table \<Rightarrow> bool"
  for K key_of key where
  reach_start: "kad_reachable K key_of key (bind_table key)"
| reach_step: "kad_reachable K key_of key s \<Longrightarrow> kad_step K key_of s s' \<Longrightarrow> kad_reachable K key_of key s'"

definition kad_inv :: "nat \<Rightarrow> (peer_id \<Rightarrow> kbucket_key) \<Rightarrow> kbucket_key \<Rightarrow> kbucket_table \<Rightarrow> bool" where
  "kad_inv K key_of key s \<longleftrightarrow> table_ok K key_of (table s) \<and> local_key (table s) = key \<and>
     len_counter s = of_nat (length (table_peers (table s))) \<and>
     (\<forall>(lru, p)\<in>set (pings s). key_of lru \<noteq> key \<and> key_of p \<noteq> key)"

lemma kad_inv_bind: "kad_inv K key_of key (bind_table key)"
  using new_table_ok [of K key_of key] new_table_peers [of key]
  by (simp add: kad_inv_def bind_table_def) (simp add: new_table_def)

lemma insert_prv_local: "key_of p = local_key (table s) \<Longrightarrow> insert_prv K key_of s p = None"
  by (simp add: insert_prv_def try_insert_local)

lemma insert_prv_inv:
  assumes inv: "kad_inv K key_of key s" and K: "0 < K" and p: "key_of p \<noteq> key"
  obtains r s' where "insert_prv K key_of s p = Some (r, s')" and "kad_inv K key_of key s'"
    and "pings s' = pings s" and "\<And>q. r = Some q \<Longrightarrow> key_of q \<noteq> key"
proof -
  from inv have ok: "table_ok K key_of (table s)" and loc: "local_key (table s) = key"
    and len: "len_counter s = of_nat (length (table_peers (table s)))"
    by (simp_all add: kad_inv_def)
  from p loc have p': "key_of p \<noteq> local_key (table s)" by simp
  obtain r t'
    where ins: "try_insert K key_of (table s) p = Some (r, t')" and ok': "table_ok K key_of t'"
      and loc': "local_key t' = local_key (table s)"
      and n: "length (table_peers t') + (if r \<noteq> None \<and> r \<noteq> Some p then 1 else 0) =
        length (table_peers (table s)) + (if r = None then 1 else 0)"
      and ev: "\<forall>q. r = Some q \<longrightarrow> q = p \<or> q \<in> set (table_peers (table s))"
      and "set (table_peers t') \<subseteq> insert p (set (table_peers (table s)))"
    by (rule try_insert_table [OF ok K p']) (rule that)
  have nl: "r = Some q \<Longrightarrow> key_of q \<noteq> key" for q
    using ev p local_not_in_table [OF ok] loc by auto
  note cnt = arg_cong [OF n, of "of_nat :: nat \<Rightarrow> 64 word"]
  have tail: "kad_inv K key_of key (s\<lparr>table := t', len_counter := c\<rparr>)"
    if "c = of_nat (length (table_peers t'))" for c
    using inv ok' loc' that by (simp add: kad_inv_def)
  show thesis
  proof (cases r)
    case None
    with cnt have "len_counter s + 1 = of_nat (length (table_peers t'))" by (simp add: len)
    from tail [OF this] None that [of r] ins show thesis by (simp add: insert_prv_def)
  next
    case (Some q)
    show thesis
    proof (cases "q = p")
      case True
      with Some cnt have "len_counter s = of_nat (length (table_peers t'))" by (simp add: len)
      from tail [OF this] True Some that [of r] ins nl show thesis by (simp add: insert_prv_def)
    next
      case False
      with Some cnt have "len_counter s - 1 = of_nat (length (table_peers t'))"
        by (simp add: len diff_eq_eq add.commute)
      from tail [OF this] False Some that [of r] ins nl show thesis by (simp add: insert_prv_def)
    qed
  qed
qed

lemma insert_peer_inv:
  assumes "kad_inv K key_of key s" and "0 < K" and "key_of p \<noteq> key"
  obtains s' where "insert_peer K key_of s p = Some s'" and "kad_inv K key_of key s'"
proof -
  from insert_prv_inv [OF assms] obtain r s' where "insert_prv K key_of s p = Some (r, s')"
    and "kad_inv K key_of key s'" and "\<And>q. r = Some q \<Longrightarrow> key_of q \<noteq> key" by blast
  with that assms(3) show thesis
    by (cases r) (auto simp: insert_peer_def kad_inv_def)
qed

lemma ping_done_inv:
  assumes inv: "kad_inv K key_of key s" and K: "0 < K" and ping: "ping \<in> set (pings s)"
  obtains s' where "ping_done K key_of s ping ok = Some s'" and "kad_inv K key_of key s'"
proof -
  obtain lru p where eq: "ping = (lru, p)" by (cases ping)
  with inv ping have "key_of (if \<not> ok then lru else p) \<noteq> key" by (auto simp: kad_inv_def)
  from insert_prv_inv [OF inv K this] obtain r s'
    where "insert_prv K key_of s (if \<not> ok then lru else p) = Some (r, s')" and "kad_inv K key_of key s'"
    by blast
  with that show thesis
    by (auto simp: eq ping_done_def kad_inv_def dest: notin_set_remove1)
qed

lemma kad_step_inv:
  assumes "kad_step K key_of s s'" and inv: "kad_inv K key_of key s" and K: "0 < K"
  shows "kad_inv K key_of key s'"
  using assms(1)
proof cases
  case (step_insert p)
  then have "key_of p \<noteq> key"
    using inv insert_prv_local [of key_of p s K] by (auto simp: insert_peer_def kad_inv_def)
  with step_insert show ?thesis by (auto elim: insert_peer_inv [OF inv K])
next
  case (step_ping ping ok)
  then show ?thesis using ping_done_inv [OF inv K, of ping ok] by auto
qed

lemma kad_reachable_inv: "kad_reachable K key_of key s \<Longrightarrow> 0 < K \<Longrightarrow> kad_inv K key_of key s"
  by (induction rule: kad_reachable.induct) (auto intro: kad_inv_bind kad_step_inv)

section \<open>Properties\<close>

text \<open>
  Concrete data for the witnesses: peer \<open>n\<close> has key \<open>n\<close>, the local key is \<open>0\<close>, and \<open>table_of\<close>
  lays out the table that holds the listed buckets.
\<close>

fun plain_key :: "peer_id \<Rightarrow> kbucket_key" where
  "plain_key (PeerId n) = KBucketKey (of_nat n)"

definition table_of :: "(nat \<times> kbucket) list \<Rightarrow> raw_table" where
  "table_of l = \<lparr>local_key = KBucketKey 0, k_buckets = map snd l,
     k_index_of = map (\<lambda>i. find_index (\<lambda>kb. fst kb = i) l) [0..<256]\<rparr>"

lemma table_of_shape: "table_shape (table_of l)"
proof -
  have nth: "k_index_of (table_of l) ! i = find_index (\<lambda>kb. fst kb = i) l" if "i < 256" for i
    using that by (simp add: table_of_def del: upt_rec_numeral)
  show ?thesis
    unfolding table_shape_def
  proof (intro conjI allI impI)
    show "length (k_index_of (table_of l)) = 256" by (simp add: table_of_def del: upt_rec_numeral)
  next
    fix i j
    assume "i < 256" "k_index_of (table_of l) ! i = Some j"
    then show "j < length (k_buckets (table_of l))"
      by (auto simp: nth table_of_def dest: find_index_Some)
  next
    fix i i' j
    assume "i < 256" "i' < 256" "k_index_of (table_of l) ! i = Some j \<and> k_index_of (table_of l) ! i' = Some j"
    then show "i = i'" by (auto simp: nth dest!: find_index_Some)
  qed
qed

lemma find_index_map_of:
  "(case find_index (\<lambda>kb. fst kb = i) l of None \<Rightarrow> [] | Some j \<Rightarrow> map snd l ! j) =
   (case map_of l i of None \<Rightarrow> [] | Some b \<Rightarrow> b)"
proof (induction l)
  case Nil
  then show ?case by simp
next
  case (Cons kb l)
  then show ?case by (cases "find_index (\<lambda>kb. fst kb = i) l"; cases kb) auto
qed

lemma peers_at_table_of: "i < 256 \<Longrightarrow> peers_at (table_of l) i = (case map_of l i of None \<Rightarrow> [] | Some b \<Rightarrow> b)"
  unfolding peers_at_eq [OF table_of_shape] find_index_map_of [symmetric]
  by (simp add: table_of_def del: upt_rec_numeral split: option.split)

lemma table_of_ok:
  assumes "\<And>i b. (i, b) \<in> set l \<Longrightarrow> bucket_ok K b \<and>
    (\<forall>p\<in>set b. k_index (distance (plain_key p) (KBucketKey 0)) = Some i)"
  shows "table_ok K plain_key (table_of l)"
  unfolding table_ok_def
proof (intro conjI allI impI ballI)
  show "table_shape (table_of l)" by (rule table_of_shape)
next
  fix i :: nat
  assume i: "i < 256"
  show "bucket_ok K (peers_at (table_of l) i)"
    using assms by (auto simp: peers_at_table_of [OF i] bucket_ok_def split: option.split dest: map_of_SomeD)
  fix p
  assume "p \<in> set (peers_at (table_of l) i)"
  then obtain b where "(i, b) \<in> set l" "p \<in> set b"
    by (cases "map_of l i") (auto simp: peers_at_table_of [OF i] dest: map_of_SomeD)
  with assms show "k_index (distance (plain_key p) (local_key (table_of l))) = Some i"
    by (simp add: table_of_def)
qed

definition sample_table :: raw_table where
  "sample_table = table_of [(2, [PeerId 4, PeerId 5]), (0, [PeerId 1]), (3, [PeerId 9])]"

lemma sample_ok: "table_ok 2 plain_key sample_table"
  unfolding sample_table_def
  by (rule table_of_ok) (auto simp: bucket_ok_def k_index_Some_iff distance_def)

lemma sample_at [simp]:
  "peers_at sample_table 0 = [PeerId 1]" "peers_at sample_table 2 = [PeerId 4, PeerId 5]"
  "peers_at sample_table 3 = [PeerId 9]" "local_key sample_table = KBucketKey 0"
  by (simp_all add: sample_table_def peers_at_table_of) (simp add: table_of_def)

lemma sample_peers: "{PeerId 1, PeerId 4, PeerId 5, PeerId 9} \<subseteq> set (table_peers sample_table)"
  using sample_at(1-3) unfolding set_table_peers [OF table_ok_shape [OF sample_ok]]
  by (fastforce simp del: sample_at intro: UN_I [of 0] UN_I [of 2] UN_I [of 3])

text \<open>
  C6: insertion refines the per-bucket operation. For a peer that is not the local one the
  insertion does not panic, its result is the result of \<open>KBucket::try_insert\<close> on the bucket of the
  peer's logarithmic distance, that bucket alone changes, and the table invariant (every bucket
  duplicate free, at most \<open>K\<close> peers, every peer in the bucket of its distance) is kept; for the
  local peer the code panics (\<open>expect\<close>).
\<close>

theorem try_insert_functional:
  assumes ok: "table_ok K key_of t" and K: "0 < K"
  shows "(key_of p = local_key t \<longrightarrow> try_insert K key_of t p = None) \<and>
    (key_of p \<noteq> local_key t \<longrightarrow>
      (\<exists>t' i. k_index (distance (key_of p) (local_key t)) = Some i \<and>
        try_insert K key_of t p = Some (fst (bucket_try_insert K (peers_at t i) p), t') \<and>
        table_ok K key_of t' \<and>
        (\<forall>j<256. peers_at t' j =
          (if j = i then snd (bucket_try_insert K (peers_at t i) p) else peers_at t j))))"
proof (intro conjI impI)
  assume "key_of p = local_key t"
  then show "try_insert K key_of t p = None" by (rule try_insert_local)
next
  assume p: "key_of p \<noteq> local_key t"
  then obtain i where ki: "k_index (distance (key_of p) (local_key t)) = Some i"
    using k_index_None_iff distance_zero_iff by (metis not_None_eq)
  from try_insert_refines [where key_of = key_of and p = p, OF table_ok_shape [OF ok] K ki] obtain t'
    where ins: "try_insert K key_of t p = Some (fst (bucket_try_insert K (peers_at t i) p), t')"
      and at: "\<And>j. j < 256 \<Longrightarrow> peers_at t' j =
        (if j = i then snd (bucket_try_insert K (peers_at t i) p) else peers_at t j)"
    by blast
  obtain r u where "try_insert K key_of t p = Some (r, u)" and "table_ok K key_of u"
    by (rule try_insert_table [OF ok K p])
  with ins have "table_ok K key_of t'" by simp
  with ki ins at show "\<exists>t' i. k_index (distance (key_of p) (local_key t)) = Some i \<and>
        try_insert K key_of t p = Some (fst (bucket_try_insert K (peers_at t i) p), t') \<and>
        table_ok K key_of t' \<and>
        (\<forall>j<256. peers_at t' j =
          (if j = i then snd (bucket_try_insert K (peers_at t i) p) else peers_at t j))"
    by blast
qed

theorem try_insert_functional_witness:
  "try_insert 2 plain_key sample_table (PeerId 0) = None \<and>
   (\<exists>t'. try_insert 2 plain_key sample_table (PeerId 6) = Some (Some (PeerId 4), t') \<and>
     peers_at t' 2 = [PeerId 5])"
proof -
  have ix: "k_index (distance (plain_key (PeerId 6)) (KBucketKey 0)) = Some 2"
    by (simp add: k_index_Some_iff distance_def)
  have b: "bucket_try_insert 2 [PeerId 4, PeerId 5] (PeerId 6) = (Some (PeerId 4), [PeerId 5])"
    by (simp add: bucket_try_insert_full)
  show ?thesis
    using try_insert_functional [OF sample_ok, of "PeerId 0"]
      try_insert_functional [OF sample_ok, of "PeerId 6"] ix b
    by auto
qed

text \<open>
  C30: the result of the search for close peers. It never panics and returns \<open>min K n\<close> peers
  for a table of \<open>n\<close> peers, without duplicates and all from the table: the first \<open>K\<close> peers met along
  the buckets in the order own distance, one below, one above, two below, and so on.
\<close>

theorem closest_functional:
  assumes "table_ok K key_of t"
  shows "\<exists>ki ps. closest K t key = Some ps \<and>
    (case k_index (distance key (local_key t)) of None \<Rightarrow> ki = 1 | Some i \<Rightarrow> ki = i) \<and>
    ps = take K (concat (map (\<lambda>i. rev (peers_at t i)) (probe_order ki))) \<and>
    length ps = min K (length (table_peers t)) \<and> distinct ps \<and> set ps \<subseteq> set (table_peers t)"
proof -
  let ?ki = "case k_index (distance key (local_key t)) of None \<Rightarrow> 1 | Some i \<Rightarrow> i"
  have "?ki < 256" by (auto split: option.split dest: k_index_lt)
  from closest_spec_props [OF assms this] closest_correct [OF assms, of key] show ?thesis
    by (intro exI [of _ ?ki] exI [of _ "closest_spec K t ?ki"])
      (simp add: closest_spec_def split: option.split)
qed

theorem closest_functional_witness:
  "\<exists>ps. closest 2 sample_table (KBucketKey 6) = Some ps \<and> length ps = 2 \<and> distinct ps"
proof -
  have "4 = card {PeerId 1, PeerId 4, PeerId 5, PeerId 9}" by simp
  also have "\<dots> \<le> card (set (table_peers sample_table))"
    by (rule card_mono [OF _ sample_peers]) simp
  also have "\<dots> \<le> length (table_peers sample_table)" by (rule card_length)
  finally have "4 \<le> length (table_peers sample_table)" .
  with closest_functional [OF sample_ok, of "KBucketKey 6"] show ?thesis by auto
qed

text \<open>
  what the order of the search guarantees about distances. A peer in the bucket of the
  searched key is strictly nearer to the key than every peer of every other bucket, and these
  peers come first in the result.
\<close>

theorem closest_own_bucket_nearest:
  assumes ok: "table_ok K key_of t" and ki: "k_index (distance key (local_key t)) = Some i"
    and p: "p \<in> set (peers_at t i)" and q: "q \<in> set (table_peers t)" "q \<notin> set (peers_at t i)"
  shows "distance (key_of p) key < distance (key_of q) key \<and>
    (\<exists>rest. closest K t key = Some (rev (peers_at t i) @ rest))"
proof
  from ki have i: "i < 256" by (rule k_index_lt)
  from q obtain j where j: "j < 256" "q \<in> set (peers_at t j)" "j \<noteq> i"
    by (auto simp: set_table_peers [OF table_ok_shape [OF ok]])
  have "unat (dist_bits (distance (key_of p) key)) < 2 ^ i"
    by (rule same_index_near [OF table_ok_index [OF ok i p] ki])
  also have "(2::nat) ^ i \<le> 2 ^ max j i" by simp
  also have "\<dots> \<le> unat (dist_bits (distance (key_of q) key))"
    by (rule other_index_far [OF table_ok_index [OF ok j(1,2)] ki j(3)])
  finally show "distance (key_of p) key < distance (key_of q) key"
    by (simp add: less_kbucket_distance_def word_less_nat_alt)
  have "length (peers_at t i) \<le> K" using table_ok_bucket [OF ok i] by (simp add: bucket_ok_def)
  then show "\<exists>rest. closest K t key = Some (rev (peers_at t i) @ rest)"
    using closest_correct [OF ok, of key] ki by (simp add: closest_spec_def probe_order_def)
qed

theorem closest_own_bucket_nearest_witness:
  "distance (plain_key (PeerId 4)) (KBucketKey 6) < distance (plain_key (PeerId 1)) (KBucketKey 6) \<and>
   (\<exists>rest. closest 2 sample_table (KBucketKey 6) = Some ([PeerId 5, PeerId 4] @ rest))"
  using closest_own_bucket_nearest [OF sample_ok, of "KBucketKey 6" 2 "PeerId 4" "PeerId 1"] sample_peers
  by (simp add: k_index_Some_iff distance_def)

text \<open>
  C9: the shared table under interleaved insertions and background pings. In every reachable
  state the table invariant holds and the 64-bit length counter counts the peers of the table
  (modulo \<open>2^64\<close>: no decrement ever wraps below the true length), inserting a peer other than the
  local one does not panic, and every ping under way can end in either way without a panic.
\<close>

theorem kad_reachable_sound:
  assumes "kad_reachable K key_of key s" and "0 < K"
  shows "table_ok K key_of (table s) \<and> len_counter s = of_nat (length (table_peers (table s))) \<and>
    (\<forall>p. key_of p \<noteq> key \<longrightarrow> insert_peer K key_of s p \<noteq> None) \<and>
    (\<forall>ping\<in>set (pings s). \<forall>ok. ping_done K key_of s ping ok \<noteq> None)"
proof -
  have inv: "kad_inv K key_of key s" by (rule kad_reachable_inv [OF assms])
  then have "table_ok K key_of (table s)" "len_counter s = of_nat (length (table_peers (table s)))"
    by (simp_all add: kad_inv_def)
  moreover have "insert_peer K key_of s p \<noteq> None" if "key_of p \<noteq> key" for p
    by (rule insert_peer_inv [OF inv assms(2) that]) simp
  moreover have "ping_done K key_of s ping ok \<noteq> None" if "ping \<in> set (pings s)" for ping ok
    by (rule ping_done_inv [where ok = ok, OF inv assms(2) that]) simp
  ultimately show ?thesis by blast
qed

theorem kad_reachable_sound_witness:
  "\<exists>s. kad_reachable 2 plain_key (KBucketKey 0) s \<and>
     insert_peer 2 plain_key (bind_table (KBucketKey 0)) (PeerId 5) = Some s \<and>
     len_counter s = of_nat (length (table_peers (table s)))"
proof -
  have start: "kad_reachable 2 plain_key (KBucketKey 0) (bind_table (KBucketKey 0))"
    by (rule reach_start)
  have "insert_peer 2 plain_key (bind_table (KBucketKey 0)) (PeerId 5) \<noteq> None"
    using kad_reachable_sound [OF start] by simp
  then obtain s where s: "insert_peer 2 plain_key (bind_table (KBucketKey 0)) (PeerId 5) = Some s"
    by blast
  then have "kad_reachable 2 plain_key (KBucketKey 0) s"
    by (blast intro: reach_step [OF start] step_insert)
  with kad_reachable_sound [OF this] s show ?thesis by auto
qed

text \<open>
  what happens to the least recently seen peer of a full bucket when a new peer arrives.
  The insertion takes it out and pings it. When that ping fails, the silent peer itself is put
  back and the new peer is forgotten; when it succeeds, the new peer takes its place and the
  live peer is forgotten. (Kademlia keeps the live peer and replaces the silent one.)
\<close>

theorem full_bucket_eviction:
  assumes inv: "kad_inv K key_of key s"
    and ki: "k_index (distance (key_of p) key) = Some i"
    and full: "peers_at (table s) i = lru # rest" "length (lru # rest) = K"
    and new: "p \<notin> set (lru # rest)"
  shows "\<exists>s1 dead alive. insert_peer K key_of s p = Some s1 \<and> (lru, p) \<in> set (pings s1) \<and>
    ping_done K key_of s1 (lru, p) False = Some dead \<and> peers_at (table dead) i = rest @ [lru] \<and>
    ping_done K key_of s1 (lru, p) True = Some alive \<and> peers_at (table alive) i = rest @ [p]"
proof -
  from full have K: "0 < K" by auto
  from ki have i: "i < 256" by (rule k_index_lt)
  from inv have ok: "table_ok K key_of (table s)" and loc: "local_key (table s) = key"
    by (simp_all add: kad_inv_def)
  have lru: "k_index (distance (key_of lru) key) = Some i"
    using table_ok_index [OF ok i, of lru] full loc by simp
  from table_ok_bucket [OF ok i] have dist: "lru \<notin> set rest" by (simp add: full bucket_ok_def)
  have out: "bucket_try_insert K (peers_at (table s) i) p = (Some lru, rest)"
    using full new by (simp add: bucket_try_insert_full)
  from ki loc have "k_index (distance (key_of p) (local_key (table s))) = Some i" by simp
  from try_insert_ex [where key_of = key_of and p = p, OF table_ok_shape [OF ok] K this] loc out i
  obtain t1 where t1: "try_insert K key_of (table s) p = Some (Some lru, t1)" "table_shape t1"
    "local_key t1 = key" "peers_at t1 i = rest" by auto
  have put_back: "\<exists>t2. try_insert K key_of t1 q = Some (None, t2) \<and> peers_at t2 i = rest @ [q]"
    if q: "k_index (distance (key_of q) key) = Some i" "q \<notin> set rest" for q
  proof -
    have "bucket_try_insert K (peers_at t1 i) q = (None, rest @ [q])"
      using q full by (simp add: t1 bucket_try_insert_room)
    moreover from q t1(3) have "k_index (distance (key_of q) (local_key t1)) = Some i" by simp
    ultimately show ?thesis
      using try_insert_ex [where key_of = key_of and p = q, OF t1(2) K] i by fastforce
  qed
  from new have "p \<noteq> lru" "p \<notin> set rest" by auto
  with put_back [OF lru dist] put_back [OF ki] t1 show ?thesis
    by (auto simp: insert_peer_def ping_done_def insert_prv_def)
qed

theorem full_bucket_eviction_witness:
  "\<exists>s1 dead. insert_peer 2 plain_key \<lparr>table = sample_table, len_counter = of_nat (length (table_peers sample_table)), pings = []\<rparr>
      (PeerId 6) = Some s1 \<and>
    ping_done 2 plain_key s1 (PeerId 4, PeerId 6) False = Some dead \<and>
    peers_at (table dead) 2 = [PeerId 5, PeerId 4]"
proof -
  let ?s = "\<lparr>table = sample_table, len_counter = of_nat (length (table_peers sample_table)), pings = []\<rparr>"
  have inv: "kad_inv 2 plain_key (KBucketKey 0) ?s"
    using sample_ok by (simp add: kad_inv_def)
  have ki: "k_index (distance (plain_key (PeerId 6)) (KBucketKey 0)) = Some 2"
    by (simp add: k_index_Some_iff distance_def)
  show ?thesis
    using full_bucket_eviction [OF inv ki, of "PeerId 4" "[PeerId 5]"] by auto
qed

text \<open>
  the search does not always return the nearest peers. Here the table holds a peer at
  distance 5 and a peer at distance 12 from the key, and the search for one peer returns the
  farther one, because the bucket one step above is looked at before the bucket two steps below.
\<close>

theorem closest_not_nearest:
  "let t = table_of [(0, [PeerId 1]), (3, [PeerId 8])]; key = KBucketKey 4
   in table_ok 1 plain_key t \<and> PeerId 1 \<in> set (table_peers t) \<and>
      closest 1 t key = Some [PeerId 8] \<and>
      distance (plain_key (PeerId 1)) key < distance (plain_key (PeerId 8)) key"
proof -
  define t where "t = table_of [(0, [PeerId 1]), (3, [PeerId 8])]"
  have ok: "table_ok 1 plain_key t"
    unfolding t_def by (rule table_of_ok) (auto simp: bucket_ok_def k_index_Some_iff distance_def)
  have at: "peers_at t 0 = [PeerId 1]" "peers_at t 1 = []" "peers_at t 2 = []" "peers_at t 3 = [PeerId 8]"
    by (simp_all add: t_def peers_at_table_of)
  have loc: "local_key t = KBucketKey 0" by (simp add: t_def table_of_def)
  have "k_index (distance (KBucketKey 4) (local_key t)) = Some 2"
    by (simp add: loc k_index_Some_iff distance_def)
  moreover have "[1..<256] = 1 # [2..<256::nat]" by (simp add: upt_conv_Cons del: upt_rec_numeral)
  then have "probe_order 2 = 2 # 1 # 3 # concat (map (probe_pair 2) [2..<256])"
    by (simp add: probe_order_def probe_pair_def del: upt_rec_numeral One_nat_def)
  ultimately have "closest 1 t (KBucketKey 4) = Some [PeerId 8]"
    by (simp add: closest_correct [OF ok] closest_spec_def at take_Cons' del: upt_rec_numeral One_nat_def)
  moreover have "PeerId 1 \<in> set (table_peers t)"
    unfolding set_table_peers [OF table_ok_shape [OF ok]] by (rule UN_I [of 0]) (simp_all add: at)
  ultimately show ?thesis
    using ok unfolding t_def [symmetric] Let_def
    by (simp add: less_kbucket_distance_def distance_def)
qed

end
