(* ===== verification/PeerBook.thy ===== *)
theory PeerBook
  imports Net_Types "HOL-Library.Multiset"
begin

text \<open>
  \<open>xstack/src/book.rs\<close>: \<open>PeerInfo\<close>, the interface \<open>DriverPeerBook\<close> as the locale
  \<open>peer_book_driver\<close>, and its implementation \<open>MemoryPeerBook\<close>, a map from peer ids to peer infos
  with an index from listening addresses back to peer ids. Every operation runs under the
  book's mutex, so it is one function on the state. \<open>SystemTime\<close> is a number.

  Two things the standard library and the rand package leave open are arguments: the order
  in which a hash map is iterated, and the random choice of \<open>choose_multiple\<close>.
\<close>

section \<open>Peer infos and the book\<close>

record peer_info =
  pi_id :: peer_id
  pi_addrs :: "multiaddr list"
  pi_protos :: "string list"
  pi_appear :: "nat option"
  pi_disappear :: "nat option"

text \<open>\<open>PeerInfo { id, addrs, ..Default::default() }\<close>, and the derived-by-hand \<open>PartialEq\<close>.\<close>

definition peer_info_of :: "peer_id \<Rightarrow> multiaddr list \<Rightarrow> peer_info" where
  "peer_info_of pid addrs =
     \<lparr>pi_id = pid, pi_addrs = addrs, pi_protos = [], pi_appear = None, pi_disappear = None\<rparr>"

definition peer_info_eq :: "peer_info \<Rightarrow> peer_info \<Rightarrow> bool" where
  "peer_info_eq a b \<longleftrightarrow> pi_id a = pi_id b \<and> pi_addrs a = pi_addrs b"

lemma peer_info_of_simps [simp]:
  "pi_id (peer_info_of pid addrs) = pid" "pi_addrs (peer_info_of pid addrs) = addrs"
  "pi_protos (peer_info_of pid addrs) = []" "pi_disappear (peer_info_of pid addrs) = None"
  by (simp_all add: peer_info_of_def)

record peer_book =
  peer_infos :: "peer_id \<rightharpoonup> peer_info"
  peer_addrs :: "multiaddr \<rightharpoonup> peer_id"

definition book_empty :: peer_book where
  "book_empty = \<lparr>peer_infos = Map.empty, peer_addrs = Map.empty\<rparr>"

definition book_len :: "peer_book \<Rightarrow> nat" where
  "book_len b = card (dom (peer_infos b))"

definition book_insert :: "peer_book \<Rightarrow> peer_info \<Rightarrow> (io_error + peer_info option) \<times> peer_book" where
  "book_insert raw info =
     (let info = info\<lparr>pi_disappear := None\<rparr>;
          id = pi_id info;
          raddrs = pi_addrs info;
          older = peer_infos raw id;
          raw = raw\<lparr>peer_infos := (peer_infos raw)(id \<mapsto> info)\<rparr>;
          raw = (case older of
                   None \<Rightarrow> raw
                 | Some old \<Rightarrow> raw\<lparr>peer_addrs := remove_keys (pi_addrs old) (peer_addrs raw)\<rparr>);
          raw = raw\<lparr>peer_addrs := insert_keys raddrs id (peer_addrs raw)\<rparr>
      in (Inr older, raw))"

definition book_remove :: "peer_book \<Rightarrow> peer_id \<Rightarrow> (io_error + peer_info option) \<times> peer_book" where
  "book_remove raw peer_id =
     (let older = peer_infos raw peer_id;
          raw = raw\<lparr>peer_infos := (peer_infos raw)(peer_id := None)\<rparr>;
          raw = (case older of
                   None \<Rightarrow> raw
                 | Some old \<Rightarrow> raw\<lparr>peer_addrs := remove_keys (pi_addrs old) (peer_addrs raw)\<rparr>)
      in (Inr older, raw))"

definition book_appear :: "peer_book \<Rightarrow> peer_id \<Rightarrow> nat \<Rightarrow> (io_error + unit) \<times> peer_book" where
  "book_appear raw peer_id timestamp =
     (case peer_infos raw peer_id of
        Some info \<Rightarrow>
          (Inr (), raw\<lparr>peer_infos := (peer_infos raw)(peer_id \<mapsto> info\<lparr>pi_appear := Some timestamp\<rparr>)\<rparr>)
      | None \<Rightarrow> (Inr (), raw))"

definition book_disappear :: "peer_book \<Rightarrow> peer_id \<Rightarrow> nat \<Rightarrow> (io_error + unit) \<times> peer_book" where
  "book_disappear raw peer_id timestamp =
     (case peer_infos raw peer_id of
        Some info \<Rightarrow>
          (Inr (), raw\<lparr>peer_infos := (peer_infos raw)(peer_id \<mapsto> info\<lparr>pi_disappear := Some timestamp\<rparr>)\<rparr>)
      | None \<Rightarrow> (Inr (), raw))"

definition book_get :: "peer_book \<Rightarrow> peer_id \<Rightarrow> io_error + peer_info option" where
  "book_get raw peer_id = Inr (peer_infos raw peer_id)"

definition book_listen_on :: "peer_book \<Rightarrow> multiaddr \<Rightarrow> io_error + peer_id option" where
  "book_listen_on raw raddr = Inr (peer_addrs raw raddr)"

text \<open>\<open>order\<close> is the iteration order of the map, \<open>pick\<close> is \<open>choose_multiple(rng, _)\<close>.\<close>

definition book_choose_peers ::
    "(peer_id list \<Rightarrow> nat \<Rightarrow> peer_id list) \<Rightarrow> peer_id list \<Rightarrow> peer_book \<Rightarrow> string \<Rightarrow> nat \<Rightarrow> io_error + peer_id list" where
  "book_choose_peers pick order raw protocol_id maximun =
     Inr (pick (List.map_filter
            (\<lambda>k. case peer_infos raw k of
                Some info \<Rightarrow> (if protocol_id \<in> set (pi_protos info) then Some (pi_id info) else None)
              | None \<Rightarrow> None) order) maximun)"

text \<open>\<open>with_p2p\<close> is \<open>Multiaddr::with_p2p\<close>, with \<open>None\<close> for its \<open>Err\<close>.\<close>

fun nat_peers_loop ::
    "(multiaddr \<Rightarrow> peer_id \<Rightarrow> multiaddr option) \<Rightarrow> (multiaddr \<rightharpoonup> peer_id) \<Rightarrow> nat \<Rightarrow> multiaddr list \<Rightarrow>
     multiaddr list \<Rightarrow> multiaddr list" where
  "nat_peers_loop with_p2p m limits [] raddrs = raddrs"
| "nat_peers_loop with_p2p m limits (addr # rest) raddrs =
     (if addr_ends_with addr [P2pCircuit] then
        (case m addr of
           None \<Rightarrow> nat_peers_loop with_p2p m limits rest raddrs
         | Some pid \<Rightarrow>
             (case with_p2p addr pid of
                None \<Rightarrow> nat_peers_loop with_p2p m limits rest raddrs
              | Some addr' \<Rightarrow>
                  (let raddrs = raddrs @ [addr'] in
                   if length raddrs = limits then raddrs
                   else nat_peers_loop with_p2p m limits rest raddrs)))
      else nat_peers_loop with_p2p m limits rest raddrs)"

definition book_choose_nat_peers ::
    "(multiaddr \<Rightarrow> peer_id \<Rightarrow> multiaddr option) \<Rightarrow> multiaddr list \<Rightarrow> peer_book \<Rightarrow> nat \<Rightarrow> io_error + multiaddr list" where
  "book_choose_nat_peers with_p2p order raw limits =
     Inr (nat_peers_loop with_p2p (peer_addrs raw) limits order [])"

section \<open>The operations on the two maps\<close>

definition stored :: "peer_info \<Rightarrow> peer_info" where
  "stored info = info\<lparr>pi_disappear := None\<rparr>"

lemma stored_simps [simp]:
  "pi_id (stored info) = pi_id info" "pi_addrs (stored info) = pi_addrs info"
  "pi_protos (stored info) = pi_protos info" "pi_disappear (stored info) = None"
  by (simp_all add: stored_def)

lemma stored_peer_info_of [simp]: "stored (peer_info_of pid addrs) = peer_info_of pid addrs"
  by (simp add: stored_def peer_info_of_def)

lemma book_insert_result [simp]: "fst (book_insert b info) = Inr (peer_infos b (pi_id info))"
  by (simp add: book_insert_def Let_def)

lemma book_insert_infos [simp]:
  "peer_infos (snd (book_insert b info)) = (peer_infos b)(pi_id info \<mapsto> stored info)"
  by (simp add: book_insert_def Let_def stored_def split: option.split)

lemma book_insert_addrs:
  "peer_addrs (snd (book_insert b info)) a =
     (if a \<in> set (pi_addrs info) then Some (pi_id info)
      else case peer_infos b (pi_id info) of
          Some old \<Rightarrow> if a \<in> set (pi_addrs old) then None else peer_addrs b a
        | None \<Rightarrow> peer_addrs b a)"
  by (simp add: book_insert_def Let_def insert_keys_apply remove_keys_apply split: option.split)

lemma book_remove_result [simp]: "fst (book_remove b p) = Inr (peer_infos b p)"
  by (simp add: book_remove_def Let_def)

lemma book_remove_infos [simp]: "peer_infos (snd (book_remove b p)) = (peer_infos b)(p := None)"
  by (simp add: book_remove_def Let_def split: option.split)

lemma book_remove_addrs:
  "peer_addrs (snd (book_remove b p)) a =
     (case peer_infos b p of
        Some old \<Rightarrow> if a \<in> set (pi_addrs old) then None else peer_addrs b a
      | None \<Rightarrow> peer_addrs b a)"
  by (simp add: book_remove_def Let_def remove_keys_apply split: option.split)

section \<open>The invariant\<close>

text \<open>
  The reverse index is sound: an address points at a peer that is in the book and lists the
  address. Peers are stored under their own id, and both maps are finite.
\<close>

definition book_ok :: "peer_book \<Rightarrow> bool" where
  "book_ok b \<longleftrightarrow> finite (dom (peer_infos b)) \<and> finite (dom (peer_addrs b)) \<and>
     (\<forall>p info. peer_infos b p = Some info \<longrightarrow> pi_id info = p) \<and>
     (\<forall>a p. peer_addrs b a = Some p \<longrightarrow> (\<exists>info. peer_infos b p = Some info \<and> a \<in> set (pi_addrs info)))"

lemma book_okD:
  assumes "book_ok b"
  shows book_ok_id: "peer_infos b p = Some info \<Longrightarrow> pi_id info = p"
    and book_ok_addr: "peer_addrs b a = Some p \<Longrightarrow> \<exists>info. peer_infos b p = Some info \<and> a \<in> set (pi_addrs info)"
    and book_ok_finite: "finite (dom (peer_infos b))" "finite (dom (peer_addrs b))"
  using assms unfolding book_ok_def by blast+

lemma book_empty_ok: "book_ok book_empty"
  by (simp add: book_ok_def book_empty_def)

lemma dom_insert_addrs_subset:
  "dom (peer_addrs (snd (book_insert b info))) \<subseteq> dom (peer_addrs b) \<union> set (pi_addrs info)"
  by (auto simp: book_insert_addrs split: if_splits option.splits)

lemma dom_remove_addrs_subset: "dom (peer_addrs (snd (book_remove b p))) \<subseteq> dom (peer_addrs b)"
  by (auto simp: book_remove_addrs split: if_splits option.splits)

lemma book_insert_ok:
  assumes ok: "book_ok b"
  shows "book_ok (snd (book_insert b info))"
  unfolding book_ok_def
proof (intro conjI allI impI)
  show "finite (dom (peer_infos (snd (book_insert b info))))"
    using book_ok_finite [OF ok] by simp
  show "finite (dom (peer_addrs (snd (book_insert b info))))"
    by (rule finite_subset [OF dom_insert_addrs_subset]) (simp add: book_ok_finite [OF ok])
next
  fix p i
  assume "peer_infos (snd (book_insert b info)) p = Some i"
  then show "pi_id i = p" using book_ok_id [OF ok] by (auto split: if_splits)
next
  fix a p
  assume *: "peer_addrs (snd (book_insert b info)) a = Some p"
  show "\<exists>i. peer_infos (snd (book_insert b info)) p = Some i \<and> a \<in> set (pi_addrs i)"
  proof (cases "a \<in> set (pi_addrs info)")
    case True
    with * show ?thesis by (simp add: book_insert_addrs)
  next
    case False
    with * have "peer_addrs b a = Some p"
      and "\<And>old. peer_infos b (pi_id info) = Some old \<Longrightarrow> a \<notin> set (pi_addrs old)"
      by (auto simp: book_insert_addrs split: option.splits if_splits)
    with book_ok_addr [OF ok this(1)] show ?thesis by (cases "p = pi_id info") auto
  qed
qed

lemma book_remove_ok:
  assumes ok: "book_ok b"
  shows "book_ok (snd (book_remove b p))"
  unfolding book_ok_def
proof (intro conjI allI impI)
  show "finite (dom (peer_infos (snd (book_remove b p))))"
    using book_ok_finite [OF ok] by simp
  show "finite (dom (peer_addrs (snd (book_remove b p))))"
    by (rule finite_subset [OF dom_remove_addrs_subset]) (simp add: book_ok_finite [OF ok])
next
  fix q i
  assume "peer_infos (snd (book_remove b p)) q = Some i"
  then show "pi_id i = q" using book_ok_id [OF ok] by (auto split: if_splits)
next
  fix a q
  assume "peer_addrs (snd (book_remove b p)) a = Some q"
  then have "peer_addrs b a = Some q" and "\<And>old. peer_infos b p = Some old \<Longrightarrow> a \<notin> set (pi_addrs old)"
    by (auto simp: book_remove_addrs split: option.splits if_splits)
  with book_ok_addr [OF ok this(1)]
  show "\<exists>i. peer_infos (snd (book_remove b p)) q = Some i \<and> a \<in> set (pi_addrs i)"
    by (cases "q = p") auto
qed

lemma book_appear_ok: "book_ok b \<Longrightarrow> book_ok (snd (book_appear b p t))"
  unfolding book_ok_def book_appear_def
  by (cases "peer_infos b p") (auto, metis option.sel)

lemma book_disappear_ok: "book_ok b \<Longrightarrow> book_ok (snd (book_disappear b p t))"
  unfolding book_ok_def book_disappear_def
  by (cases "peer_infos b p") (auto, metis option.sel)


lemmas book_preserves = book_empty_ok book_insert_ok book_remove_ok book_appear_ok book_disappear_ok

section \<open>The interface \<open>DriverPeerBook\<close>\<close>

text \<open>What a caller of the trait may rely on: the calls return the previous entry, \<open>get\<close> sees the
  last insertion, and a reverse lookup answers only with peers that list the address.\<close>

locale peer_book_driver =
  fixes ins :: "'s \<Rightarrow> peer_info \<Rightarrow> ('e + peer_info option) \<times> 's"
    and rem :: "'s \<Rightarrow> peer_id \<Rightarrow> ('e + peer_info option) \<times> 's"
    and look :: "'s \<Rightarrow> peer_id \<Rightarrow> 'e + peer_info option"
    and rev_look :: "'s \<Rightarrow> multiaddr \<Rightarrow> 'e + peer_id option"
    and ok :: "'s \<Rightarrow> bool"
  assumes ins_returns: "fst (ins s i) = look s (pi_id i)"
    and rem_returns: "fst (rem s p) = look s p"
    and look_ins: "look (snd (ins s i)) p = (if p = pi_id i then Inr (Some (stored i)) else look s p)"
    and look_rem: "look (snd (rem s p)) q = (if q = p then Inr None else look s q)"
    and rev_look_ins: "a \<in> set (pi_addrs i) \<Longrightarrow> rev_look (snd (ins s i)) a = Inr (Some (pi_id i))"
    and rev_look_sound: "ok s \<Longrightarrow> rev_look s a = Inr (Some p) \<Longrightarrow>
                           \<exists>i. look s p = Inr (Some i) \<and> a \<in> set (pi_addrs i)"
    and ins_ok: "ok s \<Longrightarrow> ok (snd (ins s i))"
    and rem_ok: "ok s \<Longrightarrow> ok (snd (rem s p))"
begin

lemma ins_twice_returns_first: "fst (ins (snd (ins s i)) j) = (if pi_id j = pi_id i then Inr (Some (stored i)) else look s (pi_id j))"
  by (simp add: ins_returns look_ins)

lemma rem_forgets_addresses:
  assumes "ok s"
  shows "rev_look (snd (rem s p)) a \<noteq> Inr (Some p)"
  using rev_look_sound [OF rem_ok [OF assms], of p a p] by (auto simp: look_rem)

lemma ins_replaces_addresses:
  assumes "ok s" and "a \<notin> set (pi_addrs i)"
  shows "rev_look (snd (ins s i)) a \<noteq> Inr (Some (pi_id i))"
  using rev_look_sound [OF ins_ok [OF assms(1)], of i a "pi_id i"] assms(2) by (auto simp: look_ins)

lemma rev_look_then_look:
  assumes "ok s" and "a \<in> set (pi_addrs i)"
  shows "\<exists>p. rev_look (snd (ins s i)) a = Inr (Some p) \<and> look (snd (ins s i)) p = Inr (Some (stored i))"
  using assms by (simp add: rev_look_ins look_ins)

end

interpretation mb: peer_book_driver book_insert book_remove book_get book_listen_on book_ok
  by unfold_locales
    (auto simp: book_get_def book_listen_on_def book_insert_addrs book_insert_ok book_remove_ok
          dest: book_ok_addr)

lemma distinct_mset_subset:
  assumes "mset xs \<subseteq># mset ys" and "distinct ys"
  shows "distinct xs"
proof -
  have "count (mset xs) a = (if a \<in> set xs then 1 else 0)" for a
  proof (cases "a \<in> set xs")
    case True
    then have "count (mset xs) a \<noteq> 0" by simp
    moreover have "count (mset xs) a \<le> count (mset ys) a" by (rule mset_subset_eq_count [OF assms(1)])
    moreover have "count (mset ys) a \<le> 1" using assms(2) by (simp add: distinct_count_atmost_1)
    ultimately have "count (mset xs) a = 1" by linarith
    then show ?thesis using True by simp
  next
    case False
    then show ?thesis by (simp add: count_mset_0_iff)
  qed
  then show ?thesis unfolding distinct_count_atmost_1 by blast
qed

section \<open>Properties of the memory peer book\<close>

text \<open>The calls a switch makes on its book, in any order.\<close>

datatype book_call =
    CallInsert peer_info
  | CallRemove peer_id
  | CallAppear peer_id nat
  | CallDisappear peer_id nat

fun book_do :: "book_call \<Rightarrow> peer_book \<Rightarrow> peer_book" where
  "book_do (CallInsert info) b = snd (book_insert b info)"
| "book_do (CallRemove p) b = snd (book_remove b p)"
| "book_do (CallAppear p t) b = snd (book_appear b p t)"
| "book_do (CallDisappear p t) b = snd (book_disappear b p t)"

lemma book_do_ok: "book_ok b \<Longrightarrow> book_ok (book_do c b)"
  by (cases c) (simp_all add: book_preserves)

lemma book_dos_ok: "book_ok b \<Longrightarrow> book_ok (fold book_do cs b)"
  by (induction cs arbitrary: b) (simp_all add: book_do_ok)

text \<open>C25: Whatever calls are made on a fresh book, a reverse lookup answers only with a peer that
  is still in the book, stored under its own id, and lists that address among its own.\<close>

theorem listen_on_sound:
  assumes "book_listen_on (fold book_do cs book_empty) a = Inr (Some p)"
  shows "\<exists>info. book_get (fold book_do cs book_empty) p = Inr (Some info) \<and>
           pi_id info = p \<and> a \<in> set (pi_addrs info)"
proof -
  have ok: "book_ok (fold book_do cs book_empty)" by (rule book_dos_ok [OF book_empty_ok])
  from mb.rev_look_sound [OF ok assms] book_ok_id [OF ok] show ?thesis
    by (auto simp: book_get_def)
qed

definition sample_addr :: multiaddr where
  "sample_addr = [Ip4 127, Tcp 9000]"

theorem listen_on_sound_witness:
  "\<exists>info. book_get (fold book_do [CallInsert (peer_info_of (PeerId 7) [sample_addr]), CallAppear (PeerId 7) 3] book_empty)
       (PeerId 7) = Inr (Some info) \<and> pi_id info = PeerId 7 \<and> sample_addr \<in> set (pi_addrs info)"
  by (rule listen_on_sound)
    (simp add: book_listen_on_def book_appear_def book_insert_addrs split: option.split)

text \<open>Inserting a peer returns the entry it replaces; afterwards the peer is found under its id
  with its disappearance cleared, every address it lists leads to it, none that only its older
  version listed does, and no other peer's entry is touched.\<close>

theorem insert_lookup:
  assumes "book_ok b"
  shows "fst (book_insert b info) = book_get b (pi_id info) \<and>
     book_get (snd (book_insert b info)) (pi_id info) = Inr (Some (info\<lparr>pi_disappear := None\<rparr>)) \<and>
     (\<forall>q. q \<noteq> pi_id info \<longrightarrow> book_get (snd (book_insert b info)) q = book_get b q) \<and>
     (\<forall>a. book_listen_on (snd (book_insert b info)) a = Inr (Some (pi_id info)) \<longleftrightarrow> a \<in> set (pi_addrs info))"
proof -
  have "book_listen_on (snd (book_insert b info)) a = Inr (Some (pi_id info)) \<longleftrightarrow> a \<in> set (pi_addrs info)" for a
    using mb.rev_look_ins mb.ins_replaces_addresses [OF assms] by blast
  then show ?thesis by (simp add: mb.ins_returns mb.look_ins stored_def del: book_insert_result)
qed

theorem insert_lookup_witness:
  "fst (book_insert book_empty (peer_info_of (PeerId 7) [sample_addr])) = book_get book_empty (PeerId 7) \<and>
   book_listen_on (snd (book_insert book_empty (peer_info_of (PeerId 7) [sample_addr]))) sample_addr = Inr (Some (PeerId 7))"
  using insert_lookup [OF book_empty_ok, of "peer_info_of (PeerId 7) [sample_addr]"] by simp

definition two_behind_one :: peer_book where
  "two_behind_one = fold book_do
     [CallInsert (peer_info_of (PeerId 1) [sample_addr]), CallInsert (peer_info_of (PeerId 2) [sample_addr]),
      CallRemove (PeerId 1)] book_empty"

text \<open>Removing a peer forgets addresses that another peer still lists: with two peers behind one
  address, removing the first leaves the second in the book, and the address leads nowhere.\<close>

theorem remove_forgets_shared_address:
  "book_get two_behind_one (PeerId 2) = Inr (Some (peer_info_of (PeerId 2) [sample_addr])) \<and>
   book_listen_on two_behind_one sample_addr = Inr None"
  by (simp add: two_behind_one_def book_get_def book_listen_on_def book_remove_addrs book_empty_def)

text \<open>What \<open>choose_multiple\<close> promises: that many distinct positions of the list, all of it when shorter.\<close>

definition choose_multiple_law :: "('a list \<Rightarrow> nat \<Rightarrow> 'a list) \<Rightarrow> bool" where
  "choose_multiple_law pick \<longleftrightarrow>
     (\<forall>xs n. mset (pick xs n) \<subseteq># mset xs \<and> length (pick xs n) = min n (length xs))"

lemma choose_multiple_law_take: "choose_multiple_law (\<lambda>xs n. take n xs)"
proof -
  have "mset (take n xs) \<subseteq># mset xs" for n and xs :: "'a list"
    by (metis append_take_drop_id mset_append mset_subset_eq_add_left)
  then show ?thesis by (simp add: choose_multiple_law_def min.commute)
qed

definition speakers :: "peer_book \<Rightarrow> string \<Rightarrow> peer_id set" where
  "speakers b proto = {p. \<exists>info. peer_infos b p = Some info \<and> proto \<in> set (pi_protos info)}"

lemma map_filter_eq_filter:
  assumes "\<And>x. x \<in> set xs \<Longrightarrow> f x = (if P x then Some x else None)"
  shows "List.map_filter f xs = filter P xs"
  using assms by (induction xs) (simp_all add: List.map_filter_simps)

lemma speakers_of_order:
  assumes ok: "book_ok b" and order: "set order = dom (peer_infos b)"
  shows "List.map_filter
           (\<lambda>k. case peer_infos b k of
                Some info \<Rightarrow> (if proto \<in> set (pi_protos info) then Some (pi_id info) else None)
              | None \<Rightarrow> None) order = filter (\<lambda>k. k \<in> speakers b proto) order"
proof (rule map_filter_eq_filter)
  fix x assume "x \<in> set order"
  then obtain info where "peer_infos b x = Some info" using order by auto
  with book_ok_id [OF ok this] show "(case peer_infos b x of
                Some info \<Rightarrow> (if proto \<in> set (pi_protos info) then Some (pi_id info) else None)
              | None \<Rightarrow> None) = (if x \<in> speakers b proto then Some x else None)"
    by (auto simp: speakers_def)
qed

text \<open>\<open>choose_peers\<close> returns distinct peers, all of which speak the protocol, at most as many as
  asked for, and all the speakers when there are no more of them than that.\<close>

theorem choose_peers_sound:
  assumes ok: "book_ok b" and "iter_order (peer_infos b) order"
    and law: "choose_multiple_law pick"
  shows "\<exists>ps. book_choose_peers pick order b proto n = Inr ps \<and> distinct ps \<and>
           set ps \<subseteq> speakers b proto \<and> length ps = min n (card (speakers b proto))"
proof -
  have order: "set order = dom (peer_infos b)" "distinct order"
    using assms(2) by (auto simp: iter_order_def)
  let ?all = "filter (\<lambda>k. k \<in> speakers b proto) order"
  let ?ps = "pick ?all n"
  have law': "mset ?ps \<subseteq># mset ?all" "length ?ps = min n (length ?all)"
    using law unfolding choose_multiple_law_def by blast+
  have dist: "distinct ?all" using order by simp
  have sub: "speakers b proto \<subseteq> set order" using order by (auto simp: speakers_def)
  then have "set ?all = speakers b proto" by auto
  then have "card (speakers b proto) = length ?all"
    using distinct_card [OF dist] by simp
  moreover have "distinct ?ps"
    by (rule distinct_mset_subset [OF law'(1) dist])
  moreover have "set ?ps \<subseteq> speakers b proto"
    using set_mset_mono [OF law'(1)] by auto
  ultimately show ?thesis
    using law'(2) by (simp add: book_choose_peers_def speakers_of_order [OF ok order(1)])
qed


theorem choose_peers_sound_witness:
  "\<exists>ps. book_choose_peers (\<lambda>xs n. take n xs) [PeerId 7]
          (snd (book_insert book_empty ((peer_info_of (PeerId 7) [])\<lparr>pi_protos := [''/kad'']\<rparr>))) ''/kad'' 20 = Inr ps \<and>
        distinct ps"
  using choose_peers_sound
    [OF book_insert_ok [OF book_empty_ok], of "(peer_info_of (PeerId 7) [])\<lparr>pi_protos := [''/kad'']\<rparr>" "[PeerId 7]"
        "\<lambda>xs n. take n xs" "''/kad''" 20]
  by (auto simp: choose_multiple_law_take book_empty_def iter_order_def)

definition relayed :: "(multiaddr \<Rightarrow> peer_id \<Rightarrow> multiaddr option) \<Rightarrow> (multiaddr \<rightharpoonup> peer_id) \<Rightarrow> multiaddr \<Rightarrow> multiaddr option" where
  "relayed with_p2p m a =
     (if addr_ends_with a [P2pCircuit] then Option.bind (m a) (with_p2p a) else None)"

lemma nat_peers_loop_eq:
  assumes "limits = 0 \<or> length acc < limits"
  shows "nat_peers_loop w m limits order acc =
     (let all = acc @ List.map_filter (relayed w m) order in if limits = 0 then all else take limits all)"
  using assms
proof (induction order arbitrary: acc)
  case Nil
  then show ?case by (auto simp: List.map_filter_simps)
next
  case (Cons a order)
  show ?case
  proof (cases "relayed w m a")
    case None
    then have "nat_peers_loop w m limits (a # order) acc = nat_peers_loop w m limits order acc"
      by (auto simp: relayed_def split: if_splits option.splits bind_splits)
    with Cons None show ?thesis by (simp add: List.map_filter_simps)
  next
    case (Some r)
    then have step: "nat_peers_loop w m limits (a # order) acc =
        (if length (acc @ [r]) = limits then acc @ [r] else nat_peers_loop w m limits order (acc @ [r]))"
      by (auto simp: relayed_def split: if_splits option.splits bind_splits)
    show ?thesis
    proof (cases "length (acc @ [r]) = limits")
      case True
      then show ?thesis using step Some by (auto simp: List.map_filter_simps)
    next
      case False
      then have "limits = 0 \<or> length (acc @ [r]) < limits" using Cons.prems by auto
      from Cons.IH [OF this] step False Some show ?thesis by (simp add: List.map_filter_simps)
    qed
  qed
qed

text \<open>\<open>choose_nat_peers\<close> is, in the order the index is iterated, every circuit address with the
  peer behind it appended, cut to \<open>limits\<close> of them. A limit of zero cuts nothing: it returns them all.\<close>

theorem choose_nat_peers_functional:
  "book_choose_nat_peers w order raw limits =
     Inr (let all = List.map_filter (relayed w (peer_addrs raw)) order
          in if limits = 0 then all else take limits all)"
  by (cases limits) (simp_all add: book_choose_nat_peers_def Let_def nat_peers_loop_eq)

end
