(* ===== verification/KadRouter.thy ===== *)
theory KadRouter
  imports KBucket PeerBook
begin

text \<open>
  \<open>kad/src/router.rs\<close>: the recursive routing algorithm (\<open>Recursively::route\<close>), the FIND_NODE
  algorithm that it runs, and the construction of a router from seed addresses.

  \<open>route\<close> is an asynchronous loop: it has up to \<open>concurrency\<close> calls under way and takes their
  results in the order in which they end. It is modelled as a machine whose steps are the two
  loop heads of the code and the arrival of one result; which call ends next is an argument, so
  every interleaving is a run. What a peer answers is the function \<open>alg\<close>: since every peer is
  called at most once, no generality is lost.
\<close>

section \<open>The routing context\<close>

datatype routing = Closest "peer_id list" | Finished

record recursively =
  rc_key :: kbucket_key
  closest_k :: "peer_id list"
  queried :: "peer_id set"
  candidates :: "peer_id list"
  concurrency :: nat
  const_k :: nat

text \<open>Where the loop stands, the calls under way, and (for the proofs) the peers whose answer was \<open>Ok\<close>.\<close>

datatype route_pc = PopNext | Drain | Returned "peer_id list"

record route_state = recursively +
  pending :: "peer_id list"
  pc :: route_pc
  answered :: "peer_id list"

definition recursively_new :: "kbucket_key \<Rightarrow> nat \<Rightarrow> nat \<Rightarrow> peer_id list \<Rightarrow> route_state" where
  "recursively_new key const concur seeds =
     \<lparr>rc_key = key, closest_k = [], queried = {}, candidates = seeds, concurrency = concur, const_k = const,
      pending = [], pc = PopNext, answered = []\<rparr>"

definition add_closest_k :: "(peer_id \<Rightarrow> kbucket_key) \<Rightarrow> peer_id \<Rightarrow> route_state \<Rightarrow> route_state" where
  "add_closest_k key_of peer_id s =
     (let sorted = sort_key (\<lambda>p. distance (key_of p) (rc_key s)) (closest_k s @ [peer_id])
      in s\<lparr>closest_k := if length sorted > const_k s then take (const_k s) sorted else sorted\<rparr>)"

definition is_closer :: "(peer_id \<Rightarrow> kbucket_key) \<Rightarrow> route_state \<Rightarrow> peer_id \<Rightarrow> bool" where
  "is_closer key_of s peer_id =
     (if length (closest_k s) < const_k s then True
      else if closest_k s \<noteq> []
      then distance (key_of peer_id) (rc_key s) < distance (key_of (last (closest_k s))) (rc_key s)
      else True)"

section \<open>The steps of \<open>route\<close>\<close>

text \<open>\<open>while let Some(peer_id) = self.candidates.pop_front()\<close> and the block that it guards.\<close>

definition pop_next :: "(peer_id \<Rightarrow> kbucket_key) \<Rightarrow> route_state \<Rightarrow> route_state" where
  "pop_next key_of s =
     (case candidates s of
        [] \<Rightarrow> s\<lparr>pc := Returned (closest_k s)\<rparr>
      | peer_id # rest \<Rightarrow>
          (let s = s\<lparr>candidates := rest\<rparr> in
           if peer_id \<in> queried s then s\<lparr>pc := Drain\<rparr>
           else (let s = s\<lparr>queried := insert peer_id (queried s)\<rparr> in
             if \<not> is_closer key_of s peer_id then s\<lparr>pc := Drain\<rparr>
             else s\<lparr>pending := pending s @ [peer_id], pc := Drain\<rparr>)))"

text \<open>The condition of the inner \<open>while\<close>, and its body for the result of \<open>peer_id\<close>.\<close>

definition drain_cond :: "route_state \<Rightarrow> bool" where
  "drain_cond s \<longleftrightarrow> (candidates s = [] \<and> pending s \<noteq> []) \<or> length (pending s) = concurrency s"

definition push_candidates :: "(peer_id \<Rightarrow> kbucket_key) \<Rightarrow> peer_id list \<Rightarrow> route_state \<Rightarrow> route_state" where
  "push_candidates key_of peers s =
     fold (\<lambda>peer_id s. if peer_id \<in> queried s then s
                       else if \<not> is_closer key_of s peer_id then s
                       else s\<lparr>candidates := candidates s @ [peer_id]\<rparr>) peers s"

definition on_result ::
    "(peer_id \<Rightarrow> kbucket_key) \<Rightarrow> peer_id \<Rightarrow> io_error + routing \<Rightarrow> route_state \<Rightarrow> route_state" where
  "on_result key_of peer_id result s =
     (let s = s\<lparr>pending := remove1 peer_id (pending s)\<rparr> in
      case result of
        Inr (Closest peers) \<Rightarrow>
          add_closest_k key_of peer_id ((push_candidates key_of peers s)\<lparr>answered := answered s @ [peer_id]\<rparr>)
      | Inr Finished \<Rightarrow>
          (let s = add_closest_k key_of peer_id (s\<lparr>answered := answered s @ [peer_id]\<rparr>)
           in s\<lparr>pc := Returned (closest_k s)\<rparr>)
      | Inl err \<Rightarrow> s)"

inductive route_step ::
    "(peer_id \<Rightarrow> kbucket_key) \<Rightarrow> (peer_id \<Rightarrow> io_error + routing) \<Rightarrow> route_state \<Rightarrow> route_state \<Rightarrow> bool"
  for key_of alg where
  step_pop: "pc s = PopNext \<Longrightarrow> route_step key_of alg s (pop_next key_of s)"
| step_leave: "pc s = Drain \<Longrightarrow> \<not> drain_cond s \<Longrightarrow> route_step key_of alg s (s\<lparr>pc := PopNext\<rparr>)"
| step_result: "pc s = Drain \<Longrightarrow> drain_cond s \<Longrightarrow> p \<in> set (pending s) \<Longrightarrow>
    route_step key_of alg s (on_result key_of p (alg p) s)"

inductive_cases route_stepE: "route_step key_of alg s s'"

inductive route_reachable ::
    "(peer_id \<Rightarrow> kbucket_key) \<Rightarrow> (peer_id \<Rightarrow> io_error + routing) \<Rightarrow> route_state \<Rightarrow> route_state \<Rightarrow> bool"
  for key_of alg s0 where
  route_start: "route_reachable key_of alg s0 s0"
| route_next: "route_reachable key_of alg s0 s \<Longrightarrow> route_step key_of alg s s' \<Longrightarrow> route_reachable key_of alg s0 s'"

text \<open>
  The executable run: \<open>pick\<close> chooses which of the pending calls ends next. \<open>n\<close> bounds the number
  of steps; that a large enough bound always exists is a theorem.
\<close>

definition route_once ::
    "(peer_id \<Rightarrow> kbucket_key) \<Rightarrow> (peer_id \<Rightarrow> io_error + routing) \<Rightarrow> (route_state \<Rightarrow> nat) \<Rightarrow> route_state \<Rightarrow> route_state" where
  "route_once key_of alg pick s =
     (case pc s of
        PopNext \<Rightarrow> pop_next key_of s
      | Drain \<Rightarrow>
          (if drain_cond s
           then (let p = pending s ! (pick s mod length (pending s)) in on_result key_of p (alg p) s)
           else s\<lparr>pc := PopNext\<rparr>)
      | Returned ks \<Rightarrow> s)"

fun route ::
    "(peer_id \<Rightarrow> kbucket_key) \<Rightarrow> (peer_id \<Rightarrow> io_error + routing) \<Rightarrow> (route_state \<Rightarrow> nat) \<Rightarrow> nat \<Rightarrow> route_state \<Rightarrow>
     route_state option" where
  "route key_of alg pick n s =
     (case pc s of
        Returned ks \<Rightarrow> Some s
      | _ \<Rightarrow> (case n of 0 \<Rightarrow> None | Suc m \<Rightarrow> route key_of alg pick m (route_once key_of alg pick s)))"

declare route.simps [simp del]

section \<open>The nearest so far\<close>

text \<open>Sorting stably and cutting after each arrival gives the same as sorting and cutting all of them.\<close>

abbreviation rank :: "(peer_id \<Rightarrow> kbucket_key) \<Rightarrow> kbucket_key \<Rightarrow> peer_id \<Rightarrow> kbucket_distance" where
  "rank key_of key p \<equiv> distance (key_of p) key"

definition insert_after :: "('a \<Rightarrow> 'b::linorder) \<Rightarrow> 'a \<Rightarrow> 'a list \<Rightarrow> 'a list" where
  "insert_after f x ys = takeWhile (\<lambda>y. f y \<le> f x) ys @ x # dropWhile (\<lambda>y. f y \<le> f x) ys"

lemma insert_after_simps [simp]:
  "insert_after f x [] = [x]"
  "insert_after f x (y # ys) = (if f y \<le> f x then y # insert_after f x ys else x # y # ys)"
  by (simp_all add: insert_after_def)

lemma set_insert_after [simp]: "set (insert_after f x ys) = insert x (set ys)"
  by (induction ys) auto

lemma mset_insert_after: "mset (insert_after f x ys) = add_mset x (mset ys)"
  by (induction ys) auto

lemma sorted_insert_after: "sorted (map f ys) \<Longrightarrow> sorted (map f (insert_after f x ys))"
  by (induction ys) auto

lemma filter_insert_after:
  "sorted (map f ys) \<Longrightarrow> filter (\<lambda>y. c = f y) (insert_after f x ys) = filter (\<lambda>y. c = f y) (ys @ [x])"
proof (induction ys)
  case (Cons y ys)
  show ?case
  proof (cases "f y \<le> f x")
    case True
    with Cons show ?thesis by auto
  next
    case False
    then have "f x < f z" if "z \<in> set (y # ys)" for z
      using Cons.prems that by (auto intro: less_le_trans)
    then have "filter (\<lambda>z. f x = f z) (y # ys) = []"
      by (fastforce simp: filter_empty_conv)
    with False show ?thesis by (cases "c = f x") auto
  qed
qed simp

lemma filter_sort_key: "filter (\<lambda>y. c = f y) (sort_key f xs) = filter (\<lambda>y. c = f y) xs"
  using sort_key_stable [of f c xs] by (simp add: eq_commute [of c])

lemma sort_key_snoc: "sort_key f (xs @ [x]) = insert_after f x (sort_key f xs)"
proof (rule properties_for_sort_key)
  show "mset (insert_after f x (sort_key f xs)) = mset (xs @ [x])"
    by (simp add: mset_insert_after)
  show "filter (\<lambda>y. f k = f y) (insert_after f x (sort_key f xs)) = filter (\<lambda>y. f k = f y) (xs @ [x])" for k
    by (simp add: filter_insert_after filter_sort_key)
  show "sorted (map f (insert_after f x (sort_key f xs)))"
    by (simp add: sorted_insert_after)
qed

lemma take_insert_after: "take k (insert_after f x (take k ys)) = take k (insert_after f x ys)"
proof (induction ys arbitrary: k)
  case (Cons y ys)
  then show ?case by (cases k) (auto simp: take_Cons' split: if_splits)
qed simp

lemma sort_key_idem: "sorted (map f ys) \<Longrightarrow> sort_key f ys = ys"
  by (rule properties_for_sort_key) simp_all

lemma sort_take_snoc:
  "take k (sort_key f (take k (sort_key f xs) @ [x])) = take k (sort_key f (xs @ [x]))"
  using sort_key_idem [of f "take k (sort_key f xs)"]
  by (simp add: sort_key_snoc take_insert_after flip: take_map)

lemma sorted_count_le:
  assumes "sorted (map f ys)" and "0 < k" and "k \<le> length ys"
  shows "k \<le> length (filter (\<lambda>y. f y \<le> r) ys) \<longleftrightarrow> f (ys ! (k - 1)) \<le> r"
proof
  assume last: "f (ys ! (k - 1)) \<le> r"
  have "f y \<le> r" if y: "y \<in> set (take k ys)" for y
  proof -
    from y obtain j where j: "j < k" "y = ys ! j"
      using assms(3) by (auto simp: in_set_conv_nth)
    then have "f y \<le> f (ys ! (k - 1))"
      using sorted_nth_mono [OF assms(1), of j "k - 1"] assms(2,3) by simp
    with last show ?thesis by simp
  qed
  then have "filter (\<lambda>y. f y \<le> r) (take k ys) = take k ys" by (simp add: filter_id_conv)
  then have "k = length (filter (\<lambda>y. f y \<le> r) (take k ys))" using assms(3) by simp
  also have "\<dots> \<le> length (filter (\<lambda>y. f y \<le> r) ys)"
    by (metis append_take_drop_id filter_append le_add1 length_append)
  finally show "k \<le> length (filter (\<lambda>y. f y \<le> r) ys)" .
next
  assume k: "k \<le> length (filter (\<lambda>y. f y \<le> r) ys)"
  show "f (ys ! (k - 1)) \<le> r"
  proof (rule ccontr)
    assume not: "\<not> f (ys ! (k - 1)) \<le> r"
    have "\<not> f y \<le> r" if y: "y \<in> set (drop (k - 1) ys)" for y
    proof -
      from y obtain j where "j < length (drop (k - 1) ys)" "y = drop (k - 1) ys ! j"
        by (metis in_set_conv_nth)
      then have j: "k - 1 + j < length ys" "y = ys ! (k - 1 + j)" by simp_all
      then have "f (ys ! (k - 1)) \<le> f y"
        using sorted_nth_mono [OF assms(1), of "k - 1" "k - 1 + j"] by simp
      with not show ?thesis by auto
    qed
    then have "filter (\<lambda>y. f y \<le> r) (drop (k - 1) ys) = []" by (simp add: filter_empty_conv)
    then have "filter (\<lambda>y. f y \<le> r) ys = filter (\<lambda>y. f y \<le> r) (take (k - 1) ys)"
      by (metis append_Nil2 append_take_drop_id filter_append)
    then have "length (filter (\<lambda>y. f y \<le> r) ys) \<le> k - 1"
      by (metis length_filter_le length_take min.cobounded2 min.commute order.trans)
    with k \<open>0 < k\<close> show False by simp
  qed
qed


section \<open>The invariant of a run\<close>

text \<open>
  \<open>route_inv\<close> holds between the steps: \<open>U\<close> is a set of peers closed under the answers. The
  closest peers are the nearest of those that answered, and no call is made twice.
\<close>

definition closed_answers :: "(peer_id \<Rightarrow> io_error + routing) \<Rightarrow> peer_id set \<Rightarrow> bool" where
  "closed_answers alg U \<longleftrightarrow> (\<forall>p ps. p \<in> U \<longrightarrow> alg p = Inr (Closest ps) \<longrightarrow> set ps \<subseteq> U)"

definition crowded :: "(peer_id \<Rightarrow> kbucket_key) \<Rightarrow> route_state \<Rightarrow> peer_id \<Rightarrow> bool" where
  "crowded key_of s p \<longleftrightarrow>
     const_k s \<le> length (filter (\<lambda>a. rank key_of (rc_key s) a \<le> rank key_of (rc_key s) p) (answered s))"

definition settled :: "(peer_id \<Rightarrow> kbucket_key) \<Rightarrow> (peer_id \<Rightarrow> io_error + routing) \<Rightarrow> route_state \<Rightarrow> peer_id \<Rightarrow> bool" where
  "settled key_of alg s p \<longleftrightarrow> p \<in> set (answered s) \<or> (\<exists>e. alg p = Inl e) \<or> crowded key_of s p"

definition heard :: "(peer_id \<Rightarrow> io_error + routing) \<Rightarrow> peer_id list \<Rightarrow> route_state \<Rightarrow> peer_id set" where
  "heard alg seeds s = set seeds \<union> {q. \<exists>a\<in>set (answered s). \<exists>ps. alg a = Inr (Closest ps) \<and> q \<in> set ps}"

definition route_core ::
    "(peer_id \<Rightarrow> kbucket_key) \<Rightarrow> (peer_id \<Rightarrow> io_error + routing) \<Rightarrow> peer_id set \<Rightarrow> peer_id list \<Rightarrow> route_state \<Rightarrow> bool" where
  "route_core key_of alg U seeds s \<longleftrightarrow>
     0 < concurrency s \<and> 0 < const_k s \<and>
     distinct (pending s) \<and> set (pending s) \<subseteq> queried s \<and> queried s \<subseteq> U \<and> set (candidates s) \<subseteq> U \<and>
     distinct (answered s) \<and> set (answered s) \<subseteq> queried s \<and> set (answered s) \<inter> set (pending s) = {} \<and>
     (\<forall>a\<in>set (answered s). \<exists>r. alg a = Inr r) \<and>
     closest_k s = take (const_k s) (sort_key (rank key_of (rc_key s)) (answered s)) \<and>
     (\<forall>p\<in>queried s. p \<in> set (pending s) \<or> settled key_of alg s p) \<and>
     (\<forall>p\<in>heard alg seeds s. p \<in> queried s \<or> p \<in> set (candidates s) \<or> crowded key_of s p)"

definition route_inv ::
    "(peer_id \<Rightarrow> kbucket_key) \<Rightarrow> (peer_id \<Rightarrow> io_error + routing) \<Rightarrow> peer_id set \<Rightarrow> peer_id list \<Rightarrow> route_state \<Rightarrow> bool" where
  "route_inv key_of alg U seeds s \<longleftrightarrow> route_core key_of alg U seeds s \<and>
     (case pc s of
        PopNext \<Rightarrow> length (pending s) < concurrency s \<and> (candidates s = [] \<longrightarrow> pending s = [])
      | Drain \<Rightarrow> length (pending s) \<le> concurrency s
      | Returned ks \<Rightarrow> length (pending s) \<le> concurrency s \<and> ks = closest_k s \<and>
          ((\<exists>a\<in>set (answered s). alg a = Inr Finished) \<or> (pending s = [] \<and> candidates s = [])))"

lemma route_coreD:
  assumes "route_core key_of alg U seeds s"
  shows "0 < concurrency s" "0 < const_k s" "distinct (pending s)" "set (pending s) \<subseteq> queried s"
    "queried s \<subseteq> U" "set (candidates s) \<subseteq> U" "distinct (answered s)" "set (answered s) \<subseteq> queried s"
    "set (answered s) \<inter> set (pending s) = {}"
    "\<forall>a\<in>set (answered s). \<exists>r. alg a = Inr r"
    "closest_k s = take (const_k s) (sort_key (rank key_of (rc_key s)) (answered s))"
    "\<forall>p\<in>queried s. p \<in> set (pending s) \<or> settled key_of alg s p"
    "\<forall>p\<in>heard alg seeds s. p \<in> queried s \<or> p \<in> set (candidates s) \<or> crowded key_of s p"
  using assms unfolding route_core_def by blast+

lemma length_filter_sort: "length (filter P (sort_key f xs)) = length (filter P xs)"
  by (metis mset_filter mset_sort size_mset)

text \<open>\<open>is_closer\<close> says that fewer than \<open>k\<close> of the peers that answered are at least as near.\<close>

lemma is_closer_iff:
  assumes "closest_k s = take (const_k s) (sort_key (rank key_of (rc_key s)) (answered s))" and "0 < const_k s"
  shows "is_closer key_of s p \<longleftrightarrow> \<not> crowded key_of s p"
proof (cases "length (answered s) < const_k s")
  case True
  then have "length (filter Q (answered s)) < const_k s" for Q
    using le_less_trans [OF length_filter_le] by blast
  with True show ?thesis using assms(1) by (auto simp: is_closer_def crowded_def not_le)
next
  case False
  let ?ys = "sort_key (rank key_of (rc_key s)) (answered s)"
  have len: "const_k s \<le> length ?ys" using False by simp
  then have full: "length (closest_k s) = const_k s" using assms(1) by simp
  then have ne: "closest_k s \<noteq> []" using assms(2) by auto
  have last: "last (closest_k s) = ?ys ! (const_k s - 1)"
    using ne full len assms(2) by (simp add: last_conv_nth) (simp add: assms(1))
  have "const_k s \<le> length (filter (\<lambda>y. rank key_of (rc_key s) y \<le> rank key_of (rc_key s) p) ?ys) \<longleftrightarrow>
      rank key_of (rc_key s) (?ys ! (const_k s - 1)) \<le> rank key_of (rc_key s) p"
    by (rule sorted_count_le) (use False assms in simp_all)
  then show ?thesis
    using ne full by (simp add: is_closer_def crowded_def last length_filter_sort not_le)
qed

lemma crowded_mono:
  "crowded key_of s p \<Longrightarrow> const_k s' = const_k s \<Longrightarrow> rc_key s' = rc_key s \<Longrightarrow> answered s' = answered s @ xs \<Longrightarrow>
     crowded key_of s' p"
  by (simp add: crowded_def)

lemma crowded_cong:
  "const_k s' = const_k s \<Longrightarrow> rc_key s' = rc_key s \<Longrightarrow> answered s' = answered s \<Longrightarrow>
     crowded key_of s' p = crowded key_of s p"
  by (simp add: crowded_def)


lemma is_closer_candidates [simp]: "is_closer key_of (s\<lparr>candidates := cs\<rparr>) p = is_closer key_of s p"
  by (simp add: is_closer_def)

lemma push_candidates_eq:
  "push_candidates key_of peers s =
     s\<lparr>candidates := candidates s @ filter (\<lambda>p. p \<notin> queried s \<and> is_closer key_of s p) peers\<rparr>"
  by (induction peers arbitrary: s) (auto simp: push_candidates_def)

lemma add_closest_k_eq:
  "add_closest_k key_of p s =
     s\<lparr>closest_k := take (const_k s) (sort_key (rank key_of (rc_key s)) (closest_k s @ [p]))\<rparr>"
  by (simp add: add_closest_k_def Let_def)

lemma crowded_of_not_closer:
  "route_core key_of alg U seeds s \<Longrightarrow> \<not> is_closer key_of s p \<Longrightarrow> crowded key_of s p"
  using is_closer_iff [OF route_coreD(11) route_coreD(2)] by blast

lemma settled_of_crowded: "crowded key_of s p \<Longrightarrow> settled key_of alg s p"
  by (simp add: settled_def)

lemma crowded_upd [simp]:
  "crowded key_of (s\<lparr>candidates := cs\<rparr>) p = crowded key_of s p"
  "crowded key_of (s\<lparr>queried := qs\<rparr>) p = crowded key_of s p"
  "crowded key_of (s\<lparr>pending := ps\<rparr>) p = crowded key_of s p"
  "crowded key_of (s\<lparr>pc := c\<rparr>) p = crowded key_of s p"
  by (simp_all add: crowded_def)

lemma settled_upd [simp]:
  "settled key_of alg (s\<lparr>candidates := cs\<rparr>) p = settled key_of alg s p"
  "settled key_of alg (s\<lparr>queried := qs\<rparr>) p = settled key_of alg s p"
  "settled key_of alg (s\<lparr>pending := ps\<rparr>) p = settled key_of alg s p"
  "settled key_of alg (s\<lparr>pc := c\<rparr>) p = settled key_of alg s p"
  by (simp_all add: settled_def)

lemma heard_upd [simp]:
  "heard alg seeds (s\<lparr>candidates := cs\<rparr>) = heard alg seeds s"
  "heard alg seeds (s\<lparr>queried := qs\<rparr>) = heard alg seeds s"
  "heard alg seeds (s\<lparr>pending := ps\<rparr>) = heard alg seeds s"
  "heard alg seeds (s\<lparr>pc := c\<rparr>) = heard alg seeds s"
  by (simp_all add: heard_def)

text \<open>A queried peer that goes nowhere, or goes to the pending calls.\<close>

lemma route_core_pop:
  assumes core: "route_core key_of alg U seeds s" and cs: "candidates s = p # rest" and pc: "length (pending s) < concurrency s"
  shows "route_inv key_of alg U seeds (pop_next key_of s)"
proof -
  note D = route_coreD [OF core]
  show ?thesis
  proof (cases "p \<in> queried s")
    case True
    then have "pop_next key_of s = s\<lparr>candidates := rest, pc := Drain\<rparr>" by (simp add: pop_next_def cs)
    then show ?thesis
      using D True pc
      by (auto simp: route_inv_def route_core_def cs settled_of_crowded)
  next
    case False
    let ?s = "s\<lparr>candidates := rest, queried := insert p (queried s)\<rparr>"
    have U: "p \<in> U" "set rest \<subseteq> U" using D(6) cs by auto
    have closer: "is_closer key_of ?s p = is_closer key_of s p" by (simp add: is_closer_def)
    have pa: "p \<notin> set (answered s)" "p \<notin> set (pending s)" using False D(4,8) by auto
    show ?thesis
    proof (cases "is_closer key_of s p")
      case True
      then have "pop_next key_of s = ?s\<lparr>pending := pending s @ [p], pc := Drain\<rparr>"
        using False closer by (simp add: pop_next_def cs)
      then show ?thesis
        using D False pc U pa
        by (auto simp: route_inv_def route_core_def cs settled_of_crowded)
    next
      case nc: False
      then have eq: "pop_next key_of s = ?s\<lparr>pc := Drain\<rparr>"
        using False closer by (simp add: pop_next_def cs)
      have "crowded key_of s p" by (rule crowded_of_not_closer [OF core nc])
      then show ?thesis
        unfolding eq using D False pc U pa
        by (auto simp: route_inv_def route_core_def cs settled_of_crowded)
    qed
  qed
qed

lemma route_inv_pop:
  assumes inv: "route_inv key_of alg U seeds s" and pc: "pc s = PopNext"
  shows "route_inv key_of alg U seeds (pop_next key_of s)"
proof (cases "candidates s")
  case Nil
  with inv pc have core: "route_core key_of alg U seeds s" and "pending s = []"
    by (auto simp: route_inv_def)
  then show ?thesis
    using Nil by (auto simp: pop_next_def route_inv_def route_core_def)
next
  case (Cons p rest)
  with inv pc show ?thesis by (intro route_core_pop) (auto simp: route_inv_def)
qed

lemma route_inv_leave:
  assumes inv: "route_inv key_of alg U seeds s" and pc: "pc s = Drain" and d: "\<not> drain_cond s"
  shows "route_inv key_of alg U seeds (s\<lparr>pc := PopNext\<rparr>)"
proof -
  from inv pc have core: "route_core key_of alg U seeds s" and "length (pending s) \<le> concurrency s"
    by (auto simp: route_inv_def)
  moreover from d have "length (pending s) \<noteq> concurrency s" "candidates s = [] \<longrightarrow> pending s = []"
    by (auto simp: drain_cond_def)
  moreover have "route_core key_of alg U seeds (s\<lparr>pc := PopNext\<rparr>)"
    using core by (simp add: route_core_def)
  ultimately show ?thesis by (simp add: route_inv_def)
qed

text \<open>An answer: the peer moves from the pending calls to those that answered.\<close>

lemma route_core_answer:
  assumes core: "route_core key_of alg U seeds s" and p: "p \<in> set (pending s)" and r: "alg p = Inr r"
    and cs: "set cs \<subseteq> U"
    and new: "\<forall>ps q. r = Closest ps \<longrightarrow> q \<in> set ps \<longrightarrow> q \<in> queried s \<or> q \<in> set cs \<or> crowded key_of s q"
    and keep: "set (candidates s) \<subseteq> set cs"
  shows "route_core key_of alg U seeds (add_closest_k key_of p
           (s\<lparr>pending := remove1 p (pending s), candidates := cs, answered := answered s @ [p]\<rparr>))"
proof -
  note D = route_coreD [OF core]
  let ?s = "add_closest_k key_of p
           (s\<lparr>pending := remove1 p (pending s), candidates := cs, answered := answered s @ [p]\<rparr>)"
  have f: "concurrency ?s = concurrency s" "const_k ?s = const_k s" "rc_key ?s = rc_key s" "queried ?s = queried s"
    "candidates ?s = cs" "pending ?s = remove1 p (pending s)" "answered ?s = answered s @ [p]"
    "closest_k ?s = take (const_k s) (sort_key (rank key_of (rc_key s)) (closest_k s @ [p]))"
    by (simp_all add: add_closest_k_eq)
  have pend: "set (remove1 p (pending s)) = set (pending s) - {p}" "distinct (remove1 p (pending s))"
    using D(3) by simp_all
  have pq: "p \<in> queried s" "p \<notin> set (answered s)" using p D(4,9) by auto
  have near: "closest_k ?s = take (const_k s) (sort_key (rank key_of (rc_key s)) (answered ?s))"
    unfolding f D(11) by (rule sort_take_snoc)
  have settle: "settled key_of alg ?s q" if "settled key_of alg s q \<or> q = p" for q
    using that crowded_mono [of key_of s q ?s "[p]"] f by (auto simp: settled_def)
  have q: "\<forall>q\<in>queried s. q \<in> set (pending s) - {p} \<or> settled key_of alg ?s q"
    using D(12) settle by blast
  have hd: "heard alg seeds ?s = heard alg seeds s \<union> {q. \<exists>ps. r = Closest ps \<and> q \<in> set ps}"
    using r by (auto simp: heard_def f)
  have cr: "crowded key_of ?s q" if "crowded key_of s q" for q
    using that crowded_mono [of key_of s q ?s "[p]"] f by blast
  have h: "\<forall>q\<in>heard alg seeds ?s. q \<in> queried s \<or> q \<in> set cs \<or> crowded key_of ?s q"
    unfolding hd using D(13) new keep cr by blast
  show ?thesis
    unfolding route_core_def near f
    using D(1-10) pend pq r cs q h p unfolding f by (auto simp: subset_iff)
qed


lemma add_closest_k_simps [simp]:
  "pending (add_closest_k key_of p s) = pending s" "candidates (add_closest_k key_of p s) = candidates s"
  "queried (add_closest_k key_of p s) = queried s" "concurrency (add_closest_k key_of p s) = concurrency s"
  "const_k (add_closest_k key_of p s) = const_k s" "rc_key (add_closest_k key_of p s) = rc_key s"
  "answered (add_closest_k key_of p s) = answered s" "pc (add_closest_k key_of p s) = pc s"
  by (simp_all add: add_closest_k_eq)

lemma route_core_pc [simp]: "route_core key_of alg U seeds (s\<lparr>pc := c\<rparr>) = route_core key_of alg U seeds s"
  by (simp add: route_core_def)

lemma on_result_Closest:
  "on_result key_of p (Inr (Closest ps)) s =
     add_closest_k key_of p
       (s\<lparr>pending := remove1 p (pending s),
          candidates := candidates s @ filter (\<lambda>q. q \<notin> queried s \<and> is_closer key_of s q) ps,
          answered := answered s @ [p]\<rparr>)"
  by (simp add: on_result_def push_candidates_eq is_closer_def)

lemma on_result_Finished:
  "on_result key_of p (Inr Finished) s =
     (let s' = add_closest_k key_of p
           (s\<lparr>pending := remove1 p (pending s), candidates := candidates s, answered := answered s @ [p]\<rparr>)
      in s'\<lparr>pc := Returned (closest_k s')\<rparr>)"
  by (simp add: on_result_def Let_def)

lemma on_result_Err: "on_result key_of p (Inl e) s = s\<lparr>pending := remove1 p (pending s)\<rparr>"
  by (simp add: on_result_def)

lemma route_inv_result:
  assumes inv: "route_inv key_of alg U seeds s" and pc: "pc s = Drain" and p: "p \<in> set (pending s)"
    and closed: "closed_answers alg U"
  shows "route_inv key_of alg U seeds (on_result key_of p (alg p) s)"
proof -
  from inv pc have core: "route_core key_of alg U seeds s" and len: "length (pending s) \<le> concurrency s"
    by (auto simp: route_inv_def)
  note D = route_coreD [OF core]
  have pU: "p \<in> U" using p D(4,5) by blast
  have len': "length (remove1 p (pending s)) \<le> concurrency s"
    using len p by (simp add: length_remove1)
  show ?thesis
  proof (cases "alg p")
    case (Inl e)
    have "set (remove1 p (pending s)) = set (pending s) - {p}" using D(3) by simp
    moreover have "settled key_of alg s p" using Inl by (simp add: settled_def)
    ultimately have "route_core key_of alg U seeds (s\<lparr>pending := remove1 p (pending s)\<rparr>)"
      using D by (auto simp: route_core_def)
    then show ?thesis using Inl len' pc by (simp add: on_result_Err route_inv_def)
  next
    case (Inr r)
    show ?thesis
    proof (cases r)
      case (Closest ps)
      let ?cs = "candidates s @ filter (\<lambda>q. q \<notin> queried s \<and> is_closer key_of s q) ps"
      have "set ps \<subseteq> U" using closed pU Inr Closest unfolding closed_answers_def by blast
      then have "set ?cs \<subseteq> U" using D(6) by auto
      moreover have "\<forall>ps q. r = Closest ps \<longrightarrow> q \<in> set ps \<longrightarrow> q \<in> queried s \<or> q \<in> set ?cs \<or> crowded key_of s q"
        using Closest crowded_of_not_closer [OF core] by auto
      ultimately have "route_core key_of alg U seeds (on_result key_of p (Inr (Closest ps)) s)"
        unfolding on_result_Closest by (intro route_core_answer [OF core p Inr]) auto
      then show ?thesis using Inr Closest len' pc by (simp add: route_inv_def on_result_Closest)
    next
      case Finished
      let ?s = "add_closest_k key_of p
           (s\<lparr>pending := remove1 p (pending s), candidates := candidates s, answered := answered s @ [p]\<rparr>)"
      have "route_core key_of alg U seeds ?s"
        by (rule route_core_answer [OF core p Inr]) (use D(6) Finished in auto)
      then show ?thesis
        using Inr Finished len' by (simp add: route_inv_def on_result_Finished Let_def)
    qed
  qed
qed

lemma route_inv_step:
  assumes "route_inv key_of alg U seeds s" and "route_step key_of alg s s'" and "closed_answers alg U"
  shows "route_inv key_of alg U seeds s'"
  using assms(2)
  by (cases rule: route_stepE)
    (use assms route_inv_pop route_inv_leave route_inv_result in auto)

lemma route_inv_start:
  assumes "0 < const" and "0 < concur" and "set seeds \<subseteq> U"
  shows "route_inv key_of alg U seeds (recursively_new key const concur seeds)"
  using assms by (simp add: route_inv_def route_core_def recursively_new_def heard_def)

lemma route_inv_reachable:
  assumes "route_reachable key_of alg (recursively_new key const concur seeds) s"
    and "0 < const" and "0 < concur" and "set seeds \<subseteq> U" and "closed_answers alg U"
  shows "route_inv key_of alg U seeds s"
  using assms(1)
proof induction
  case route_start
  show ?case by (rule route_inv_start [OF assms(2-4)])
next
  case (route_next s s')
  then show ?case using route_inv_step assms(5) by blast
qed

text \<open>The parameters of the search do not change.\<close>

lemma route_step_const:
  "route_step key_of alg s s' \<Longrightarrow> rc_key s' = rc_key s \<and> const_k s' = const_k s \<and> concurrency s' = concurrency s"
  by (erule route_stepE)
    (auto simp: pop_next_def on_result_def push_candidates_eq Let_def split: list.splits sum.splits routing.splits)

lemma route_reachable_const:
  "route_reachable key_of alg s0 s \<Longrightarrow>
     rc_key s = rc_key s0 \<and> const_k s = const_k s0 \<and> concurrency s = concurrency s0"
  by (induction rule: route_reachable.induct) (auto dest: route_step_const)

section \<open>Runs end\<close>

text \<open>
  Every step lowers, lexicographically: the peers of \<open>U\<close> not yet queried, the calls under way,
  the candidates, and the place in the loop.
\<close>

definition route_measure :: "peer_id set \<Rightarrow> route_state \<Rightarrow> nat \<times> nat \<times> nat \<times> nat" where
  "route_measure U s =
     (card (U - queried s), length (pending s), length (candidates s),
      case pc s of Drain \<Rightarrow> 2 | PopNext \<Rightarrow> 1 | Returned _ \<Rightarrow> 0)"

abbreviation route_order :: "((nat \<times> nat \<times> nat \<times> nat) \<times> (nat \<times> nat \<times> nat \<times> nat)) set" where
  "route_order \<equiv> less_than <*lex*> less_than <*lex*> less_than <*lex*> less_than"

lemma route_step_decreases:
  assumes inv: "route_inv key_of alg U seeds s" and fin: "finite U" and step: "route_step key_of alg s s'"
  shows "(route_measure U s', route_measure U s) \<in> route_order"
  using step
proof cases
  case step_pop
  show ?thesis
  proof (cases "candidates s")
    case Nil
    then show ?thesis using step_pop by (simp add: route_measure_def pop_next_def)
  next
    case (Cons p rest)
    then have "p \<in> U" using inv by (auto simp: route_inv_def route_core_def)
    show ?thesis
    proof (cases "p \<in> queried s")
      case True
      then show ?thesis using step_pop Cons by (simp add: route_measure_def pop_next_def)
    next
      case False
      with \<open>p \<in> U\<close> fin have "card (U - insert p (queried s)) < card (U - queried s)"
        by (intro psubset_card_mono) auto
      then show ?thesis using step_pop Cons False by (auto simp: route_measure_def pop_next_def Let_def)
    qed
  qed
next
  case step_leave
  then show ?thesis by (simp add: route_measure_def)
next
  case (step_result p)
  then have "length (remove1 p (pending s)) < length (pending s)"
    using length_pos_if_in_set [of p "pending s"] by (simp add: length_remove1)
  moreover have "queried s' = queried s" "pending s' = remove1 p (pending s)"
    using step_result by (auto simp: on_result_def push_candidates_eq Let_def split: sum.splits routing.splits)
  ultimately show ?thesis by (simp add: route_measure_def)
qed

lemma route_once_step:
  assumes inv: "route_inv key_of alg U seeds s" and pc: "\<forall>ks. pc s \<noteq> Returned ks"
  shows "route_step key_of alg s (route_once key_of alg pick s)"
proof (cases "pc s")
  case PopNext
  then show ?thesis by (simp add: route_once_def step_pop)
next
  case Drain
  show ?thesis
  proof (cases "drain_cond s")
    case True
    have "0 < concurrency s" using inv by (simp add: route_inv_def route_core_def)
    then have "pending s \<noteq> []" using True by (auto simp: drain_cond_def)
    then have "pending s ! (pick s mod length (pending s)) \<in> set (pending s)" by simp
    then show ?thesis using Drain True by (simp add: route_once_def Let_def step_result)
  next
    case False
    then show ?thesis using Drain by (simp add: route_once_def step_leave)
  qed
qed (use pc in auto)

lemma wf_route_order: "wf route_order"
  by (intro wf_lex_prod wf_less_than)

lemma route_ends:
  assumes fin: "finite U" and closed: "closed_answers alg U" and inv: "route_inv key_of alg U seeds s"
  shows "\<exists>n s' ks. route key_of alg pick n s = Some s' \<and> pc s' = Returned ks"
  using inv
proof (induction "route_measure U s" arbitrary: s rule: wf_induct_rule [OF wf_route_order])
  case 1
  show ?case
  proof (cases "\<exists>ks. pc s = Returned ks")
    case True
    then show ?thesis by (auto simp: route.simps)
  next
    case False
    let ?s = "route_once key_of alg pick s"
    have step: "route_step key_of alg s ?s" using route_once_step [OF "1.prems"] False by blast
    have "route_inv key_of alg U seeds ?s" by (rule route_inv_step [OF "1.prems" step closed])
    from "1.hyps" [OF route_step_decreases [OF "1.prems" fin step] this]
    obtain n s' ks where "route key_of alg pick n ?s = Some s'" "pc s' = Returned ks" by blast
    moreover have "route key_of alg pick (Suc n) s = route key_of alg pick n ?s"
      using False by (cases "pc s") (simp_all add: route.simps [of _ _ _ _ s])
    ultimately show ?thesis by metis
  qed
qed

lemma route_more_fuel: "route key_of alg pick n s = Some s' \<Longrightarrow> n \<le> m \<Longrightarrow> route key_of alg pick m s = Some s'"
proof (induction n arbitrary: m s)
  case 0
  then show ?case by (auto simp: route.simps split: route_pc.splits)
next
  case (Suc n)
  then show ?case by (cases m) (auto simp: route.simps [of _ _ _ _ s] split: route_pc.splits)
qed

lemma route_reaches:
  assumes "route key_of alg pick n s = Some s'" and "route_inv key_of alg U seeds s" and "closed_answers alg U"
    and "route_reachable key_of alg s0 s"
  shows "route_reachable key_of alg s0 s' \<and> (\<exists>ks. pc s' = Returned ks)"
  using assms
proof (induction n arbitrary: s)
  case 0
  then show ?case by (auto simp: route.simps split: route_pc.splits)
next
  case (Suc n)
  show ?case
  proof (cases "\<exists>ks. pc s = Returned ks")
    case True
    then show ?thesis using Suc.prems by (auto simp: route.simps)
  next
    case False
    have step: "route_step key_of alg s (route_once key_of alg pick s)"
      using route_once_step [OF Suc.prems(2)] False by blast
    have "route key_of alg pick n (route_once key_of alg pick s) = Some s'"
      using Suc.prems(1) False by (cases "pc s") (simp_all add: route.simps [of _ _ _ _ s])
    then show ?thesis
      by (rule Suc.IH)
        (use Suc.prems(2-4) step in \<open>auto intro: route_inv_step route_next\<close>)
  qed
qed


section \<open>Properties of recursive routing\<close>

lemma route_from_start:
  assumes "route key_of alg pick n (recursively_new key const concur seeds) = Some s"
    and "0 < const" and "0 < concur" and "set seeds \<subseteq> U" and "closed_answers alg U"
  shows "route_inv key_of alg U seeds s" and "\<exists>ks. pc s = Returned ks"
    and "rc_key s = key" and "const_k s = const"
proof -
  let ?s0 = "recursively_new key const concur seeds"
  have r: "route_reachable key_of alg ?s0 s \<and> (\<exists>ks. pc s = Returned ks)"
    by (rule route_reaches [OF assms(1) route_inv_start [OF assms(2-4)] assms(5) route_start])
  then show "\<exists>ks. pc s = Returned ks" by blast
  show "route_inv key_of alg U seeds s"
    using r route_inv_reachable [OF _ assms(2-5)] by blast
  show "rc_key s = key" "const_k s = const"
    using r route_reachable_const by (fastforce simp: recursively_new_def)+
qed

text \<open>C18: Routing returns. When the peers that answers mention are finitely many, the loop reaches a
  \<open>return\<close> whatever the peers answer, whichever call ends first, and for every concurrency and
  replication parameter the \<open>NonZeroUsize\<close> types admit.\<close>

theorem route_returns:
  assumes "0 < const" and "0 < concur" and "finite U" and "set seeds \<subseteq> U" and "closed_answers alg U"
  shows "\<exists>n s ks. route key_of alg pick n (recursively_new key const concur seeds) = Some s \<and> pc s = Returned ks"
  using route_ends [OF assms(3,5) route_inv_start [OF assms(1,2,4)]] .

definition sample_alg :: "peer_id \<Rightarrow> io_error + routing" where
  "sample_alg p =
     (if p = PeerId 1 then Inr (Closest [PeerId 2, PeerId 1, PeerId 3])
      else if p = PeerId 2 then Inl (OsError ''timeout'') else Inr (Closest []))"

lemma sample_alg_closed: "closed_answers sample_alg {PeerId 1, PeerId 2, PeerId 3}"
  by (auto simp: closed_answers_def sample_alg_def split: if_splits)

theorem route_returns_witness:
  "\<exists>n s ks. route plain_key sample_alg (\<lambda>_. 5) n (recursively_new (KBucketKey 0) 20 3 [PeerId 1]) = Some s \<and>
     pc s = Returned ks"
  by (rule route_returns [OF _ _ _ _ sample_alg_closed]) simp_all

text \<open>C8: What routing returns is exactly the \<open>const_k\<close> nearest, by distance to the key, of the distinct
  peers that answered, nearest first (peers at the same distance in the order of their answers).
  A peer whose call failed is not among them.\<close>

theorem route_result_nearest:
  assumes "0 < const" and "0 < concur"
    and "route key_of alg pick n (recursively_new key const concur seeds) = Some s"
  shows "pc s = Returned (take const (sort_key (\<lambda>p. distance (key_of p) key) (answered s))) \<and>
     distinct (answered s) \<and> (\<forall>p\<in>set (answered s). \<exists>r. alg p = Inr r)"
proof -
  have *: "closed_answers alg UNIV" "set seeds \<subseteq> UNIV" by (simp_all add: closed_answers_def)
  note S = route_from_start [OF assms(3,1,2) *(2,1)]
  obtain ks where ks: "pc s = Returned ks" using S(2) by blast
  have "route_core key_of alg UNIV seeds s" and "ks = closest_k s"
    using S(1) ks by (auto simp: route_inv_def)
  then show ?thesis using ks S(3,4) route_coreD(7,10,11) [of key_of alg UNIV seeds s] by simp
qed

text \<open>C7: Convergence. When no peer answered that the search is finished, then at the return no call is
  left under way, and every peer heard of, as a seed or from an answer, has itself answered, or
  its call failed, or at least \<open>const_k\<close> of the peers that answered are as near to the key as it is.\<close>

theorem route_converges:
  assumes "0 < const" and "0 < concur"
    and "route key_of alg pick n (recursively_new key const concur seeds) = Some s"
    and "\<forall>p\<in>set (answered s). alg p \<noteq> Inr Finished"
    and "q \<in> set seeds \<or> (\<exists>a\<in>set (answered s). \<exists>ps. alg a = Inr (Closest ps) \<and> q \<in> set ps)"
  shows "pending s = [] \<and>
     (q \<in> set (answered s) \<or> (\<exists>e. alg q = Inl e) \<or>
      const \<le> length (filter (\<lambda>a. distance (key_of a) key \<le> distance (key_of q) key) (answered s)))"
proof -
  have *: "closed_answers alg UNIV" "set seeds \<subseteq> UNIV" by (simp_all add: closed_answers_def)
  note S = route_from_start [OF assms(3,1,2) *(2,1)]
  obtain ks where ks: "pc s = Returned ks" using S(2) by blast
  have core: "route_core key_of alg UNIV seeds s" and none: "pending s = []" "candidates s = []"
    using S(1) ks assms(4) by (auto simp: route_inv_def)
  have "q \<in> heard alg seeds s" using assms(5) by (auto simp: heard_def)
  with none route_coreD(13) [OF core] have "q \<in> queried s \<or> crowded key_of s q" by auto
  then have "settled key_of alg s q"
    using route_coreD(12) [OF core] none settled_of_crowded by auto
  then show ?thesis using none S(3,4) by (auto simp: settled_def crowded_def)
qed

text \<open>
  A run together with the calls that ended in it, in the order of their results, whether they
  answered or failed: every call that was ever made is in this list or is still under way.
\<close>

inductive route_calls ::
    "(peer_id \<Rightarrow> kbucket_key) \<Rightarrow> (peer_id \<Rightarrow> io_error + routing) \<Rightarrow> route_state \<Rightarrow> peer_id list \<Rightarrow> route_state \<Rightarrow> bool"
  for key_of alg s0 where
  calls_start: "route_calls key_of alg s0 [] s0"
| calls_pop: "route_calls key_of alg s0 ended s \<Longrightarrow> pc s = PopNext \<Longrightarrow> route_calls key_of alg s0 ended (pop_next key_of s)"
| calls_leave: "route_calls key_of alg s0 ended s \<Longrightarrow> pc s = Drain \<Longrightarrow> \<not> drain_cond s \<Longrightarrow>
    route_calls key_of alg s0 ended (s\<lparr>pc := PopNext\<rparr>)"
| calls_result: "route_calls key_of alg s0 ended s \<Longrightarrow> pc s = Drain \<Longrightarrow> drain_cond s \<Longrightarrow> p \<in> set (pending s) \<Longrightarrow>
    route_calls key_of alg s0 (ended @ [p]) (on_result key_of p (alg p) s)"

lemma route_calls_reachable: "route_calls key_of alg s0 ended s \<Longrightarrow> route_reachable key_of alg s0 s"
  by (induction rule: route_calls.induct) (auto intro: route_reachable.intros route_step.intros)

lemma route_reachable_calls: "route_reachable key_of alg s0 s \<Longrightarrow> \<exists>ended. route_calls key_of alg s0 ended s"
proof (induction rule: route_reachable.induct)
  case route_start
  show ?case using calls_start by blast
next
  case (route_next s s')
  then obtain ended where "route_calls key_of alg s0 ended s" by blast
  from route_next.hyps(2) this show ?case
    by (cases rule: route_stepE) (blast intro: route_calls.intros)+
qed

definition calls_inv :: "(peer_id \<Rightarrow> io_error + routing) \<Rightarrow> peer_id list \<Rightarrow> route_state \<Rightarrow> bool" where
  "calls_inv alg ended s \<longleftrightarrow>
     distinct (ended @ pending s) \<and> set ended \<union> set (pending s) \<subseteq> queried s \<and>
     answered s = filter (\<lambda>p. \<exists>r. alg p = Inr r) ended"

lemma calls_inv_pop: "calls_inv alg ended s \<Longrightarrow> calls_inv alg ended (pop_next key_of s)"
  unfolding calls_inv_def pop_next_def by (auto simp: Let_def split: list.split)

lemma calls_inv_result:
  assumes "calls_inv alg ended s" and "p \<in> set (pending s)"
  shows "calls_inv alg (ended @ [p]) (on_result key_of p (alg p) s)"
proof -
  let ?s = "on_result key_of p (alg p) s"
  have "pending ?s = remove1 p (pending s)" "queried ?s = queried s"
    "answered ?s = answered s @ (if \<exists>r. alg p = Inr r then [p] else [])"
    by (auto simp: on_result_def push_candidates_eq Let_def split: sum.splits routing.splits)
  with assms show ?thesis
    by (auto simp: calls_inv_def distinct_remove1 dest: notin_set_remove1)
qed

lemma route_calls_inv:
  assumes "route_calls key_of alg (recursively_new key const concur seeds) ended s"
  shows "calls_inv alg ended s"
  using assms
proof (induction rule: route_calls.induct)
  case calls_start
  show ?case by (simp add: calls_inv_def recursively_new_def)
next
  case (calls_leave ended s)
  then show ?case by (simp add: calls_inv_def)
qed (simp_all add: calls_inv_pop calls_inv_result)

text \<open>C28: In every reachable state of a search at most \<open>concurrency\<close> calls are under way, and no peer
  is ever called twice: the peers whose call ended, with an answer or with an error, and the
  peers whose call is under way are all distinct. The peers that answered are those of the ended calls whose
  result was \<open>Ok\<close>, in the order of the results, and the list of closest peers never exceeds \<open>const_k\<close>.\<close>

theorem route_bounded:
  assumes "0 < const" and "0 < concur"
    and "route_calls key_of alg (recursively_new key const concur seeds) ended s"
  shows "length (pending s) \<le> concur \<and> distinct (ended @ pending s) \<and>
    answered s = filter (\<lambda>p. \<exists>r. alg p = Inr r) ended \<and> length (closest_k s) \<le> const"
proof -
  have *: "set seeds \<subseteq> UNIV" "closed_answers alg UNIV" by (simp_all add: closed_answers_def)
  note reach = route_calls_reachable [OF assms(3)]
  have inv: "route_inv key_of alg UNIV seeds s" by (rule route_inv_reachable [OF reach assms(1,2) *])
  then have core: "route_core key_of alg UNIV seeds s" and "length (pending s) \<le> concurrency s"
    by (auto simp: route_inv_def split: route_pc.splits)
  moreover have "const_k s = const" "concurrency s = concur"
    using route_reachable_const [OF reach] by (simp_all add: recursively_new_def)
  ultimately show ?thesis
    using route_coreD(11) [OF core] route_calls_inv [OF assms(3)] by (simp add: calls_inv_def)
qed

text \<open>Peer 1 names peers 2 and 3; the call to 2 fails.\<close>

definition sample_end :: route_state where
  "sample_end = \<lparr>rc_key = KBucketKey 0, closest_k = [PeerId 1, PeerId 3],
     queried = {PeerId 3, PeerId 2, PeerId 1}, candidates = [], concurrency = 2, const_k = 20,
     pending = [], pc = Returned [PeerId 1, PeerId 3], answered = [PeerId 1, PeerId 3]\<rparr>"

lemma sample_run:
  "route plain_key sample_alg (\<lambda>_. 0) 20 (recursively_new (KBucketKey 0) 20 2 [PeerId 1]) = Some sample_end"
  by code_simp

theorem route_result_nearest_witness:
  "pc sample_end = Returned (take 20 (sort_key (\<lambda>p. distance (plain_key p) (KBucketKey 0)) (answered sample_end))) \<and>
     distinct (answered sample_end)"
  using route_result_nearest [OF _ _ sample_run] by simp

theorem route_converges_witness:
  "pending sample_end = [] \<and>
     (PeerId 3 \<in> set (answered sample_end) \<or> (\<exists>e. sample_alg (PeerId 3) = Inl e) \<or>
      20 \<le> length (filter (\<lambda>a. distance (plain_key a) (KBucketKey 0) \<le> distance (plain_key (PeerId 3)) (KBucketKey 0))
        (answered sample_end)))"
  using route_converges [OF _ _ sample_run, of "PeerId 3"] by (simp add: sample_end_def sample_alg_def)

text \<open>One seed, whose call fails: it has ended, and the peer is not called again when it is named again.\<close>

theorem route_bounded_witness:
  "let s0 = recursively_new (KBucketKey 0) 20 1 [PeerId 2, PeerId 2];
       s = pop_next plain_key ((on_result plain_key (PeerId 2) (sample_alg (PeerId 2)) (pop_next plain_key s0))\<lparr>pc := PopNext\<rparr>)
   in pending s = [] \<and> distinct ([PeerId 2] @ pending s) \<and> answered s = []"
proof -
  let ?s0 = "recursively_new (KBucketKey 0) 20 (Suc 0) [PeerId 2, PeerId 2]"
  let ?s1 = "pop_next plain_key ?s0"
  let ?s2 = "on_result plain_key (PeerId 2) (sample_alg (PeerId 2)) ?s1"
  let ?e = "pop_next plain_key (?s2\<lparr>pc := PopNext\<rparr>)"
  have s1: "?s1 = ?s0\<lparr>candidates := [PeerId 2], queried := {PeerId 2}, pending := [PeerId 2], pc := Drain\<rparr>"
    by (simp add: pop_next_def recursively_new_def is_closer_def)
  have s2: "?s2 = ?s1\<lparr>pending := []\<rparr>" unfolding s1 by (simp add: on_result_def sample_alg_def recursively_new_def)
  have 1: "route_calls plain_key sample_alg ?s0 [] ?s1"
    by (rule calls_pop [OF calls_start]) (simp add: recursively_new_def)
  have 2: "route_calls plain_key sample_alg ?s0 ([] @ [PeerId 2]) ?s2"
    by (rule calls_result [OF 1], unfold s1) (simp_all add: drain_cond_def recursively_new_def)
  have 3: "route_calls plain_key sample_alg ?s0 ([] @ [PeerId 2]) (?s2\<lparr>pc := PopNext\<rparr>)"
    by (rule calls_leave [OF 2], unfold s2, unfold s1) (simp_all add: drain_cond_def recursively_new_def)
  have 4: "route_calls plain_key sample_alg ?s0 [PeerId 2] ?e" using calls_pop [OF 3] by simp
  have "pending ?e = []" unfolding s2 unfolding s1 by (simp add: pop_next_def recursively_new_def)
  then show ?thesis using route_bounded [OF _ _ 4] by (simp add: Let_def sample_alg_def)
qed

end
