(* ===== verification/Rpc.thy ===== *)
theory Rpc
  imports Net_Types
begin

text \<open>
  \<open>xstack/src/rpc.rs\<close> and the ping handler of \<open>switch/protocols.rs\<close>: length-prefixed protobuf
  messages over a stream, and the ping protocol.

  A stream is what the peer will have sent until it stops, the error that a read past that end
  gives, what was written so far, and how many bytes can still be written before a write fails.
  The varint and protobuf packages are parameters: \<open>enc\<close> and \<open>dec\<close> for the length prefix, \<open>wr\<close>
  and \<open>parse\<close> for one message type.
\<close>

section \<open>Streams\<close>

record stream =
  st_in :: bytes
  st_eof :: io_error
  st_out :: bytes
  st_room :: "nat option"
  st_broken :: io_error

definition read_exact :: "nat \<Rightarrow> (stream, xs_error, bytes) act" where
  "read_exact n s =
     (if n \<le> length (st_in s) then (Inr (take n (st_in s)), s\<lparr>st_in := drop n (st_in s)\<rparr>)
      else (Inl (error_of_io (st_eof s)), s\<lparr>st_in := []\<rparr>))"

definition write_all :: "bytes \<Rightarrow> (stream, xs_error, unit) act" where
  "write_all buf s =
     (case st_room s of
        None \<Rightarrow> (Inr (), s\<lparr>st_out := st_out s @ buf\<rparr>)
      | Some r \<Rightarrow>
          (if length buf \<le> r then (Inr (), s\<lparr>st_out := st_out s @ buf, st_room := Some (r - length buf)\<rparr>)
           else (Inl (error_of_io (st_broken s)), s\<lparr>st_out := st_out s @ take r buf, st_room := Some 0\<rparr>)))"

definition read_usize :: "(bytes \<Rightarrow> string + nat \<times> bytes) \<Rightarrow> (stream, xs_error, nat) act" where
  "read_usize dec s =
     (case dec (st_in s) of
        Inl e \<Rightarrow> (Inl (UnsignedVarint e), s\<lparr>st_in := []\<rparr>)
      | Inr (n, rest) \<Rightarrow> (Inr n, s\<lparr>st_in := rest\<rparr>))"

section \<open>\<open>XStackRpc\<close>\<close>

definition xstack_send :: "(nat \<Rightarrow> bytes) \<Rightarrow> ('m \<Rightarrow> string + bytes) \<Rightarrow> 'm \<Rightarrow> (stream, xs_error, unit) act" where
  "xstack_send enc wr message =
     act_bind (act_lift (map_err ProtobufError (wr message))) (\<lambda>buf.
     act_bind (write_all (enc (length buf))) (\<lambda>_.
     act_bind (write_all buf) (\<lambda>_.
     act_ok ())))"

definition xstack_recv ::
    "(bytes \<Rightarrow> string + nat \<times> bytes) \<Rightarrow> (bytes \<Rightarrow> string + 'm) \<Rightarrow> nat \<Rightarrow> (stream, xs_error, 'm) act" where
  "xstack_recv dec parse max_recv_len =
     act_bind (read_usize dec) (\<lambda>body_len.
       if body_len > max_recv_len then act_err (Overflow max_recv_len)
       else act_bind (read_exact body_len) (\<lambda>buf. act_lift (map_err ProtobufError (parse buf))))"

definition xstack_call ::
    "(nat \<Rightarrow> bytes) \<Rightarrow> (bytes \<Rightarrow> string + nat \<times> bytes) \<Rightarrow> ('m \<Rightarrow> string + bytes) \<Rightarrow> (bytes \<Rightarrow> string + 'm) \<Rightarrow>
     'm \<Rightarrow> nat \<Rightarrow> (stream, xs_error, 'm) act" where
  "xstack_call enc dec wr parse message max_recv_len =
     act_bind (xstack_send enc wr message) (\<lambda>_.
     act_bind (read_usize dec) (\<lambda>body_len.
       if body_len > max_recv_len then act_err (Overflow max_recv_len)
       else act_bind (read_exact body_len) (\<lambda>buf. act_lift (map_err ProtobufError (parse buf)))))"

text \<open>\<open>buf\<close> is what \<open>thread_rng().fill_bytes\<close> puts into the 32 bytes.\<close>

definition xstack_ping :: "bytes \<Rightarrow> (stream, xs_error, unit) act" where
  "xstack_ping buf =
     act_bind (write_all buf) (\<lambda>_.
     act_bind (read_exact 32) (\<lambda>echo.
       if echo \<noteq> buf then act_err PingMismatch else act_ok ()))"

definition xstack_recv_identity ::
    "(bytes \<Rightarrow> string + nat \<times> bytes) \<Rightarrow> (bytes \<Rightarrow> string + 'm) \<Rightarrow> nat \<Rightarrow> (stream, xs_error, 'm) act" where
  "xstack_recv_identity dec parse max_packet_size =
     act_bind (read_usize dec) (\<lambda>body_len.
       if max_packet_size < body_len then act_err (Overflow body_len)
       else act_bind (read_exact body_len) (\<lambda>buf. act_lift (map_err ProtobufError (parse buf))))"

text \<open>
  \<open>ping_echo\<close> loops until a read or a write fails. It ends because what the peer sends before it
  stops is finite, and each turn takes 32 bytes of it.
\<close>

function ping_echo :: "(stream, xs_error, unit) act" where
  "ping_echo s =
     (case read_exact 32 s of
        (Inl e, s1) \<Rightarrow> (Inl e, s1)
      | (Inr buf, s1) \<Rightarrow>
          (case write_all buf s1 of
             (Inl e, s2) \<Rightarrow> (Inl e, s2)
           | (Inr _, s2) \<Rightarrow> ping_echo s2))"
  by auto

lemma read_exact_shrinks: "read_exact (Suc n) s = (Inr buf, s') \<Longrightarrow> length (st_in s') < length (st_in s)"
  by (auto simp: read_exact_def split: if_splits)

lemma write_all_in [simp]: "st_in (snd (write_all buf s)) = st_in s"
  by (simp add: write_all_def split: option.split)

lemma write_all_in': "write_all buf s = (r, s') \<Longrightarrow> st_in s' = st_in s"
  by (metis write_all_in snd_conv)

termination ping_echo
  by (relation "measure (length \<circ> st_in)")
    (auto, metis read_exact_shrinks [of 31, simplified] write_all_in')

declare ping_echo.simps [simp del]

section \<open>What the codecs promise\<close>

definition varint_law :: "(nat \<Rightarrow> bytes) \<Rightarrow> (bytes \<Rightarrow> string + nat \<times> bytes) \<Rightarrow> bool" where
  "varint_law enc dec \<longleftrightarrow> (\<forall>n rest. n < 2 ^ 64 \<longrightarrow> dec (enc n @ rest) = Inr (n, rest))"

definition message_law :: "('m \<Rightarrow> string + bytes) \<Rightarrow> (bytes \<Rightarrow> string + 'm) \<Rightarrow> bool" where
  "message_law wr parse \<longleftrightarrow> (\<forall>m buf. wr m = Inr buf \<longrightarrow> length buf < 2 ^ 64 \<and> parse buf = Inr m)"

text \<open>A codec that keeps the laws: LEB128 for lengths, the bytes themselves as a message.\<close>

fun leb :: "nat \<Rightarrow> bytes" where
  "leb n = (if n < 128 then [of_nat n] else of_nat (n mod 128 + 128) # leb (n div 128))"

fun unleb :: "bytes \<Rightarrow> string + nat \<times> bytes" where
  "unleb [] = Inl ''eof''"
| "unleb (b # bs) =
     (if unat b < 128 then Inr (unat b, bs)
      else case unleb bs of Inl e \<Rightarrow> Inl e | Inr (n, r) \<Rightarrow> Inr (unat b - 128 + 128 * n, r))"

declare leb.simps [simp del]

lemma unleb_leb: "unleb (leb n @ rest) = Inr (n, rest)"
proof (induction n rule: leb.induct)
  case (1 n)
  show ?case
  proof (cases "n < 128")
    case True
    then have "unat (of_nat n :: 8 word) = n" by (simp add: unat_of_nat)
    with True show ?thesis by (simp add: leb.simps)
  next
    case False
    have "n mod 128 + 128 < 256" using mod_less_divisor [of 128 n] by linarith
    then have "unat (of_nat (n mod 128 + 128) :: 8 word) = n mod 128 + 128"
      by (subst unat_of_nat) simp
    moreover have "n mod 128 + 128 * (n div 128) = n" by simp
    ultimately show ?thesis using 1 False by (simp add: leb.simps [of n] del: of_nat_add)
  qed
qed

lemma varint_law_leb: "varint_law leb unleb"
  by (simp add: varint_law_def unleb_leb)

definition plain_wr :: "bytes \<Rightarrow> string + bytes" where
  "plain_wr m = (if length m < 2 ^ 64 then Inr m else Inl ''too long'')"

lemma message_law_plain: "message_law plain_wr Inr"
  by (simp add: message_law_def plain_wr_def)

text \<open>And for any message type: the listed messages, written as their position.\<close>

definition list_wr :: "'m list \<Rightarrow> 'm \<Rightarrow> string + bytes" where
  "list_wr ms m =
     (case find_index (\<lambda>x. x = m) ms of
        Some i \<Rightarrow> if i < 2 ^ 64 then Inr (replicate i 0) else Inl ''unknown''
      | None \<Rightarrow> Inl ''unknown'')"

definition list_parse :: "'m list \<Rightarrow> bytes \<Rightarrow> string + 'm" where
  "list_parse ms b = (if length b < length ms then Inr (ms ! length b) else Inl ''unknown'')"

lemma message_law_list [simp]: "message_law (list_wr ms) (list_parse ms)"
  by (auto simp: message_law_def list_wr_def list_parse_def split: option.splits if_splits dest: find_index_Some)

section \<open>Sending and receiving\<close>

lemma xstack_call_eq:
  "xstack_call enc dec wr parse m n = act_bind (xstack_send enc wr m) (\<lambda>_. xstack_recv dec parse n)"
  by (simp add: xstack_call_def xstack_recv_def)

lemma write_all_out: "write_all buf s = (Inr u, s') \<Longrightarrow> st_out s' = st_out s @ buf"
  by (auto simp: write_all_def split: option.splits if_splits)

lemma xstack_send_out:
  assumes "xstack_send enc wr m s = (Inr u, s')"
  shows "\<exists>buf. wr m = Inr buf \<and> st_out s' = st_out s @ enc (length buf) @ buf"
  using assms
  by (auto simp: xstack_send_def act_bind_ok_iff map_err_Inr_iff dest!: write_all_out)

lemma xstack_recv_frame:
  assumes "varint_law enc dec" and "message_law wr parse" and "wr m = Inr buf" and "length buf \<le> n"
    and "st_in r = enc (length buf) @ buf @ rest"
  shows "xstack_recv dec parse n r = (Inr m, r\<lparr>st_in := rest\<rparr>)"
proof -
  have "length buf < 2 ^ 64" "parse buf = Inr m"
    using assms(2,3) by (auto simp: message_law_def)
  with assms show ?thesis
    by (simp add: xstack_recv_def act_bind_def read_usize_def read_exact_def varint_law_def)
qed

text \<open>A session: messages sent one after the other, and as many received.\<close>

fun send_each :: "(nat \<Rightarrow> bytes) \<Rightarrow> ('m \<Rightarrow> string + bytes) \<Rightarrow> 'm list \<Rightarrow> (stream, xs_error, unit) act" where
  "send_each enc wr [] = act_ok ()"
| "send_each enc wr (m # ms) = act_bind (xstack_send enc wr m) (\<lambda>_. send_each enc wr ms)"

fun recv_each ::
    "(bytes \<Rightarrow> string + nat \<times> bytes) \<Rightarrow> (bytes \<Rightarrow> string + 'm) \<Rightarrow> nat \<Rightarrow> nat \<Rightarrow> (stream, xs_error, 'm list) act" where
  "recv_each dec parse n 0 = act_ok []"
| "recv_each dec parse n (Suc k) =
     act_bind (xstack_recv dec parse n) (\<lambda>m. act_bind (recv_each dec parse n k) (\<lambda>ms. act_ok (m # ms)))"

lemma session_frames:
  assumes "varint_law enc dec" and "message_law wr parse"
    and "send_each enc wr ms s = (Inr u, s')" and "\<forall>m\<in>set ms. \<forall>buf. wr m = Inr buf \<longrightarrow> length buf \<le> n"
  shows "\<exists>sent. st_out s' = st_out s @ sent \<and>
    (\<forall>r rest. st_in r = sent @ rest \<longrightarrow> recv_each dec parse n (length ms) r = (Inr ms, r\<lparr>st_in := rest\<rparr>))"
  using assms(3,4)
proof (induction ms arbitrary: s)
  case Nil
  then show ?case by (auto intro!: exI [of _ "[]"])
next
  case (Cons m ms)
  then obtain s1 u1 where s1: "xstack_send enc wr m s = (Inr u1, s1)" and "send_each enc wr ms s1 = (Inr u, s')"
    by (auto simp: act_bind_ok_iff)
  with Cons obtain sent where out: "st_out s' = st_out s1 @ sent"
    and rec: "\<forall>r rest. st_in r = sent @ rest \<longrightarrow> recv_each dec parse n (length ms) r = (Inr ms, r\<lparr>st_in := rest\<rparr>)"
    by fastforce
  from xstack_send_out [OF s1] obtain buf where buf: "wr m = Inr buf" "st_out s1 = st_out s @ enc (length buf) @ buf"
    by blast
  have len: "length buf \<le> n" using Cons.prems(2) buf(1) by simp
  show ?case
  proof (intro exI [of _ "enc (length buf) @ buf @ sent"] conjI allI impI)
    show "st_out s' = st_out s @ enc (length buf) @ buf @ sent" using out buf(2) by simp
    fix r :: stream and rest
    assume "st_in r = (enc (length buf) @ buf @ sent) @ rest"
    then have r: "st_in r = enc (length buf) @ buf @ (sent @ rest)" by simp
    have "xstack_recv dec parse n r = (Inr m, r\<lparr>st_in := sent @ rest\<rparr>)"
      by (rule xstack_recv_frame [OF assms(1,2) buf(1) len r])
    moreover have "recv_each dec parse n (length ms) (r\<lparr>st_in := sent @ rest\<rparr>) = (Inr ms, r\<lparr>st_in := rest\<rparr>)"
      using rec by simp
    ultimately show "recv_each dec parse n (length (m # ms)) r = (Inr (m # ms), r\<lparr>st_in := rest\<rparr>)"
      by (simp add: act_bind_def)
  qed
qed

text \<open>What is sent is what is received. When messages were all written to a stream, a peer that
  reads that output with a limit no message exceeds gets exactly those messages, in that order, and its
  stream stands right behind the last of them.\<close>

theorem session_roundtrip:
  assumes "varint_law enc dec" and "message_law wr parse"
    and "send_each enc wr ms s = (Inr u, s')" and "\<forall>m\<in>set ms. \<forall>buf. wr m = Inr buf \<longrightarrow> length buf \<le> n"
    and "st_in r = drop (length (st_out s)) (st_out s') @ rest"
  shows "recv_each dec parse n (length ms) r = (Inr ms, r\<lparr>st_in := rest\<rparr>)"
  using session_frames [OF assms(1-4)] assms(5) by fastforce

definition quiet :: stream where
  "quiet = \<lparr>st_in = [], st_eof = OsError ''eof'', st_out = [], st_room = None, st_broken = OsError ''broken''\<rparr>"

theorem session_roundtrip_witness:
  "recv_each unleb Inr 4 2 (quiet\<lparr>st_in := [2, 7, 8, 1, 9, 5]\<rparr>) = (Inr [[7, 8], [9]], quiet\<lparr>st_in := [5]\<rparr>)"
proof -
  have sent: "send_each leb plain_wr [[7, 8], [9]] quiet = (Inr (), quiet\<lparr>st_out := [2, 7, 8, 1, 9]\<rparr>)"
    by (simp add: xstack_send_def act_bind_def write_all_def quiet_def plain_wr_def leb.simps)
  have "recv_each unleb Inr 4 (length ([[7, 8], [9]] :: bytes list)) (quiet\<lparr>st_in := [2, 7, 8, 1, 9, 5]\<rparr>) =
      (Inr [[7, 8], [9]], (quiet\<lparr>st_in := [2, 7, 8, 1, 9, 5]\<rparr>)\<lparr>st_in := [5]\<rparr>)"
    by (rule session_roundtrip [OF varint_law_leb message_law_plain sent]) (auto simp: plain_wr_def quiet_def)
  then show ?thesis by (simp add: numeral_2_eq_2)
qed

text \<open>C27: A receive is bounded: it succeeds only on a message whose length prefix is within the
  limit and whose body is exactly that many bytes of the stream; a larger prefix is an overflow
  error, and then not a byte of the body is read.\<close>

theorem recv_bounded:
  "(\<forall>m s'. xstack_recv dec parse n s = (Inr m, s') \<longrightarrow>
      (\<exists>buf. dec (st_in s) = Inr (length buf, buf @ st_in s') \<and> length buf \<le> n \<and> parse buf = Inr m)) \<and>
   (\<forall>len rest. dec (st_in s) = Inr (len, rest) \<longrightarrow> n < len \<longrightarrow>
      xstack_recv dec parse n s = (Inl (Overflow n), s\<lparr>st_in := rest\<rparr>))"
proof (intro conjI allI impI)
  fix m s'
  assume "xstack_recv dec parse n s = (Inr m, s')"
  then obtain len rest where d: "dec (st_in s) = Inr (len, rest)" "len \<le> n" "len \<le> length rest"
      "parse (take len rest) = Inr m" "st_in s' = drop len rest"
    by (auto simp: xstack_recv_def act_bind_ok_iff read_usize_def read_exact_def map_err_Inr_iff
        split: sum.splits if_splits)
  then show "\<exists>buf. dec (st_in s) = Inr (length buf, buf @ st_in s') \<and> length buf \<le> n \<and> parse buf = Inr m"
    by (intro exI [of _ "take len rest"]) simp
next
  fix len rest
  assume "dec (st_in s) = Inr (len, rest)" "n < len"
  then show "xstack_recv dec parse n s = (Inl (Overflow n), s\<lparr>st_in := rest\<rparr>)"
    by (simp add: xstack_recv_def act_bind_def read_usize_def)
qed

theorem recv_bounded_witness:
  "xstack_recv unleb Inr 4 (quiet\<lparr>st_in := [5, 1, 2, 3, 4, 5]\<rparr>) =
     ((Inl (Overflow 4) :: xs_error + bytes), quiet\<lparr>st_in := [1, 2, 3, 4, 5]\<rparr>)"
  using conjunct2 [OF recv_bounded [of unleb Inr 4 "quiet\<lparr>st_in := [5, 1, 2, 3, 4, 5]\<rparr>"]]
  by (simp add: quiet_def)

section \<open>Ping\<close>

lemma ping_echo_blocks:
  "st_room s = None \<Longrightarrow>
     ping_echo s = (Inl (error_of_io (st_eof s)),
       s\<lparr>st_in := [], st_out := st_out s @ take (32 * (length (st_in s) div 32)) (st_in s)\<rparr>)"
proof (induction s rule: ping_echo.induct)
  case (1 s)
  show ?case
  proof (cases "32 \<le> length (st_in s)")
    case False
    then show ?thesis by (simp add: ping_echo.simps [of s] read_exact_def)
  next
    case True
    let ?s1 = "s\<lparr>st_in := drop 32 (st_in s)\<rparr>"
    let ?s2 = "?s1\<lparr>st_out := st_out s @ take 32 (st_in s)\<rparr>"
    have r: "read_exact 32 s = (Inr (take 32 (st_in s)), ?s1)" using True by (simp add: read_exact_def)
    have w: "write_all (take 32 (st_in s)) ?s1 = (Inr (), ?s2)" using 1(2) by (simp add: write_all_def)
    have div: "length (st_in s) div 32 = Suc ((length (st_in s) - 32) div 32)"
      using True by (simp add: le_div_geq)
    have "ping_echo s = ping_echo ?s2" by (simp add: ping_echo.simps [of s] r w)
    also have "\<dots> = (Inl (error_of_io (st_eof s)), ?s2\<lparr>st_in := [],
        st_out := st_out ?s2 @ take (32 * (length (st_in ?s2) div 32)) (st_in ?s2)\<rparr>)"
      using 1(1) [OF r [symmetric] refl w [symmetric] refl] 1(2) by simp
    also have "st_out ?s2 @ take (32 * (length (st_in ?s2) div 32)) (st_in ?s2) =
        st_out s @ take (32 * (length (st_in s) div 32)) (st_in s)"
      using True div by (simp add: take_add [of 32 _ "st_in s", symmetric])
    finally show ?thesis by simp
  qed
qed

lemma xstack_ping_result:
  assumes "st_room s = None"
  shows "fst (xstack_ping buf s) =
    (if length (st_in s) < 32 then Inl (error_of_io (st_eof s))
     else if take 32 (st_in s) = buf then Inr () else Inl PingMismatch)"
  using assms by (simp add: xstack_ping_def act_bind_def write_all_def read_exact_def)

text \<open>Ping. A peer that serves \<open>ping_echo\<close> sends back every full block of 32 bytes that it is sent,
  in order and nothing else; so a ping that is answered by it succeeds, and one that is answered by
  32 other bytes fails with the ping error.\<close>

theorem ping_roundtrip:
  assumes "length buf = 32" and "st_room server = None" and "st_room client = None"
    and "st_in server = buf @ later"
  shows "st_out (snd (ping_echo server)) = st_out server @ take (32 * (length (st_in server) div 32)) (st_in server) \<and>
    (st_in client = drop (length (st_out server)) (st_out (snd (ping_echo server))) \<longrightarrow>
       fst (xstack_ping buf client) = Inr ()) \<and>
    (32 \<le> length (st_in client) \<and> take 32 (st_in client) \<noteq> buf \<longrightarrow>
       fst (xstack_ping buf client) = Inl PingMismatch)"
proof -
  let ?n = "32 * (length (st_in server) div 32)"
  have out: "st_out (snd (ping_echo server)) = st_out server @ take ?n (st_in server)"
    by (simp add: ping_echo_blocks [OF assms(2)])
  have "32 \<le> ?n" using assms(1,4) by (simp add: le_div_geq)
  then have "take 32 (take ?n (st_in server)) = buf" "32 \<le> length (take ?n (st_in server))"
    using assms(1,4) by (simp_all add: min_absorb1)
  then show ?thesis
    using out xstack_ping_result [OF assms(3)] by auto
qed

theorem ping_roundtrip_witness:
  "fst (xstack_ping (replicate 32 5) (quiet\<lparr>st_in := replicate 32 5\<rparr>)) = Inr ()"
proof -
  have "32 * (length (replicate 32 (5 :: 8 word)) div 32) = 32" by simp
  with ping_roundtrip [of "replicate 32 5" "quiet\<lparr>st_in := replicate 32 5\<rparr>" "quiet\<lparr>st_in := replicate 32 5\<rparr>" "[]"]
  show ?thesis by (simp add: quiet_def)
qed

end
