(* ===== verification/KadNode.thy ===== *)
theory KadNode
  imports KadRouter Rpc
begin

text \<open>
  The Kademlia node around the routing algorithm: the record store (\<open>kad/src/store.rs\<close>), the
  remote calls and the conversions of peer infos (\<open>kad/src/rpc.rs\<close>), the errors, and the parts of
  \<open>kad/src/router.rs\<close> that use them: \<open>FindNode::route\<close>, \<open>KademliaOptions::with_seeds\<close> and
  \<open>KademliaRouter::find_node\<close>.
\<close>

section \<open>Errors\<close>

datatype kad_error =
    KadXStack xs_error
  | KadClosest
  | KadPeerIdParse string
  | KadMultiaddr string
  | KadRpcType
  | KadProtoBuf string
  | KadIo io_error
  | KadVarint string
  | KadOutOfRange nat
  | KadOther string
  | KadWithoutP2p multiaddr
  | KadTimeout

text \<open>\<open>display\<close> is the text of an error that \<open>io::Error::new(Other, err)\<close> wraps.\<close>

fun kad_error_to_io :: "(kad_error \<Rightarrow> string) \<Rightarrow> kad_error \<Rightarrow> io_error" where
  "kad_error_to_io display (KadIo err) = err"
| "kad_error_to_io display err = OsError (display err)"

section \<open>The record store\<close>

type_synonym kad_store = "kbucket_key \<rightharpoonup> bytes"

definition store_new :: kad_store where
  "store_new = Map.empty"

definition store_insert :: "kad_store \<Rightarrow> kbucket_key \<Rightarrow> bytes \<Rightarrow> (io_error + unit) \<times> kad_store" where
  "store_insert m k v = (Inr (), m(k \<mapsto> v))"

definition store_remove :: "kad_store \<Rightarrow> kbucket_key \<Rightarrow> (io_error + bytes option) \<times> kad_store" where
  "store_remove m k = (Inr (m k), m(k := None))"

definition store_get :: "kad_store \<Rightarrow> kbucket_key \<Rightarrow> io_error + bytes option" where
  "store_get m k = Inr (m k)"

text \<open>The interface \<open>DriverKadStore\<close>.\<close>

locale kad_store_driver =
  fixes ins :: "'s \<Rightarrow> kbucket_key \<Rightarrow> bytes \<Rightarrow> (io_error + unit) \<times> 's"
    and rem :: "'s \<Rightarrow> kbucket_key \<Rightarrow> (io_error + bytes option) \<times> 's"
    and look :: "'s \<Rightarrow> kbucket_key \<Rightarrow> io_error + bytes option"
  assumes look_ins: "look (snd (ins s k v)) k' = (if k' = k then Inr (Some v) else look s k')"
    and look_rem: "look (snd (rem s k)) k' = (if k' = k then Inr None else look s k')"
    and rem_returns: "fst (rem s k) = look s k"
begin

lemma last_write_wins: "look (snd (ins (snd (ins s k v)) k w)) k = Inr (Some w)"
  by (simp add: look_ins)

lemma rem_after_ins: "fst (rem (snd (ins s k v)) k) = Inr (Some v)"
  by (simp add: rem_returns look_ins)

end

interpretation ks: kad_store_driver store_insert store_remove store_get
  by unfold_locales (simp_all add: store_insert_def store_remove_def store_get_def)

section \<open>Messages\<close>

datatype connection_type = NOT_CONNECTED | CONNECTED | CAN_CONNECT | CANNOT_CONNECT | OtherConnection "32 word"

datatype message_type =
    PUT_VALUE | GET_VALUE | ADD_PROVIDER | GET_PROVIDERS | FIND_NODE | PING | OtherMessage "32 word"

record kad_record =
  kr_key :: bytes
  kr_value :: bytes
  kr_time :: string

record kad_peer =
  kp_id :: bytes
  kp_addrs :: "bytes list"
  kp_connection :: connection_type

record kad_message =
  km_type :: message_type
  km_cluster_level :: "32 word"
  km_key :: bytes
  km_record :: "kad_record option"
  km_closer :: "kad_peer list"
  km_provider :: "kad_peer list"

definition message_new :: "message_type \<Rightarrow> bytes \<Rightarrow> kad_message" where
  "message_new t key = \<lparr>km_type = t, km_cluster_level = 0, km_key = key, km_record = None, km_closer = [], km_provider = []\<rparr>"

text \<open>The packages that encode: varint, protobuf, peer ids, multiaddrs.\<close>

record kad_codec =
  kc_enc :: "nat \<Rightarrow> bytes"
  kc_dec :: "bytes \<Rightarrow> string + nat \<times> bytes"
  kc_wr :: "kad_message \<Rightarrow> string + bytes"
  kc_parse :: "bytes \<Rightarrow> string + kad_message"
  kc_id_bytes :: "peer_id \<Rightarrow> bytes"
  kc_id_parse :: "bytes \<Rightarrow> string + peer_id"
  kc_addr_bytes :: "multiaddr \<Rightarrow> bytes"
  kc_addr_parse :: "bytes \<Rightarrow> string + multiaddr"

text \<open>\<open>From<&PeerInfo> for Peer\<close> and \<open>TryFrom<Peer> for PeerInfo\<close>.\<close>

definition connection_of :: "peer_info \<Rightarrow> connection_type" where
  "connection_of v =
     (if pi_appear v \<noteq> None then (if pi_disappear v = None then CONNECTED else CAN_CONNECT)
      else (if pi_disappear v = None then NOT_CONNECTED else CANNOT_CONNECT))"

definition peer_of_info :: "kad_codec \<Rightarrow> peer_info \<Rightarrow> kad_peer" where
  "peer_of_info k v =
     \<lparr>kp_id = kc_id_bytes k (pi_id v), kp_addrs = map (kc_addr_bytes k) (pi_addrs v), kp_connection = connection_of v\<rparr>"

definition info_of_peer :: "kad_codec \<Rightarrow> kad_peer \<Rightarrow> kad_error + peer_info" where
  "info_of_peer k v =
     and_then (map_err KadPeerIdParse (kc_id_parse k (kp_id v))) (\<lambda>pid.
     and_then (try_map (\<lambda>addr. map_err KadMultiaddr (kc_addr_parse k addr)) (kp_addrs v)) (\<lambda>addrs.
     Inr (peer_info_of pid addrs)))"

section \<open>The remote calls\<close>

definition kad_call :: "kad_codec \<Rightarrow> kad_message \<Rightarrow> nat \<Rightarrow> (stream, kad_error, kad_message) act" where
  "kad_call k message n =
     act_map_err KadXStack (xstack_call (kc_enc k) (kc_dec k) (kc_wr k) (kc_parse k) message n)"

text \<open>FIND_NODE converts the addresses of a peer before its id.\<close>

definition kad_find_node :: "kad_codec \<Rightarrow> bytes \<Rightarrow> nat \<Rightarrow> (stream, kad_error, peer_info list) act" where
  "kad_find_node k key n =
     act_bind (kad_call k (message_new FIND_NODE key) n) (\<lambda>message.
     act_lift (try_map (\<lambda>peer.
         and_then (try_map (\<lambda>addr. map_err KadMultiaddr (kc_addr_parse k addr)) (kp_addrs peer)) (\<lambda>addrs.
         and_then (map_err KadPeerIdParse (kc_id_parse k (kp_id peer))) (\<lambda>pid.
         Inr (peer_info_of pid addrs)))) (km_closer message)))"

definition kad_put_value :: "kad_codec \<Rightarrow> bytes \<Rightarrow> bytes \<Rightarrow> nat \<Rightarrow> (stream, kad_error, unit) act" where
  "kad_put_value k key v n =
     (let message = (message_new PUT_VALUE key)\<lparr>km_record := Some \<lparr>kr_key = key, kr_value = v, kr_time = []\<rparr>\<rparr> in
      act_bind (kad_call k message n) (\<lambda>resp.
        if km_key message \<noteq> km_key resp then act_err KadRpcType
        else if km_type message \<noteq> km_type resp then act_err KadRpcType
        else act_ok ()))"

definition kad_get_value :: "kad_codec \<Rightarrow> bytes \<Rightarrow> nat \<Rightarrow> (stream, kad_error, peer_info list \<times> bytes option) act" where
  "kad_get_value k key n =
     act_bind (kad_call k (message_new GET_VALUE key) n) (\<lambda>resp.
     act_bind (act_lift (try_map (info_of_peer k) (km_closer resp))) (\<lambda>closer_peers.
     act_ok (closer_peers, case km_record resp of Some record \<Rightarrow> Some (kr_value record) | None \<Rightarrow> None)))"

definition kad_add_provider :: "kad_codec \<Rightarrow> bytes \<Rightarrow> peer_info \<Rightarrow> (stream, kad_error, unit) act" where
  "kad_add_provider k key info =
     act_bind (act_map_err KadXStack (xstack_send (kc_enc k) (kc_wr k)
        ((message_new ADD_PROVIDER key)\<lparr>km_provider := [peer_of_info k info]\<rparr>))) (\<lambda>_. act_ok ())"

definition kad_get_providers ::
    "kad_codec \<Rightarrow> bytes \<Rightarrow> nat \<Rightarrow> (stream, kad_error, peer_info list \<times> peer_info list) act" where
  "kad_get_providers k key n =
     act_bind (kad_call k (message_new GET_PROVIDERS key) n) (\<lambda>resp.
     act_bind (act_lift (try_map (info_of_peer k) (km_closer resp))) (\<lambda>closer_peers.
     act_bind (act_lift (try_map (info_of_peer k) (km_provider resp))) (\<lambda>provider_peers.
     act_ok (closer_peers, provider_peers))))"

section \<open>FIND_NODE as a routing algorithm\<close>

text \<open>The loop over the returned infos: it stores each in the peer book.\<close>

fun store_infos ::
    "peer_id \<Rightarrow> peer_info list \<Rightarrow> bool \<Rightarrow> peer_id list \<Rightarrow> peer_book \<Rightarrow>
     (io_error + bool \<times> peer_id list) \<times> peer_book" where
  "store_infos target [] finished found b = (Inr (finished, found), b)"
| "store_infos target (info # rest) finished found b =
     (let finished = (if pi_id info = target then True else finished);
          found = found @ [pi_id info];
          (r, b) = book_insert b info
      in case r of
           Inl err \<Rightarrow> (Inl (error_to_io (error_of_io err)), b)
         | Inr _ \<Rightarrow> store_infos target rest finished found b)"

text \<open>\<open>connected\<close> and \<open>reply\<close> are the results of \<open>switch.connect\<close> and \<open>kad_find_node\<close>, \<open>None\<close> after a timeout.\<close>

definition find_node_route ::
    "(kad_error \<Rightarrow> string) \<Rightarrow> peer_id \<Rightarrow> (xs_error + unit) option \<Rightarrow> (kad_error + peer_info list) option \<Rightarrow> peer_id \<Rightarrow>
     peer_book \<Rightarrow> (io_error + routing) \<times> peer_book" where
  "find_node_route display target connected reply peer_id b =
     (if peer_id = target then (Inr Finished, b)
      else case connected of
        None \<Rightarrow> (Inl (kad_error_to_io display KadTimeout), b)
      | Some (Inl err) \<Rightarrow> (Inl (error_to_io err), b)
      | Some (Inr _) \<Rightarrow>
          (case reply of
             None \<Rightarrow> (Inl (kad_error_to_io display KadTimeout), b)
           | Some (Inl err) \<Rightarrow> (Inl (kad_error_to_io display err), b)
           | Some (Inr infos) \<Rightarrow>
               (case store_infos target infos False [] b of
                  (Inl err, b) \<Rightarrow> (Inl err, b)
                | (Inr (finished, found), b) \<Rightarrow>
                    (Inr (if finished then Finished else Closest found), b))))"

section \<open>Options, seeds and lookups\<close>

record kad_options =
  ko_concurrency :: nat
  ko_store :: kad_store

definition kad_options_new :: kad_options where
  "kad_options_new = \<lparr>ko_concurrency = 20, ko_store = store_new\<rparr>"

definition set_concurrency :: "nat \<Rightarrow> kad_options \<Rightarrow> kad_options" where
  "set_concurrency v ops = ops\<lparr>ko_concurrency := v\<rparr>"

definition set_store :: "kad_store \<Rightarrow> kad_options \<Rightarrow> kad_options" where
  "set_store v ops = ops\<lparr>ko_store := v\<rparr>"

text \<open>The first loop of \<open>with_seeds\<close>: the parsed addresses, grouped by the peer they end with.\<close>

fun group_seeds :: "(string + multiaddr) list \<Rightarrow> (peer_id \<rightharpoonup> multiaddr list) \<Rightarrow> kad_error + (peer_id \<rightharpoonup> multiaddr list)" where
  "group_seeds [] grouped = Inr grouped"
| "group_seeds (seed # rest) grouped =
     and_then (map_err KadOther seed) (\<lambda>raddr.
     and_then (ok_or (KadWithoutP2p raddr) (addr_pop raddr)) (\<lambda>(proto, _).
       case proto of
         P2p pid \<Rightarrow>
           (case grouped pid of
              Some addrs \<Rightarrow> group_seeds rest (grouped(pid \<mapsto> addrs @ [raddr]))
            | None \<Rightarrow> group_seeds rest (grouped(pid \<mapsto> [raddr])))
       | _ \<Rightarrow> Inl (KadWithoutP2p raddr)))"

text \<open>The second loop: each peer goes into the table and the peer book. \<open>None\<close> is the table's panic.\<close>

fun insert_seeds ::
    "nat \<Rightarrow> (peer_id \<Rightarrow> kbucket_key) \<Rightarrow> (peer_id \<rightharpoonup> multiaddr list) \<Rightarrow> peer_id list \<Rightarrow> kbucket_table \<times> peer_book \<Rightarrow>
     (kad_error + kbucket_table \<times> peer_book) option" where
  "insert_seeds K key_of grouped [] (t, b) = Some (Inr (t, b))"
| "insert_seeds K key_of grouped (pid # rest) (t, b) =
     Option.bind (insert_peer K key_of t pid) (\<lambda>t.
       let (r, b) = book_insert b (peer_info_of pid (the (grouped pid)))
       in case r of
            Inl err \<Rightarrow> Some (Inl (KadXStack (error_of_io err)))
          | Inr _ \<Rightarrow> insert_seeds K key_of grouped rest (t, b))"

definition with_seeds ::
    "nat \<Rightarrow> (peer_id \<Rightarrow> kbucket_key) \<Rightarrow> peer_id \<Rightarrow> ((peer_id \<rightharpoonup> multiaddr list) \<Rightarrow> peer_id list) \<Rightarrow> (string + multiaddr) list \<Rightarrow>
     peer_book \<Rightarrow> (kad_error + kbucket_table \<times> peer_book) option" where
  "with_seeds K key_of local_id order seeds b =
     (case group_seeds seeds Map.empty of
        Inl err \<Rightarrow> Some (Inl err)
      | Inr grouped \<Rightarrow>
          insert_seeds K key_of grouped (order grouped) (bind_table (key_of local_id), b))"

text \<open>
  \<open>find_node\<close>: the seeds of the search come from the table; the answer is what the peer book knows
  of the peer afterwards (\<open>book_after\<close>). The fuel \<open>n\<close> bounds the steps of the search.
\<close>

definition find_node ::
    "(peer_id \<Rightarrow> kbucket_key) \<Rightarrow> kad_options \<Rightarrow> (peer_id \<Rightarrow> io_error + routing) \<Rightarrow> (route_state \<Rightarrow> nat) \<Rightarrow> nat \<Rightarrow>
     raw_table \<Rightarrow> peer_id \<Rightarrow> peer_book \<Rightarrow> (kad_error + peer_info option) option" where
  "find_node key_of ops alg pick n t peer_id book_after =
     Option.bind (closest 20 t (key_of peer_id)) (\<lambda>seeds.
     Option.bind (route key_of alg pick n (recursively_new (key_of peer_id) 20 (ko_concurrency ops) seeds)) (\<lambda>_.
     Some (map_err (\<lambda>e. KadXStack (error_of_io e)) (book_get book_after peer_id))))"


section \<open>The calls against a peer\<close>

definition kad_codec_law :: "kad_codec \<Rightarrow> bool" where
  "kad_codec_law k \<longleftrightarrow> varint_law (kc_enc k) (kc_dec k) \<and> message_law (kc_wr k) (kc_parse k) \<and>
     (\<forall>p. kc_id_parse k (kc_id_bytes k p) = Inr p) \<and> (\<forall>a. kc_addr_parse k (kc_addr_bytes k a) = Inr a)"

lemma addrs_roundtrip:
  "kad_codec_law k \<Longrightarrow> try_map (\<lambda>addr. map_err KadMultiaddr (kc_addr_parse k addr)) (map (kc_addr_bytes k) xs) = Inr xs"
  by (induction xs) (auto simp: kad_codec_law_def)

lemma peer_roundtrip:
  "kad_codec_law k \<Longrightarrow> info_of_peer k (peer_of_info k i) = Inr (peer_info_of (pi_id i) (pi_addrs i))"
  using addrs_roundtrip [of k "pi_addrs i"] by (simp add: info_of_peer_def peer_of_info_def) (simp add: kad_codec_law_def)

lemma peers_roundtrip:
  "kad_codec_law k \<Longrightarrow> try_map (info_of_peer k) (map (peer_of_info k) is) = Inr (map (\<lambda>i. peer_info_of (pi_id i) (pi_addrs i)) is)"
  by (induction "is") (simp_all add: peer_roundtrip)

lemma write_all_ok_in: "write_all buf s = (r, s') \<Longrightarrow> st_in s' = st_in s"
  by (metis write_all_in snd_conv)

lemma kad_call_reply:
  assumes law: "kad_codec_law k" and wr: "kc_wr k m = Inr req" and room: "st_room s = None"
    and rep: "kc_wr k resp = Inr buf" "length buf \<le> n" and inp: "st_in s = kc_enc k (length buf) @ buf @ rest"
  shows "kad_call k m n s = (Inr resp, s\<lparr>st_in := rest, st_out := st_out s @ kc_enc k (length req) @ req\<rparr>)"
proof -
  let ?s = "s\<lparr>st_out := st_out s @ kc_enc k (length req) @ req\<rparr>"
  have send: "xstack_send (kc_enc k) (kc_wr k) m s = (Inr (), ?s)"
    using wr room by (simp add: xstack_send_def act_bind_def write_all_def)
  have "xstack_recv (kc_dec k) (kc_parse k) n ?s = (Inr resp, ?s\<lparr>st_in := rest\<rparr>)"
    by (rule xstack_recv_frame [where enc = "kc_enc k" and wr = "kc_wr k", OF _ _ rep])
      (use law inp in \<open>simp_all add: kad_codec_law_def\<close>)
  then show ?thesis
    by (simp add: kad_call_def act_map_err_def xstack_call_eq act_bind_def send)
qed

text \<open>C29: A Kademlia call, end to end: when the peer answers FIND_NODE or GET_PROVIDERS with infos converted to
  messages, the caller gets those infos back, ids and addresses unchanged and in order; what it does not
  get is what the messages do not carry, the protocols and the times.\<close>

theorem kad_calls_roundtrip:
  assumes "kad_codec_law k" and "st_room s = None"
    and "kc_wr k (message_new FIND_NODE key) = Inr req1" and "kc_wr k (message_new GET_PROVIDERS key) = Inr req2"
    and "resp = (message_new t key)\<lparr>km_closer := map (peer_of_info k) closer, km_provider := map (peer_of_info k) provider\<rparr>"
    and "kc_wr k resp = Inr buf" and "length buf \<le> n" and "st_in s = kc_enc k (length buf) @ buf @ rest"
  shows "fst (kad_find_node k key n s) = Inr (map (\<lambda>i. peer_info_of (pi_id i) (pi_addrs i)) closer) \<and>
    fst (kad_get_providers k key n s) =
      Inr (map (\<lambda>i. peer_info_of (pi_id i) (pi_addrs i)) closer, map (\<lambda>i. peer_info_of (pi_id i) (pi_addrs i)) provider)"
proof -
  note call = kad_call_reply [OF assms(1) _ assms(2,6,7,8)]
  have conv: "try_map (\<lambda>peer.
         and_then (try_map (\<lambda>addr. map_err KadMultiaddr (kc_addr_parse k addr)) (kp_addrs peer)) (\<lambda>addrs.
         and_then (map_err KadPeerIdParse (kc_id_parse k (kp_id peer))) (\<lambda>pid.
         Inr (peer_info_of pid addrs)))) (map (peer_of_info k) is) = Inr (map (\<lambda>i. peer_info_of (pi_id i) (pi_addrs i)) is)" for "is"
    using assms(1) by (induction "is") (simp_all add: peer_of_info_def addrs_roundtrip kad_codec_law_def)
  have "fst (kad_find_node k key n s) = Inr (map (\<lambda>i. peer_info_of (pi_id i) (pi_addrs i)) closer)"
    using call [OF assms(3)] conv [of closer] assms(5) by (simp add: kad_find_node_def act_bind_def)
  moreover have "fst (kad_get_providers k key n s) =
      Inr (map (\<lambda>i. peer_info_of (pi_id i) (pi_addrs i)) closer, map (\<lambda>i. peer_info_of (pi_id i) (pi_addrs i)) provider)"
    using call [OF assms(4)] peers_roundtrip [OF assms(1)] assms(5) by (simp add: kad_get_providers_def act_bind_def)
  ultimately show ?thesis ..
qed

text \<open>A codec that keeps the law, whose protobuf encodes the listed messages.\<close>

definition list_codec :: "kad_message list \<Rightarrow> kad_codec" where
  "list_codec ms =
     \<lparr>kc_enc = leb, kc_dec = unleb,
      kc_wr = list_wr ms, kc_parse = list_parse ms,
      kc_id_bytes = some_id_bytes, kc_id_parse = some_id_parse,
      kc_addr_bytes = some_addr_bytes, kc_addr_parse = some_addr_parse\<rparr>"

lemma list_codec_law: "kad_codec_law (list_codec ms)"
  by (simp add: kad_codec_law_def list_codec_def varint_law_leb)

definition sample_info :: peer_info where
  "sample_info = peer_info_of (PeerId 2) [[Ip4 5, Tcp 80]]"

definition sample_reply :: kad_message where
  "sample_reply = (message_new FIND_NODE [1])\<lparr>km_closer := map (peer_of_info (list_codec [])) [sample_info],
     km_provider := map (peer_of_info (list_codec [])) []\<rparr>"

theorem kad_calls_roundtrip_witness:
  "fst (kad_find_node (list_codec [message_new FIND_NODE [1], message_new GET_PROVIDERS [1], sample_reply]) [1] 100
     (quiet\<lparr>st_in := [2, 0, 0]\<rparr>)) = Inr [sample_info]"
proof -
  let ?k = "list_codec [message_new FIND_NODE [1], message_new GET_PROVIDERS [1], sample_reply]"
  have "peer_of_info ?k = peer_of_info (list_codec [])" by (simp add: peer_of_info_def list_codec_def fun_eq_iff)
  then have r: "sample_reply = (message_new FIND_NODE [1])\<lparr>km_closer := map (peer_of_info ?k) [sample_info],
      km_provider := map (peer_of_info ?k) []\<rparr>" by (simp add: sample_reply_def)
  have ne: "message_new FIND_NODE [1] \<noteq> sample_reply" "message_new GET_PROVIDERS [1] \<noteq> sample_reply"
      "message_new FIND_NODE [1] \<noteq> message_new GET_PROVIDERS [1]"
    by (simp_all add: sample_reply_def message_new_def)
  have wr: "kc_wr ?k (message_new FIND_NODE [1]) = Inr []" "kc_wr ?k (message_new GET_PROVIDERS [1]) = Inr [0]"
      "kc_wr ?k sample_reply = Inr [0, 0]"
    using ne by (simp_all add: list_codec_def list_wr_def)
  have enc: "kc_enc ?k (length [0, 0 :: 8 word]) @ [0, 0] @ [] = [2, 0, 0]"
    by (simp add: list_codec_def leb.simps)
  from kad_calls_roundtrip [OF list_codec_law _ wr(1,2) r wr(3), of "quiet\<lparr>st_in := [2, 0, 0]\<rparr>" 100 "[]"]
  show ?thesis using enc by (simp add: quiet_def sample_info_def)
qed

section \<open>FIND_NODE\<close>

lemma store_infos_eq:
  "store_infos target infos finished found b =
     (Inr (finished \<or> target \<in> pi_id ` set infos, found @ map pi_id infos), fold (\<lambda>i b. snd (book_insert b i)) infos b)"
proof (induction infos arbitrary: finished found b)
  case (Cons i infos)
  obtain r b' where r: "book_insert b i = (r, b')" by fastforce
  moreover from this have "\<exists>x. r = Inr x" using book_insert_result [of b i] by simp
  ultimately show ?case using Cons by auto
qed simp

lemma find_append: "find P (xs @ ys) = (case find P xs of Some x \<Rightarrow> Some x | None \<Rightarrow> find P ys)"
  by (induction xs) simp_all

lemma fold_insert_get:
  "book_get (fold (\<lambda>i b. snd (book_insert b i)) infos b) p =
     (case find (\<lambda>i. pi_id i = p) (rev infos) of Some i \<Rightarrow> Inr (Some (stored i)) | None \<Rightarrow> book_get b p)"
  by (induction infos arbitrary: b)
    (auto simp: book_get_def find_append split: option.splits)

text \<open>FIND_NODE. The target ends the search when it is asked itself or when some peer names it; any other
  successful answer yields the ids it names, in order; and in both cases the peer book then holds what was
  said of every peer named, the last word counting. A timeout or an error of either call yields an error
  and leaves the book as it was.\<close>

theorem find_node_answers:
  "(case find_node_route display target connected reply peer b of
      (Inr r, b') \<Rightarrow>
        (peer = target \<and> r = Finished \<and> b' = b) \<or>
        (\<exists>infos. reply = Some (Inr infos) \<and>
           r = (if target \<in> pi_id ` set infos then Finished else Closest (map pi_id infos)) \<and>
           (\<forall>p. book_get b' p = (case find (\<lambda>i. pi_id i = p) (rev infos) of
                                    Some i \<Rightarrow> Inr (Some (stored i)) | None \<Rightarrow> book_get b p)))
    | (Inl e, b') \<Rightarrow> peer \<noteq> target \<and> b' = b \<and>
        (connected = None \<or> (\<exists>err. connected = Some (Inl err)) \<or> reply = None \<or> (\<exists>err. reply = Some (Inl err))))"
  by (auto simp: find_node_route_def store_infos_eq fold_insert_get split: option.split sum.split)

section \<open>Seeds\<close>

abbreviation for_peer :: "peer_id \<Rightarrow> multiaddr \<Rightarrow> bool" where
  "for_peer p a \<equiv> suffix [P2p p] a"

definition add_group :: "multiaddr list \<Rightarrow> (peer_id \<rightharpoonup> multiaddr list) \<Rightarrow> peer_id \<rightharpoonup> multiaddr list" where
  "add_group addrs m p =
     (let xs = (case m p of Some l \<Rightarrow> l | None \<Rightarrow> []) @ filter (for_peer p) addrs
      in if m p = None \<and> xs = [] then None else Some xs)"

lemma add_group_Nil [simp]: "add_group [] m = m"
  by (auto simp: add_group_def fun_eq_iff Let_def split: option.split)

lemma add_group_Cons:
  "add_group (addr_with a (P2p q) # addrs) m =
     add_group addrs (m(q \<mapsto> (case m q of Some l \<Rightarrow> l | None \<Rightarrow> []) @ [addr_with a (P2p q)]))"
  by (auto simp: add_group_def fun_eq_iff Let_def suffix_single_iff split: option.split)

lemma group_seeds_ok:
  "\<forall>a\<in>set addrs. \<exists>b p. a = addr_with b (P2p p) \<Longrightarrow> group_seeds (map Inr addrs) m = Inr (add_group addrs m)"
proof (induction addrs arbitrary: m)
  case (Cons a addrs)
  then obtain b p where a: "a = addr_with b (P2p p)" by auto
  have "group_seeds (map Inr (a # addrs)) m =
      group_seeds (map Inr addrs) (m(p \<mapsto> (case m p of Some l \<Rightarrow> l | None \<Rightarrow> []) @ [a]))"
    by (simp add: a split: option.split)
  with Cons a show ?case by (simp add: add_group_Cons)
qed simp

lemma add_group_empty:
  "add_group addrs Map.empty p = (if filter (for_peer p) addrs = [] then None else Some (filter (for_peer p) addrs))"
  by (simp add: add_group_def Let_def)

lemma insert_seeds_ok:
  assumes K: "0 < K"
  shows "kad_inv K key_of key t \<Longrightarrow> \<forall>p\<in>set ps. key_of p \<noteq> key \<Longrightarrow> distinct ps \<Longrightarrow>
    \<exists>t' b'. insert_seeds K key_of m ps (t, b) = Some (Inr (t', b')) \<and> kad_inv K key_of key t' \<and>
      (\<forall>p. book_get b' p = (if p \<in> set ps then Inr (Some (peer_info_of p (the (m p)))) else book_get b p))"
proof (induction ps arbitrary: t b)
  case (Cons p ps)
  have "key_of p \<noteq> key" using Cons.prems(2) by simp
  from insert_peer_inv [OF Cons.prems(1) K this] obtain t1 where
    t1: "insert_peer K key_of t p = Some t1" "kad_inv K key_of key t1" by blast
  let ?i = "peer_info_of p (the (m p))"
  obtain r b1 where b1: "book_insert b ?i = (r, b1)" by fastforce
  then have r: "\<exists>x. r = Inr x" using book_insert_result [of b ?i] by simp
  have get: "book_get b1 q = (if q = p then Inr (Some ?i) else book_get b q)" for q
    using b1 book_insert_infos [of b ?i] by (simp add: book_get_def)
  from Cons.IH [OF t1(2), of b1] Cons.prems(2,3) obtain t' b' where
    "insert_seeds K key_of m ps (t1, b1) = Some (Inr (t', b'))" "kad_inv K key_of key t'"
    "\<forall>q. book_get b' q = (if q \<in> set ps then Inr (Some (peer_info_of q (the (m q)))) else book_get b1 q)" by auto
  with t1 b1 r get Cons.prems(3) show ?case by auto
qed simp

text \<open>Bootstrap. When every seed parses and ends with the id of a peer other than the node itself, the router
  is made: its table is consistent, and the peer book holds for each seed peer exactly the seed addresses that
  end with its id, in the order given, and is otherwise unchanged. A seed that does not parse or does
  not end with a peer id is an error, and the node's own id among the seeds is a panic.\<close>

theorem with_seeds_sound:
  assumes "0 < K" and "\<forall>a\<in>set addrs. \<exists>c p. a = addr_with c (P2p p) \<and> key_of p \<noteq> key_of local_id"
    and "\<forall>m. finite (dom m) \<longrightarrow> iter_order m (order m)"
  shows "\<exists>t b'. with_seeds K key_of local_id order (map Inr addrs) b = Some (Inr (t, b')) \<and>
    table_ok K key_of (table t) \<and>
    (\<forall>p. book_get b' p =
       (if filter (for_peer p) addrs = [] then book_get b p
        else Inr (Some (peer_info_of p (filter (for_peer p) addrs)))))"
proof -
  let ?m = "add_group addrs Map.empty"
  have group: "group_seeds (map Inr addrs) Map.empty = Inr ?m"
    by (rule group_seeds_ok) (use assms(2) in blast)
  have dom: "dom ?m = {p. filter (for_peer p) addrs \<noteq> []}"
    by (auto simp: dom_def add_group_empty)
  have "dom ?m \<subseteq> (\<lambda>a. case last a of P2p p \<Rightarrow> p | _ \<Rightarrow> local_id) ` set addrs"
  proof
    fix p assume "p \<in> dom ?m"
    then obtain a where "a \<in> set addrs" "for_peer p a" by (auto simp: dom filter_empty_conv)
    then have "last a = P2p p" by (auto simp: suffix_single_iff)
    with \<open>a \<in> set addrs\<close> show "p \<in> (\<lambda>a. case last a of P2p p \<Rightarrow> p | _ \<Rightarrow> local_id) ` set addrs"
      by (force intro: image_eqI [of _ _ a])
  qed
  then have "finite (dom ?m)" by (rule finite_subset) simp
  with assms(3) have order: "distinct (order ?m)" "set (order ?m) = dom ?m" by (auto simp: iter_order_def)
  have keys: "\<forall>p\<in>set (order ?m). key_of p \<noteq> key_of local_id"
  proof
    fix p assume "p \<in> set (order ?m)"
    then obtain a where "a \<in> set addrs" "for_peer p a" using order(2) by (auto simp: dom filter_empty_conv)
    with assms(2) show "key_of p \<noteq> key_of local_id" by (fastforce simp: suffix_single_iff)
  qed
  from insert_seeds_ok [OF assms(1) kad_inv_bind keys order(1), of ?m b] obtain t b' where
    "insert_seeds K key_of ?m (order ?m) (bind_table (key_of local_id), b) = Some (Inr (t, b'))"
    "kad_inv K key_of (key_of local_id) t"
    and get: "\<forall>p. book_get b' p = (if p \<in> set (order ?m) then Inr (Some (peer_info_of p (the (?m p)))) else book_get b p)"
    by blast
  moreover have "book_get b' p = (if filter (for_peer p) addrs = [] then book_get b p
        else Inr (Some (peer_info_of p (filter (for_peer p) addrs))))" for p
    using get order(2) by (simp add: dom add_group_empty)
  ultimately show ?thesis by (auto simp: with_seeds_def group kad_inv_def)
qed


lemma sorted_iter_order: "finite (dom m) \<Longrightarrow> iter_order m (sorted_list_of_set (dom m))"
  by (simp add: iter_order_def)

definition sample_seed :: multiaddr where
  "sample_seed = [Ip4 5, Tcp 80, P2p (PeerId 2)]"

theorem with_seeds_sound_witness:
  "\<exists>t b'. with_seeds 20 plain_key (PeerId 0) (\<lambda>m. sorted_list_of_set (dom m)) (map Inr [sample_seed]) book_empty =
       Some (Inr (t, b')) \<and> book_get b' (PeerId 2) = Inr (Some (peer_info_of (PeerId 2) [sample_seed]))"
proof -
  have order: "\<forall>m :: peer_id \<rightharpoonup> multiaddr list. finite (dom m) \<longrightarrow> iter_order m (sorted_list_of_set (dom m))"
    using sorted_iter_order by blast
  have "sample_seed = addr_with [Ip4 5, Tcp 80] (P2p (PeerId 2))" by (simp add: sample_seed_def)
  moreover have "plain_key (PeerId 2) \<noteq> plain_key (PeerId 0)" by simp
  ultimately have seeds: "\<forall>a\<in>set [sample_seed]. \<exists>c p. a = addr_with c (P2p p) \<and> plain_key p \<noteq> plain_key (PeerId 0)"
    by (metis empty_iff list.set(1) set_ConsD)
  have "filter (for_peer (PeerId 2)) [sample_seed] = [sample_seed]"
    by (simp add: suffix_single_iff sample_seed_def)
  then show ?thesis
    using with_seeds_sound [OF _ seeds order, of 20 book_empty] by (metis list.distinct(1) zero_less_numeral)
qed

end
