(* ===== verification/ConnPool.thy ===== *)
theory ConnPool
  imports PeerBook
begin

text \<open>
  \<open>xstack/src/connector.rs\<close>: the connection pool (\<open>RawConnPool\<close> behind the mutex of \<open>ConnPool\<close>)
  and its interface \<open>DriverConnector\<close>.

  What the pool asks the connections themselves, whether they are closed and how many streams
  are active, is an observation that the model takes as an argument, with the order in which the
  map of connections is iterated. \<open>closing\<close> records the calls of \<open>conn.close()\<close>. Random choices
  are arguments too. A result \<open>None\<close> is a panic (\<open>expect\<close>, \<open>unwrap\<close>, \<open>assert_eq!\<close>).
\<close>

section \<open>The pool\<close>

record conn_pool =
  max_pool_size :: nat
  raddrs :: "multiaddr \<rightharpoonup> peer_id"
  pool_peers :: "peer_id \<rightharpoonup> string list"
  conns :: "string \<rightharpoonup> p2p_conn"
  closing :: "string list"

record conn_obs =
  is_closed :: "string \<Rightarrow> bool"
  actives :: "string \<Rightarrow> nat"
  conn_order :: "string list"

definition pool_new :: "nat \<Rightarrow> conn_pool" where
  "pool_new n = \<lparr>max_pool_size = n, raddrs = Map.empty, pool_peers = Map.empty, conns = Map.empty, closing = []\<rparr>"

definition pool_default :: conn_pool where
  "pool_default = pool_new 20"

definition pool_len :: "conn_pool \<Rightarrow> nat" where
  "pool_len s = card (dom (conns s))"

definition pool_remove :: "conn_obs \<Rightarrow> string \<Rightarrow> conn_pool \<Rightarrow> conn_pool option" where
  "pool_remove obs cid s =
     (case conns s cid of
        None \<Rightarrow> Some s
      | Some conn \<Rightarrow>
          (let s = s\<lparr>conns := (conns s)(cid := None)\<rparr> in
           if cid \<noteq> conn_id conn then None
           else
             (let peer_id = conn_peer conn;
                  s = s\<lparr>raddrs := (raddrs s)(conn_peer_addr conn := None)\<rparr>;
                  s = (case pool_peers s peer_id of
                         None \<Rightarrow> s
                       | Some ids \<Rightarrow>
                           (let ids = (case find_index (\<lambda>v. v = cid) ids of
                                         Some index \<Rightarrow> remove_at index ids
                                       | None \<Rightarrow> ids);
                                peers = (pool_peers s)(peer_id := None)
                            in s\<lparr>pool_peers := (if ids \<noteq> [] then peers(peer_id \<mapsto> ids) else peers)\<rparr>))
              in Some (if \<not> is_closed obs cid then s\<lparr>closing := closing s @ [cid]\<rparr> else s))))"

fun remove_each :: "conn_obs \<Rightarrow> string list \<Rightarrow> conn_pool \<Rightarrow> conn_pool option" where
  "remove_each obs [] s = Some s"
| "remove_each obs (cid # rest) s = Option.bind (pool_remove obs cid s) (remove_each obs rest)"

definition check_limits :: "conn_obs \<Rightarrow> conn_pool \<Rightarrow> conn_pool option" where
  "check_limits obs s =
     (if card (dom (conns s)) > max_pool_size s
      then remove_each obs (filter (\<lambda>cid. is_closed obs cid \<or> actives obs cid = 0) (conn_order obs)) s
      else Some s)"

definition pool_add :: "conn_obs \<Rightarrow> p2p_conn \<Rightarrow> bool \<Rightarrow> conn_pool \<Rightarrow> conn_pool option" where
  "pool_add obs conn inbound s =
     Option.bind (check_limits obs s) (\<lambda>s.
       let peer_id = conn_peer conn; peer_addr = conn_peer_addr conn; cid = conn_id conn;
           older = conns s cid;
           s = s\<lparr>conns := (conns s)(cid \<mapsto> conn)\<rparr>
       in if older = None
          then (let s = (if \<not> inbound then s\<lparr>raddrs := (raddrs s)(peer_addr \<mapsto> peer_id)\<rparr> else s) in
                Some (case pool_peers s peer_id of
                        Some ids \<Rightarrow> s\<lparr>pool_peers := (pool_peers s)(peer_id \<mapsto> ids @ [cid])\<rparr>
                      | None \<Rightarrow> s\<lparr>pool_peers := (pool_peers s)(peer_id \<mapsto> [cid])\<rparr>))
          else Some s)"

text \<open>The lookups: the inner option is the result of the Rust function, \<open>r\<close> its random number.\<close>

definition by_peer_id :: "nat \<Rightarrow> conn_pool \<Rightarrow> peer_id \<Rightarrow> p2p_conn option option" where
  "by_peer_id r s peer_id =
     (case pool_peers s peer_id of
        Some ids \<Rightarrow> (case choose_one r ids of
                       Some cid \<Rightarrow> (case conns s cid of Some conn \<Rightarrow> Some (Some conn) | None \<Rightarrow> None)
                     | None \<Rightarrow> Some None)
      | None \<Rightarrow> Some None)"

definition by_raddr :: "nat \<Rightarrow> conn_pool \<Rightarrow> multiaddr \<Rightarrow> p2p_conn option option" where
  "by_raddr r s raddr =
     (case raddrs s raddr of
        Some peer_id \<Rightarrow>
          (case pool_peers s peer_id of
             Some ids \<Rightarrow> (case choose_one r ids of
                            Some cid \<Rightarrow> (case conns s cid of Some conn \<Rightarrow> Some (Some conn) | None \<Rightarrow> None)
                          | None \<Rightarrow> Some None)
           | None \<Rightarrow> Some None)
      | None \<Rightarrow> Some None)"

section \<open>The connector's calls\<close>

text \<open>
  \<open>dial\<close> is \<open>switch.transport_connect\<close>, \<open>order\<close> the shuffled addresses. While a call dials, the
  pool is not locked: \<open>mid\<close> is what the other tasks do to it meanwhile. The code also releases the
  lock between the lookups of two addresses in \<open>connect\<close>; here \<open>first_by_raddr\<close> looks all of them up in
  the same pool, so that a call that comes in between two of these lookups is not in the model.
\<close>

fun dial_first :: "(multiaddr \<Rightarrow> xs_error + p2p_conn) \<Rightarrow> multiaddr list \<Rightarrow> xs_error option \<Rightarrow> (xs_error option) + p2p_conn" where
  "dial_first dial [] last_error = Inl last_error"
| "dial_first dial (raddr # rest) last_error =
     (case dial raddr of
        Inr conn \<Rightarrow> Inr conn
      | Inl err \<Rightarrow> dial_first dial rest (Some err))"

definition connect_raddrs ::
    "conn_obs \<Rightarrow> (multiaddr \<Rightarrow> xs_error + p2p_conn) \<Rightarrow> multiaddr list \<Rightarrow> conn_pool \<Rightarrow>
     ((io_error + p2p_conn) \<times> conn_pool) option" where
  "connect_raddrs obs dial order s =
     (case dial_first dial order None of
        Inr conn \<Rightarrow> Option.bind (pool_add obs conn False s) (\<lambda>s. Some (Inr conn, s))
      | Inl (Some err) \<Rightarrow> Some (Inl (error_to_io err), s)
      | Inl None \<Rightarrow> None)"

fun first_by_raddr :: "nat \<Rightarrow> conn_pool \<Rightarrow> multiaddr list \<Rightarrow> p2p_conn option option" where
  "first_by_raddr r s [] = Some None"
| "first_by_raddr r s (raddr # rest) =
     Option.bind (by_raddr r s raddr) (\<lambda>found.
       case found of Some conn \<Rightarrow> Some (Some conn) | None \<Rightarrow> first_by_raddr r s rest)"

definition pool_connect ::
    "conn_obs \<Rightarrow> (multiaddr \<Rightarrow> xs_error + p2p_conn) \<Rightarrow> nat \<Rightarrow> (multiaddr list \<Rightarrow> multiaddr list) \<Rightarrow>
     (conn_pool \<Rightarrow> conn_pool) \<Rightarrow> multiaddr list \<Rightarrow> conn_pool \<Rightarrow> ((io_error + p2p_conn) \<times> conn_pool) option" where
  "pool_connect obs dial r shuffle mid targets s =
     (if targets = [] then Some (Inl (error_to_io EmptyPeerAddrs), s)
      else Option.bind (first_by_raddr r s targets) (\<lambda>found.
        case found of
          Some conn \<Rightarrow> Some (Inr conn, s)
        | None \<Rightarrow> connect_raddrs obs dial (shuffle targets) (mid s)))"

definition pool_connect_to ::
    "conn_obs \<Rightarrow> (multiaddr \<Rightarrow> xs_error + p2p_conn) \<Rightarrow> nat \<Rightarrow> (multiaddr list \<Rightarrow> multiaddr list) \<Rightarrow>
     (conn_pool \<Rightarrow> conn_pool) \<Rightarrow> (peer_id \<Rightarrow> xs_error + peer_info option) \<Rightarrow> peer_id \<Rightarrow> conn_pool \<Rightarrow>
     ((io_error + p2p_conn) \<times> conn_pool) option" where
  "pool_connect_to obs dial r shuffle mid lookup_peer_info peer_id s =
     Option.bind (by_peer_id r s peer_id) (\<lambda>found.
       case found of
         Some conn \<Rightarrow> Some (Inr conn, s)
       | None \<Rightarrow>
           (case lookup_peer_info peer_id of
              Inl err \<Rightarrow> Some (Inl (error_to_io err), s)
            | Inr (Some peer_info) \<Rightarrow>
                (if pi_addrs peer_info = [] then Some (Inl (error_to_io PeerNotFound), s)
                 else connect_raddrs obs dial (shuffle (pi_addrs peer_info)) (mid s))
            | Inr None \<Rightarrow> Some (Inl (error_to_io PeerNotFound), s)))"

definition pool_incoming :: "conn_obs \<Rightarrow> p2p_conn \<Rightarrow> conn_pool \<Rightarrow> conn_pool option" where
  "pool_incoming obs conn s = pool_add obs conn True s"

definition pool_replace :: "conn_obs \<Rightarrow> p2p_conn \<Rightarrow> string \<Rightarrow> bool \<Rightarrow> conn_pool \<Rightarrow> conn_pool option" where
  "pool_replace obs conn replaced inbound s =
     Option.bind (pool_remove obs replaced s) (pool_add obs conn inbound)"

definition pool_close :: "conn_obs \<Rightarrow> string \<Rightarrow> conn_pool \<Rightarrow> conn_pool option" where
  "pool_close obs cid s = pool_remove obs cid s"

section \<open>The consistency guarantee\<close>

text \<open>
  \<open>pool_ok C\<close>: connections come from \<open>C\<close>, where an id names one connection; every pooled connection is
  listed once under its peer, and nothing else is listed; an address leads to a peer only while
  a connection to that peer at that address is pooled.
\<close>

definition pool_ok :: "p2p_conn set \<Rightarrow> conn_pool \<Rightarrow> bool" where
  "pool_ok C s \<longleftrightarrow> finite (dom (conns s)) \<and>
     (\<forall>cid c. conns s cid = Some c \<longrightarrow>
        c \<in> C \<and> conn_id c = cid \<and> (\<exists>ids. pool_peers s (conn_peer c) = Some ids \<and> cid \<in> set ids)) \<and>
     (\<forall>p ids. pool_peers s p = Some ids \<longrightarrow>
        ids \<noteq> [] \<and> distinct ids \<and> (\<forall>cid\<in>set ids. \<exists>c. conns s cid = Some c \<and> conn_peer c = p)) \<and>
     (\<forall>a p. raddrs s a = Some p \<longrightarrow>
        (\<exists>cid c. conns s cid = Some c \<and> conn_peer_addr c = a \<and> conn_peer c = p))"

lemma pool_okD:
  assumes "pool_ok C s"
  shows pool_ok_finite: "finite (dom (conns s))"
    and pool_ok_conn: "conns s cid = Some c \<Longrightarrow>
      c \<in> C \<and> conn_id c = cid \<and> (\<exists>ids. pool_peers s (conn_peer c) = Some ids \<and> cid \<in> set ids)"
    and pool_ok_ids: "pool_peers s p = Some ids \<Longrightarrow>
      ids \<noteq> [] \<and> distinct ids \<and> (\<forall>cid\<in>set ids. \<exists>c. conns s cid = Some c \<and> conn_peer c = p)"
    and pool_ok_addr: "raddrs s a = Some p \<Longrightarrow>
      \<exists>cid c. conns s cid = Some c \<and> conn_peer_addr c = a \<and> conn_peer c = p"
  using assms unfolding pool_ok_def by blast+

lemma pool_new_ok: "pool_ok C (pool_new n)"
  by (simp add: pool_ok_def pool_new_def)

text \<open>What \<open>remove\<close> does to a consistent pool.\<close>

definition unlist :: "string \<Rightarrow> string list \<Rightarrow> string list option" where
  "unlist cid ids = (let ids = remove1 cid ids in if ids = [] then None else Some ids)"

lemma find_remove_at:
  "(case find_index (\<lambda>v. v = cid) ids of Some index \<Rightarrow> remove_at index ids | None \<Rightarrow> ids) = remove1 cid ids"
proof (cases "find_index (\<lambda>v. v = cid) ids")
  case None
  then have "cid \<notin> set ids" by simp
  then show ?thesis unfolding None by (simp add: remove1_idem)
next
  case (Some i)
  then show ?thesis using find_index_remove_at by fastforce
qed

lemma pool_remove_absent [simp]: "conns s cid = None \<Longrightarrow> pool_remove obs cid s = Some s"
  by (simp add: pool_remove_def)

lemma pool_remove_present:
  assumes ok: "pool_ok C s" and c: "conns s cid = Some c"
  shows "\<exists>s' ids. pool_remove obs cid s = Some s' \<and> pool_peers s (conn_peer c) = Some ids \<and>
    conns s' = (conns s)(cid := None) \<and> raddrs s' = (raddrs s)(conn_peer_addr c := None) \<and>
    pool_peers s' = (pool_peers s)(conn_peer c := unlist cid ids) \<and>
    max_pool_size s' = max_pool_size s \<and>
    closing s' = closing s @ (if is_closed obs cid then [] else [cid])"
proof -
  from pool_ok_conn [OF ok c] obtain ids where "conn_id c = cid" "pool_peers s (conn_peer c) = Some ids" by blast
  then show ?thesis
    by (auto simp: pool_remove_def c Let_def find_remove_at unlist_def)
qed

lemma unlist_Some_iff: "unlist cid ids = Some xs \<longleftrightarrow> xs = remove1 cid ids \<and> xs \<noteq> []"
  by (auto simp: unlist_def Let_def)

lemma pool_remove_ok:
  assumes ok: "pool_ok C s"
  shows "\<exists>s'. pool_remove obs cid s = Some s' \<and> pool_ok C s' \<and> conns s' = (conns s)(cid := None) \<and>
    max_pool_size s' = max_pool_size s"
proof (cases "conns s cid")
  case None
  then show ?thesis using ok by auto
next
  case (Some c)
  from pool_remove_present [OF ok Some, of obs] obtain s' ids where
    r: "pool_remove obs cid s = Some s'" and ids: "pool_peers s (conn_peer c) = Some ids"
    and s': "conns s' = (conns s)(cid := None)" "raddrs s' = (raddrs s)(conn_peer_addr c := None)"
      "pool_peers s' = (pool_peers s)(conn_peer c := unlist cid ids)" "max_pool_size s' = max_pool_size s"
    by blast
  have dist: "distinct ids" using pool_ok_ids [OF ok ids] by blast
  have "pool_ok C s'"
    unfolding pool_ok_def
  proof (intro conjI allI impI)
    show "finite (dom (conns s'))" using pool_ok_finite [OF ok] s'(1) by simp
  next
    fix cid' c'
    assume c': "conns s' cid' = Some c'"
    then have ne: "cid' \<noteq> cid" and old: "conns s cid' = Some c'" using s'(1) by (auto split: if_splits)
    from pool_ok_conn [OF ok old] obtain ids' where
      k: "c' \<in> C" "conn_id c' = cid'" "pool_peers s (conn_peer c') = Some ids'" "cid' \<in> set ids'" by blast
    then show "c' \<in> C" "conn_id c' = cid'" by blast+
    show "\<exists>ids. pool_peers s' (conn_peer c') = Some ids \<and> cid' \<in> set ids"
    proof (cases "conn_peer c' = conn_peer c")
      case True
      with k ids have "cid' \<in> set (remove1 cid ids)" using ne by simp
      then have "unlist cid ids = Some (remove1 cid ids)" by (auto simp: unlist_Some_iff)
      with True s'(3) \<open>cid' \<in> set (remove1 cid ids)\<close> show ?thesis by simp
    next
      case False
      with k s'(3) show ?thesis by simp
    qed
  next
    fix p ids'
    assume p: "pool_peers s' p = Some ids'"
    have "ids' \<noteq> [] \<and> distinct ids' \<and> (\<forall>cid'\<in>set ids'. cid' \<noteq> cid \<and> (\<exists>c. conns s cid' = Some c \<and> conn_peer c = p))"
    proof (cases "p = conn_peer c")
      case True
      then have ids': "ids' = remove1 cid ids" "ids' \<noteq> []" using p s'(3) by (auto simp: unlist_Some_iff)
      then have "set ids' = set ids - {cid}" "distinct ids'" using dist by simp_all
      with pool_ok_ids [OF ok ids] True ids'(2) show ?thesis by blast
    next
      case False
      then have "pool_peers s p = Some ids'" using p s'(3) by simp
      note I = pool_ok_ids [OF ok this]
      have "cid \<notin> set ids'"
      proof
        assume "cid \<in> set ids'"
        with I obtain c' where "conns s cid = Some c'" "conn_peer c' = p" by blast
        with Some False show False by simp
      qed
      with I show ?thesis by blast
    qed
    note I = this
    show "ids' \<noteq> []" "distinct ids'" using I by blast+
    show "\<forall>cid\<in>set ids'. \<exists>c. conns s' cid = Some c \<and> conn_peer c = p"
    proof
      fix x assume "x \<in> set ids'"
      with I have "x \<noteq> cid" "\<exists>c. conns s x = Some c \<and> conn_peer c = p" by blast+
      then show "\<exists>c. conns s' x = Some c \<and> conn_peer c = p" using s'(1) by simp
    qed
  next
    fix a p
    assume a: "raddrs s' a = Some p"
    then have ne: "a \<noteq> conn_peer_addr c" and "raddrs s a = Some p" using s'(2) by (auto split: if_splits)
    from pool_ok_addr [OF ok this(2)] obtain x d where
      d: "conns s x = Some d" "conn_peer_addr d = a" "conn_peer d = p" by blast
    with ne Some have "x \<noteq> cid" by auto
    with d s'(1) have "conns s' x = Some d" by simp
    with d show "\<exists>cid c. conns s' cid = Some c \<and> conn_peer_addr c = a \<and> conn_peer c = p" by blast
  qed
  with r s' show ?thesis by blast
qed

lemma remove_each_ok:
  "pool_ok C s \<Longrightarrow> \<exists>s'. remove_each obs cids s = Some s' \<and> pool_ok C s' \<and>
     conns s' = (conns s) |` (- set cids) \<and> max_pool_size s' = max_pool_size s"
proof (induction cids arbitrary: s)
  case Nil
  then show ?case by simp
next
  case (Cons cid cids)
  from pool_remove_ok [OF Cons.prems, of obs cid] obtain s1 where
    s1: "pool_remove obs cid s = Some s1" "pool_ok C s1" "conns s1 = (conns s)(cid := None)" "max_pool_size s1 = max_pool_size s"
    by blast
  from Cons.IH [OF s1(2)] obtain s' where
    "remove_each obs cids s1 = Some s'" "pool_ok C s'" "conns s' = (conns s1) |` (- set cids)" "max_pool_size s' = max_pool_size s1"
    by blast
  moreover have "((conns s)(cid := None)) |` (- set cids) = (conns s) |` (- set (cid # cids))"
    by (auto simp: restrict_map_def fun_eq_iff)
  ultimately show ?case using s1 by auto
qed

text \<open>The ids that \<open>check_limits\<close> drops: when the pool is over its size, all that are closed or idle.\<close>

definition dropped :: "conn_obs \<Rightarrow> conn_pool \<Rightarrow> string set" where
  "dropped obs s =
     (if card (dom (conns s)) > max_pool_size s
      then {cid \<in> set (conn_order obs). is_closed obs cid \<or> actives obs cid = 0} else {})"

lemma check_limits_ok:
  assumes "pool_ok C s"
  shows "\<exists>s'. check_limits obs s = Some s' \<and> pool_ok C s' \<and> conns s' = (conns s) |` (- dropped obs s) \<and>
    max_pool_size s' = max_pool_size s"
proof (cases "card (dom (conns s)) > max_pool_size s")
  case True
  have "set (filter (\<lambda>cid. is_closed obs cid \<or> actives obs cid = 0) (conn_order obs)) = dropped obs s"
    using True by (auto simp: dropped_def)
  with True remove_each_ok [OF assms, of obs "filter (\<lambda>cid. is_closed obs cid \<or> actives obs cid = 0) (conn_order obs)"]
  show ?thesis by (simp add: check_limits_def)
next
  case False
  then have "dropped obs s = {}" by (simp add: dropped_def)
  with False assms show ?thesis by (simp add: check_limits_def restrict_map_def)
qed

lemma insert_conn_ok:
  assumes ok: "pool_ok C s" and c: "c \<in> C" and new: "conns s (conn_id c) = None"
    and s': "conns s' = (conns s)(conn_id c \<mapsto> c)"
      "raddrs s' = (if inbound then raddrs s else (raddrs s)(conn_peer_addr c \<mapsto> conn_peer c))"
      "pool_peers s' = (pool_peers s)(conn_peer c \<mapsto>
         (case pool_peers s (conn_peer c) of Some ids \<Rightarrow> ids @ [conn_id c] | None \<Rightarrow> [conn_id c]))"
  shows "pool_ok C s'"
  unfolding pool_ok_def
proof (intro conjI allI impI)
  show "finite (dom (conns s'))" using pool_ok_finite [OF ok] s'(1) by simp
next
  fix cid' c'
  assume c': "conns s' cid' = Some c'"
  show "c' \<in> C" using c c' s'(1) pool_ok_conn [OF ok, of cid' c'] by (auto split: if_splits)
  show "conn_id c' = cid'" using c' s'(1) pool_ok_conn [OF ok, of cid' c'] by (auto split: if_splits)
  show "\<exists>ids. pool_peers s' (conn_peer c') = Some ids \<and> cid' \<in> set ids"
    using c' s'(1,3) pool_ok_conn [OF ok, of cid' c'] by (auto split: if_splits option.splits)
next
  fix p ids
  assume p: "pool_peers s' p = Some ids"
  have old: "conn_id c \<notin> set ids' \<and> distinct ids' \<and> ids' \<noteq> [] \<and> (\<forall>x\<in>set ids'. \<exists>d. conns s' x = Some d \<and> conn_peer d = q)"
    if "pool_peers s q = Some ids'" for q ids'
  proof -
    note I = pool_ok_ids [OF ok that]
    then have fresh: "conn_id c \<notin> set ids'" using new by fastforce
    have "\<exists>d. conns s' x = Some d \<and> conn_peer d = q" if "x \<in> set ids'" for x
    proof -
      from I that have "\<exists>d. conns s x = Some d \<and> conn_peer d = q" by blast
      moreover have "x \<noteq> conn_id c" using that fresh by blast
      ultimately show ?thesis using s'(1) by simp
    qed
    with I fresh show ?thesis by blast
  qed
  have "ids \<noteq> [] \<and> distinct ids \<and> (\<forall>x\<in>set ids. \<exists>d. conns s' x = Some d \<and> conn_peer d = p)"
  proof (cases "p = conn_peer c")
    case False
    then have "pool_peers s p = Some ids" using p s'(3) by simp
    from old [OF this] show ?thesis by blast
  next
    case True
    have here: "\<exists>d. conns s' (conn_id c) = Some d \<and> conn_peer d = p" using True s'(1) by simp
    show ?thesis
    proof (cases "pool_peers s (conn_peer c)")
      case None
      then have "ids = [conn_id c]" using p s'(3) True by simp
      with here show ?thesis by simp
    next
      case (Some ids')
      then have "ids = ids' @ [conn_id c]" using p s'(3) True by simp
      with here old [OF Some] True show ?thesis by simp
    qed
  qed
  then show "ids \<noteq> []" "distinct ids" "\<forall>cid\<in>set ids. \<exists>c. conns s' cid = Some c \<and> conn_peer c = p"
    by blast+
next
  fix a p
  assume a: "raddrs s' a = Some p"
  show "\<exists>cid c. conns s' cid = Some c \<and> conn_peer_addr c = a \<and> conn_peer c = p"
  proof (cases "raddrs s a = Some p")
    case True
    from pool_ok_addr [OF ok this] obtain x d where
      d: "conns s x = Some d" "conn_peer_addr d = a" "conn_peer d = p" by blast
    with new have "x \<noteq> conn_id c" by auto
    with d s'(1) have "conns s' x = Some d" by simp
    with d show ?thesis by blast
  next
    case False
    with a s'(2) have "a = conn_peer_addr c" "p = conn_peer c" by (auto split: if_splits)
    with s'(1) show ?thesis by auto
  qed
qed

lemma pool_add_ok:
  assumes ok: "pool_ok C s" and c: "c \<in> C" and ids: "inj_on conn_id C"
  shows "\<exists>s'. pool_add obs c inbound s = Some s' \<and> pool_ok C s' \<and>
    conns s' = ((conns s) |` (- dropped obs s))(conn_id c \<mapsto> c) \<and> max_pool_size s' = max_pool_size s"
proof -
  from check_limits_ok [OF ok, of obs] obtain s1 where
    s1: "check_limits obs s = Some s1" "pool_ok C s1" "conns s1 = (conns s) |` (- dropped obs s)" "max_pool_size s1 = max_pool_size s"
    by blast
  show ?thesis
  proof (cases "conns s1 (conn_id c)")
    case None
    let ?s2 = "s1\<lparr>conns := (conns s1)(conn_id c \<mapsto> c)\<rparr>"
    let ?s3 = "if \<not> inbound then ?s2\<lparr>raddrs := (raddrs ?s2)(conn_peer_addr c \<mapsto> conn_peer c)\<rparr> else ?s2"
    let ?s4 = "case pool_peers ?s3 (conn_peer c) of
        Some ids \<Rightarrow> ?s3\<lparr>pool_peers := (pool_peers ?s3)(conn_peer c \<mapsto> ids @ [conn_id c])\<rparr>
      | None \<Rightarrow> ?s3\<lparr>pool_peers := (pool_peers ?s3)(conn_peer c \<mapsto> [conn_id c])\<rparr>"
    have "pool_add obs c inbound s = Some ?s4"
      using None by (simp add: pool_add_def s1(1) Let_def)
    moreover have "conns ?s4 = (conns s1)(conn_id c \<mapsto> c)" by (simp split: option.split)
    moreover have "max_pool_size ?s4 = max_pool_size s1" by (simp split: option.split)
    moreover have "pool_ok C ?s4"
      by (rule insert_conn_ok [where inbound = inbound, OF s1(2) c None]) (simp_all split: option.split)
    ultimately show ?thesis using s1(3,4) by auto
  next
    case (Some c')
    with pool_ok_conn [OF s1(2) Some] have "c' = c" using ids c by (auto dest: inj_onD)
    then have "(conns s1)(conn_id c \<mapsto> c) = conns s1" using Some by auto
    then have "s1\<lparr>conns := (conns s1)(conn_id c \<mapsto> c)\<rparr> = s1" by simp
    then have "pool_add obs c inbound s = Some s1"
      using Some by (simp add: pool_add_def s1(1) Let_def)
    then show ?thesis using s1 Some \<open>(conns s1)(conn_id c \<mapsto> c) = conns s1\<close> by auto
  qed
qed

lemma by_peer_id_ok:
  assumes ok: "pool_ok C s"
  shows "\<exists>found. by_peer_id r s p = Some found \<and>
    (case found of Some c \<Rightarrow> conns s (conn_id c) = Some c \<and> conn_peer c = p
     | None \<Rightarrow> pool_peers s p = None)"
proof (cases "pool_peers s p")
  case None
  then show ?thesis by (simp add: by_peer_id_def)
next
  case (Some ids)
  note I = pool_ok_ids [OF ok Some]
  then have "choose_one r ids \<noteq> None" by simp
  then obtain cid where cid: "choose_one r ids = Some cid" by blast
  then have "cid \<in> set ids" by (rule choose_one_in)
  with I obtain c where "conns s cid = Some c" "conn_peer c = p" by blast
  moreover from this have "conn_id c = cid" using pool_ok_conn [OF ok] by blast
  ultimately show ?thesis using Some cid by (simp add: by_peer_id_def)
qed

lemma by_raddr_eq:
  assumes ok: "pool_ok C s"
  shows "by_raddr r s a = (case raddrs s a of Some p \<Rightarrow> by_peer_id r s p | None \<Rightarrow> Some None)"
  by (simp add: by_raddr_def by_peer_id_def split: option.split)

text \<open>No connection to a peer is found only when none is pooled.\<close>

lemma no_conn_iff:
  assumes ok: "pool_ok C s"
  shows "pool_peers s p = None \<longleftrightarrow> (\<forall>cid c. conns s cid = Some c \<longrightarrow> conn_peer c \<noteq> p)"
proof
  assume "pool_peers s p = None"
  then show "\<forall>cid c. conns s cid = Some c \<longrightarrow> conn_peer c \<noteq> p" using pool_ok_conn [OF ok] by fastforce
next
  assume none: "\<forall>cid c. conns s cid = Some c \<longrightarrow> conn_peer c \<noteq> p"
  show "pool_peers s p = None"
  proof (rule ccontr)
    assume "pool_peers s p \<noteq> None"
    then obtain ids where ids: "pool_peers s p = Some ids" by blast
    with pool_ok_ids [OF ok ids] obtain cid where "cid \<in> set ids" by (cases ids) auto
    with pool_ok_ids [OF ok ids] none show False by blast
  qed
qed

lemma by_raddr_ok:
  assumes ok: "pool_ok C s"
  shows "\<exists>found. by_raddr r s a = Some found \<and>
    (case found of Some c \<Rightarrow> conns s (conn_id c) = Some c \<and> raddrs s a = Some (conn_peer c)
     | None \<Rightarrow> raddrs s a = None)"
proof (cases "raddrs s a")
  case None
  then show ?thesis by (simp add: by_raddr_def)
next
  case (Some p)
  have "pool_peers s p \<noteq> None" using pool_ok_addr [OF ok Some] no_conn_iff [OF ok] by blast
  with by_peer_id_ok [OF ok, of r p] Some show ?thesis
    by (auto simp: by_raddr_eq [OF ok] split: option.splits)
qed


section \<open>The interface \<open>DriverConnector\<close>\<close>

text \<open>\<open>has s c\<close>: the driver holds \<open>c\<close>. A lookup by peer finds a held connection of that peer if there is one.\<close>

locale connector_driver =
  fixes host :: "p2p_conn \<Rightarrow> 's \<Rightarrow> 's option"
    and drop_conn :: "string \<Rightarrow> 's \<Rightarrow> 's option"
    and find_conn :: "peer_id \<Rightarrow> 's \<Rightarrow> p2p_conn option option"
    and has :: "'s \<Rightarrow> p2p_conn \<Rightarrow> bool"
    and ok :: "'s \<Rightarrow> bool"
    and fits :: "p2p_conn \<Rightarrow> bool"
  assumes host_law: "ok s \<Longrightarrow> fits c \<Longrightarrow> \<exists>s'. host c s = Some s' \<and> ok s' \<and> has s' c"
    and drop_law: "ok s \<Longrightarrow> \<exists>s'. drop_conn cid s = Some s' \<and> ok s' \<and> (\<forall>c. has s' c \<longleftrightarrow> has s c \<and> conn_id c \<noteq> cid)"
    and find_law: "ok s \<Longrightarrow> \<exists>found. find_conn p s = Some found \<and>
      (case found of Some c \<Rightarrow> has s c \<and> conn_peer c = p | None \<Rightarrow> (\<forall>c. has s c \<longrightarrow> conn_peer c \<noteq> p))"
begin

lemma host_then_find:
  assumes "ok s" and "fits c"
  shows "\<exists>s' d. host c s = Some s' \<and> ok s' \<and> find_conn (conn_peer c) s' = Some (Some d) \<and> conn_peer d = conn_peer c"
proof -
  from host_law [OF assms] obtain s' where s': "host c s = Some s'" "ok s'" "has s' c" by blast
  from find_law [OF s'(2), of "conn_peer c"] obtain found where
    f: "find_conn (conn_peer c) s' = Some found" and
    k: "case found of Some d \<Rightarrow> has s' d \<and> conn_peer d = conn_peer c | None \<Rightarrow> (\<forall>d. has s' d \<longrightarrow> conn_peer d \<noteq> conn_peer c)"
    by blast
  show ?thesis
  proof (cases found)
    case None
    then have False using k s'(3) by auto
    then show ?thesis ..
  next
    case (Some d)
    with k f s' show ?thesis by auto
  qed
qed

lemma dropped_never_found:
  assumes "ok s"
  shows "\<exists>s'. drop_conn cid s = Some s' \<and> ok s' \<and> (\<forall>d. find_conn p s' = Some (Some d) \<longrightarrow> conn_id d \<noteq> cid)"
proof -
  from drop_law [OF assms, of cid] obtain s' where s': "drop_conn cid s = Some s'" "ok s'"
    and h: "\<forall>c. has s' c \<longleftrightarrow> has s c \<and> conn_id c \<noteq> cid" by blast
  have "conn_id d \<noteq> cid" if "find_conn p s' = Some (Some d)" for d
  proof -
    from find_law [OF s'(2), of p] that have "has s' d" by auto
    with h show ?thesis by blast
  qed
  with s' show ?thesis by blast
qed

end

definition pool_good :: "p2p_conn set \<Rightarrow> conn_pool \<Rightarrow> bool" where
  "pool_good C s \<longleftrightarrow> inj_on conn_id C \<and> pool_ok C s"

definition holds_conn :: "conn_pool \<Rightarrow> p2p_conn \<Rightarrow> bool" where
  "holds_conn s c \<longleftrightarrow> conns s (conn_id c) = Some c"

lemma pool_find_law:
  assumes "pool_ok C s"
  shows "\<exists>found. by_peer_id r s p = Some found \<and>
     (case found of Some c \<Rightarrow> holds_conn s c \<and> conn_peer c = p | None \<Rightarrow> (\<forall>c. holds_conn s c \<longrightarrow> conn_peer c \<noteq> p))"
proof -
  from by_peer_id_ok [OF assms, of r p] obtain found where
    f: "by_peer_id r s p = Some found" and
    k: "case found of Some c \<Rightarrow> conns s (conn_id c) = Some c \<and> conn_peer c = p | None \<Rightarrow> pool_peers s p = None"
    by blast
  with no_conn_iff [OF assms, of p] show ?thesis by (cases found) (auto simp: holds_conn_def)
qed

interpretation cp: connector_driver
    "pool_incoming obs" "pool_close obs" "\<lambda>p s. by_peer_id r s p" holds_conn "pool_good C" "\<lambda>c. c \<in> C"
  for obs r C
proof unfold_locales
  fix s :: conn_pool and c
  assume "pool_good C s" "c \<in> C"
  then show "\<exists>s'. pool_incoming obs c s = Some s' \<and> pool_good C s' \<and> holds_conn s' c"
    using pool_add_ok [of C s c obs True] by (auto simp: pool_good_def pool_incoming_def holds_conn_def)
next
  fix s :: conn_pool and cid
  assume good: "pool_good C s"
  then obtain s' where s': "pool_remove obs cid s = Some s'" "pool_ok C s'" "conns s' = (conns s)(cid := None)"
    using pool_remove_ok [of C s obs cid] by (auto simp: pool_good_def)
  then have "\<forall>c. holds_conn s' c \<longleftrightarrow> holds_conn s c \<and> conn_id c \<noteq> cid" by (auto simp: holds_conn_def)
  with s' good show "\<exists>s'. pool_close obs cid s = Some s' \<and> pool_good C s' \<and>
      (\<forall>c. holds_conn s' c \<longleftrightarrow> holds_conn s c \<and> conn_id c \<noteq> cid)"
    by (auto simp: pool_close_def pool_good_def)
next
  fix s :: conn_pool and p
  assume "pool_good C s"
  then show "\<exists>found. by_peer_id r s p = Some found \<and>
      (case found of Some c \<Rightarrow> holds_conn s c \<and> conn_peer c = p | None \<Rightarrow> (\<forall>c. holds_conn s c \<longrightarrow> conn_peer c \<noteq> p))"
    by (intro pool_find_law [of C]) (simp add: pool_good_def)
qed

section \<open>Properties of the pool\<close>

text \<open>The calls that lock the pool, each with what it observes of the connections.\<close>

datatype pool_call =
    AddInbound conn_obs p2p_conn
  | AddOutbound conn_obs p2p_conn
  | ReplaceConn conn_obs p2p_conn string bool
  | CloseConn conn_obs string

fun pool_do :: "pool_call \<Rightarrow> conn_pool \<Rightarrow> conn_pool option" where
  "pool_do (AddInbound obs c) s = pool_incoming obs c s"
| "pool_do (AddOutbound obs c) s = pool_add obs c False s"
| "pool_do (ReplaceConn obs c cid inbound) s = pool_replace obs c cid inbound s"
| "pool_do (CloseConn obs cid) s = pool_close obs cid s"

fun call_conns :: "pool_call \<Rightarrow> p2p_conn set" where
  "call_conns (AddInbound obs c) = {c}"
| "call_conns (AddOutbound obs c) = {c}"
| "call_conns (ReplaceConn obs c cid inbound) = {c}"
| "call_conns (CloseConn obs cid) = {}"

fun pool_run :: "pool_call list \<Rightarrow> conn_pool \<Rightarrow> conn_pool option" where
  "pool_run [] s = Some s"
| "pool_run (x # xs) s = Option.bind (pool_do x s) (pool_run xs)"

lemma pool_do_ok:
  assumes "pool_ok C s" and "call_conns x \<subseteq> C" and "inj_on conn_id C"
  shows "\<exists>s'. pool_do x s = Some s' \<and> pool_ok C s' \<and> max_pool_size s' = max_pool_size s"
proof (cases x)
  case (AddInbound obs c)
  then show ?thesis using pool_add_ok [OF assms(1) _ assms(3), of c obs True] assms(2) by (auto simp: pool_incoming_def)
next
  case (AddOutbound obs c)
  then show ?thesis using pool_add_ok [OF assms(1) _ assms(3), of c obs False] assms(2) by auto
next
  case (ReplaceConn obs c cid inbound)
  from pool_remove_ok [OF assms(1), of obs cid] obtain s1 where
    s1: "pool_remove obs cid s = Some s1" "pool_ok C s1" "max_pool_size s1 = max_pool_size s" by blast
  with ReplaceConn show ?thesis
    using pool_add_ok [OF s1(2) _ assms(3), of c obs inbound] assms(2) by (auto simp: pool_replace_def)
next
  case (CloseConn obs cid)
  then show ?thesis using pool_remove_ok [OF assms(1), of obs cid] by (auto simp: pool_close_def)
qed

lemma pool_run_ok:
  "pool_ok C s \<Longrightarrow> \<forall>x\<in>set xs. call_conns x \<subseteq> C \<Longrightarrow> inj_on conn_id C \<Longrightarrow>
     \<exists>s'. pool_run xs s = Some s' \<and> pool_ok C s' \<and> max_pool_size s' = max_pool_size s"
proof (induction xs arbitrary: s)
  case (Cons x xs)
  from pool_do_ok [OF Cons.prems(1) _ Cons.prems(3), of x] Cons.prems(2) obtain s1 where
    "pool_do x s = Some s1" "pool_ok C s1" "max_pool_size s1 = max_pool_size s" by auto
  moreover from Cons.IH [OF this(2)] Cons.prems(2,3) this(3) obtain s' where
    "pool_run xs s1 = Some s'" "pool_ok C s'" "max_pool_size s' = max_pool_size s1" by auto
  ultimately show ?case by auto
qed simp

text \<open>
  The index of addresses against the history of the calls, without the index itself. \<open>gone x s\<close> are the
  ids that the call \<open>x\<close> takes out of the pool; \<open>last_reached\<close> follows the calls: an address leads
  to the peer of the last outbound connection that came into the pool with it, until a pooled
  connection with that address is taken out.
\<close>

fun gone :: "pool_call \<Rightarrow> conn_pool \<Rightarrow> string set" where
  "gone (AddInbound obs c) s = dropped obs s"
| "gone (AddOutbound obs c) s = dropped obs s"
| "gone (ReplaceConn obs c cid inbound) s = insert cid (dropped obs (s\<lparr>conns := (conns s)(cid := None)\<rparr>))"
| "gone (CloseConn obs cid) s = {cid}"

fun outbound_of :: "pool_call \<Rightarrow> p2p_conn option" where
  "outbound_of (AddOutbound obs c) = Some c"
| "outbound_of (ReplaceConn obs c cid inbound) = (if inbound then None else Some c)"
| "outbound_of _ = None"

definition forget_addrs :: "string set \<Rightarrow> conn_pool \<Rightarrow> (multiaddr \<rightharpoonup> peer_id) \<Rightarrow> multiaddr \<rightharpoonup> peer_id" where
  "forget_addrs ids s m a =
     (if \<exists>cid\<in>ids. \<exists>d. conns s cid = Some d \<and> conn_peer_addr d = a then None else m a)"

definition reach_after :: "pool_call \<Rightarrow> conn_pool \<Rightarrow> (multiaddr \<rightharpoonup> peer_id) \<Rightarrow> multiaddr \<rightharpoonup> peer_id" where
  "reach_after x s m =
     (case outbound_of x of
        Some c \<Rightarrow>
          (if conns s (conn_id c) = None \<or> conn_id c \<in> gone x s
           then (forget_addrs (gone x s) s m)(conn_peer_addr c \<mapsto> conn_peer c)
           else forget_addrs (gone x s) s m)
      | None \<Rightarrow> forget_addrs (gone x s) s m)"

fun last_reached :: "pool_call list \<Rightarrow> conn_pool \<Rightarrow> (multiaddr \<rightharpoonup> peer_id) \<Rightarrow> multiaddr \<rightharpoonup> peer_id" where
  "last_reached [] s m = m"
| "last_reached (x # xs) s m =
     (case pool_do x s of Some s' \<Rightarrow> last_reached xs s' (reach_after x s m) | None \<Rightarrow> m)"

lemma pool_remove_raddrs:
  assumes "pool_ok C s" and "pool_remove obs cid s = Some s'"
  shows "raddrs s' = forget_addrs {cid} s (raddrs s)"
proof (cases "conns s cid")
  case None
  then show ?thesis using assms(2) by (simp add: forget_addrs_def fun_eq_iff)
next
  case (Some c)
  from pool_remove_present [OF assms(1) Some, of obs] assms(2)
  have "raddrs s' = (raddrs s)(conn_peer_addr c := None)" by auto
  with Some show ?thesis by (auto simp: forget_addrs_def fun_eq_iff)
qed

lemma forget_addrs_seq:
  assumes "conns s1 = (conns s)(cid := None)"
  shows "forget_addrs A s1 (forget_addrs {cid} s m) = forget_addrs (insert cid A) s m"
  using assms by (auto simp: forget_addrs_def fun_eq_iff)

lemma remove_each_raddrs:
  "pool_ok C s \<Longrightarrow> remove_each obs cids s = Some s' \<Longrightarrow> raddrs s' = forget_addrs (set cids) s (raddrs s)"
proof (induction cids arbitrary: s)
  case Nil
  then show ?case by (simp add: forget_addrs_def fun_eq_iff)
next
  case (Cons cid cids)
  from pool_remove_ok [OF Cons.prems(1), of obs cid] obtain s1 where
    s1: "pool_remove obs cid s = Some s1" "pool_ok C s1" "conns s1 = (conns s)(cid := None)" by blast
  then have "remove_each obs cids s1 = Some s'" using Cons.prems(2) by simp
  from Cons.IH [OF s1(2) this] pool_remove_raddrs [OF Cons.prems(1) s1(1)] forget_addrs_seq [OF s1(3)]
  show ?case by simp
qed

lemma check_limits_raddrs:
  assumes "pool_ok C s" and "check_limits obs s = Some s'"
  shows "raddrs s' = forget_addrs (dropped obs s) s (raddrs s)"
proof (cases "card (dom (conns s)) > max_pool_size s")
  case True
  let ?ids = "filter (\<lambda>cid. is_closed obs cid \<or> actives obs cid = 0) (conn_order obs)"
  have "set ?ids = dropped obs s" using True by (auto simp: dropped_def)
  with True assms remove_each_raddrs [OF assms(1), of obs ?ids s'] show ?thesis by (simp add: check_limits_def)
next
  case False
  then show ?thesis using assms(2) by (simp add: check_limits_def dropped_def forget_addrs_def fun_eq_iff)
qed

lemma pool_add_raddrs:
  assumes "pool_ok C s" and "pool_add obs c inbound s = Some s'"
  shows "raddrs s' =
    (if \<not> inbound \<and> (conns s (conn_id c) = None \<or> conn_id c \<in> dropped obs s)
     then (forget_addrs (dropped obs s) s (raddrs s))(conn_peer_addr c \<mapsto> conn_peer c)
     else forget_addrs (dropped obs s) s (raddrs s))"
proof -
  from check_limits_ok [OF assms(1), of obs] obtain s1 where
    s1: "check_limits obs s = Some s1" "conns s1 = (conns s) |` (- dropped obs s)" by blast
  have "conns s1 (conn_id c) = None \<longleftrightarrow> conns s (conn_id c) = None \<or> conn_id c \<in> dropped obs s"
    by (auto simp: s1(2) restrict_map_def)
  with assms(2) s1(1) check_limits_raddrs [OF assms(1) s1(1)] show ?thesis
    by (auto simp: pool_add_def Let_def split: option.splits if_splits)
qed

lemma pool_do_raddrs:
  assumes "pool_ok C s" and "pool_do x s = Some s'"
  shows "raddrs s' = reach_after x s (raddrs s)"
proof (cases x)
  case (AddInbound obs c)
  with assms pool_add_raddrs [OF assms(1), of obs c True s'] show ?thesis by (simp add: reach_after_def pool_incoming_def)
next
  case (AddOutbound obs c)
  with assms pool_add_raddrs [OF assms(1), of obs c False s'] show ?thesis by (simp add: reach_after_def)
next
  case (ReplaceConn obs c cid inbound)
  from pool_remove_ok [OF assms(1), of obs cid] obtain s1 where
    s1: "pool_remove obs cid s = Some s1" "pool_ok C s1" "conns s1 = (conns s)(cid := None)"
      "max_pool_size s1 = max_pool_size s" by blast
  have add: "pool_add obs c inbound s1 = Some s'" using ReplaceConn assms(2) s1(1) by (simp add: pool_replace_def)
  have "dropped obs s1 = dropped obs (s\<lparr>conns := (conns s)(cid := None)\<rparr>)" using s1(3,4) by (simp add: dropped_def)
  moreover have "conns s1 (conn_id c) = None \<longleftrightarrow> conns s (conn_id c) = None \<or> conn_id c = cid" using s1(3) by auto
  ultimately show ?thesis
    using pool_add_raddrs [OF s1(2) add] pool_remove_raddrs [OF assms(1) s1(1)] forget_addrs_seq [OF s1(3)] ReplaceConn
    by (auto simp: reach_after_def)
next
  case (CloseConn obs cid)
  with assms pool_remove_raddrs [OF assms(1), of obs cid s'] show ?thesis by (simp add: reach_after_def pool_close_def)
qed

lemma pool_run_raddrs:
  "pool_ok C s \<Longrightarrow> \<forall>x\<in>set xs. call_conns x \<subseteq> C \<Longrightarrow> inj_on conn_id C \<Longrightarrow> pool_run xs s = Some s' \<Longrightarrow>
     raddrs s' = last_reached xs s (raddrs s)"
proof (induction xs arbitrary: s)
  case (Cons x xs)
  from pool_do_ok [OF Cons.prems(1) _ Cons.prems(3), of x] Cons.prems(2) obtain s1 where
    s1: "pool_do x s = Some s1" "pool_ok C s1" by auto
  with Cons.prems(4) have "pool_run xs s1 = Some s'" by simp
  with Cons.IH [OF s1(2) _ Cons.prems(3)] Cons.prems(2) pool_do_raddrs [OF Cons.prems(1) s1(1)] s1(1)
  show ?case by simp
qed simp

text \<open>C3: The consistency guarantee holds. Whatever sequence of calls locks the pool, with ids that name
  one connection each, none of them panics, and afterwards neither do the lookups. By peer they
  find a pooled connection of that peer exactly when one is pooled. By address they find a pooled
  connection of the peer that was last reached there, and nothing when there is none: that
  is the peer of the last outbound connection that the calls brought into the pool with this peer address,
  unless some pooled connection with this address has been taken out of the pool since.\<close>

theorem pool_consistent:
  assumes "inj_on conn_id C" and "\<forall>x\<in>set xs. call_conns x \<subseteq> C"
  shows "\<exists>s. pool_run xs (pool_new n) = Some s \<and>
    (\<forall>r p. \<exists>found. by_peer_id r s p = Some found \<and>
      (case found of Some c \<Rightarrow> conns s (conn_id c) = Some c \<and> conn_peer c = p
       | None \<Rightarrow> (\<forall>cid c. conns s cid = Some c \<longrightarrow> conn_peer c \<noteq> p))) \<and>
    (\<forall>r a. \<exists>found. by_raddr r s a = Some found \<and>
      (case found of
         Some c \<Rightarrow> conns s (conn_id c) = Some c \<and> last_reached xs (pool_new n) Map.empty a = Some (conn_peer c)
       | None \<Rightarrow> last_reached xs (pool_new n) Map.empty a = None)) \<and>
    raddrs s = last_reached xs (pool_new n) Map.empty"
proof -
  from pool_run_ok [OF pool_new_ok assms(2,1), of n] obtain s where
    s: "pool_run xs (pool_new n) = Some s" and ok: "pool_ok C s" by blast
  have index: "raddrs s = last_reached xs (pool_new n) Map.empty"
    using pool_run_raddrs [OF pool_new_ok assms(2,1) s] by (simp add: pool_new_def)
  have "\<exists>found. by_peer_id r s p = Some found \<and>
      (case found of Some c \<Rightarrow> conns s (conn_id c) = Some c \<and> conn_peer c = p
       | None \<Rightarrow> (\<forall>cid c. conns s cid = Some c \<longrightarrow> conn_peer c \<noteq> p))" for r p
  proof -
    from by_peer_id_ok [OF ok, of r p] obtain found where
      f: "by_peer_id r s p = Some found" and
      k: "case found of Some c \<Rightarrow> conns s (conn_id c) = Some c \<and> conn_peer c = p | None \<Rightarrow> pool_peers s p = None"
      by blast
    with no_conn_iff [OF ok, of p] show ?thesis by (cases found) auto
  qed
  moreover have "\<exists>found. by_raddr r s a = Some found \<and>
      (case found of
         Some c \<Rightarrow> conns s (conn_id c) = Some c \<and> last_reached xs (pool_new n) Map.empty a = Some (conn_peer c)
       | None \<Rightarrow> last_reached xs (pool_new n) Map.empty a = None)" for r a
    using by_raddr_ok [OF ok, of r a] unfolding index .
  ultimately show ?thesis using s index by blast
qed

definition conn_a :: p2p_conn where
  "conn_a = \<lparr>conn_id = ''a'', conn_peer = PeerId 1, conn_peer_addr = [Ip4 1, Tcp 80], conn_local_addr = [], conn_relay = False\<rparr>"

definition conn_b :: p2p_conn where
  "conn_b = \<lparr>conn_id = ''b'', conn_peer = PeerId 2, conn_peer_addr = [Ip4 2, Tcp 80], conn_local_addr = [], conn_relay = False\<rparr>"

text \<open>Observations: nothing closed and nothing active; everything closed.\<close>

definition all_idle :: conn_obs where
  "all_idle = \<lparr>is_closed = (\<lambda>_. False), actives = (\<lambda>_. 0), conn_order = [''a'', ''b'']\<rparr>"

definition all_closed :: conn_obs where
  "all_closed = \<lparr>is_closed = (\<lambda>_. True), actives = (\<lambda>_. 0), conn_order = [''a'', ''b'']\<rparr>"

text \<open>Two dials to the same address that reach different peers: the address leads to the second.\<close>

definition conn_moved :: p2p_conn where
  "conn_moved = \<lparr>conn_id = ''c'', conn_peer = PeerId 3, conn_peer_addr = [Ip4 1, Tcp 80], conn_local_addr = [], conn_relay = False\<rparr>"

theorem pool_consistent_witness:
  "\<exists>s. pool_run [AddOutbound all_idle conn_a, AddInbound all_idle conn_b, AddOutbound all_idle conn_moved] (pool_new 20) = Some s \<and>
     (\<forall>r p. \<exists>found. by_peer_id r s p = Some found) \<and>
     (\<forall>r. \<exists>c. by_raddr r s [Ip4 1, Tcp 80] = Some (Some c) \<and> conns s (conn_id c) = Some c \<and> conn_peer c = PeerId 3)"
proof -
  define xs where "xs = [AddOutbound all_idle conn_a, AddInbound all_idle conn_b, AddOutbound all_idle conn_moved]"
  have ids: "inj_on conn_id {conn_a, conn_b, conn_moved}" by (simp add: conn_a_def conn_b_def conn_moved_def inj_on_def)
  have mem: "\<forall>x\<in>set xs. call_conns x \<subseteq> {conn_a, conn_b, conn_moved}" by (simp add: xs_def)
  have last: "last_reached xs (pool_new 20) Map.empty [Ip4 1, Tcp 80] = Some (PeerId 3)"
    by (simp add: xs_def pool_incoming_def pool_add_def check_limits_def pool_new_def reach_after_def conn_a_def conn_b_def
        conn_moved_def Let_def)
  from pool_consistent [OF ids mem, of 20] obtain s where
    s: "pool_run xs (pool_new 20) = Some s" and
    P: "\<forall>r p. \<exists>found. by_peer_id r s p = Some found \<and>
      (case found of Some c \<Rightarrow> conns s (conn_id c) = Some c \<and> conn_peer c = p
       | None \<Rightarrow> (\<forall>cid c. conns s cid = Some c \<longrightarrow> conn_peer c \<noteq> p))" and
    A: "\<forall>r a. \<exists>found. by_raddr r s a = Some found \<and>
      (case found of
         Some c \<Rightarrow> conns s (conn_id c) = Some c \<and> last_reached xs (pool_new 20) Map.empty a = Some (conn_peer c)
       | None \<Rightarrow> last_reached xs (pool_new 20) Map.empty a = None)"
    by (elim exE conjE)
  have "\<exists>c. by_raddr r s [Ip4 1, Tcp 80] = Some (Some c) \<and> conns s (conn_id c) = Some c \<and> conn_peer c = PeerId 3" for r
    using A [rule_format, of r "[Ip4 1, Tcp 80]"] last by (auto split: option.splits)
  moreover have "\<exists>found. by_peer_id r s p = Some found" for r p using P by blast
  ultimately show ?thesis using s unfolding xs_def by blast
qed

text \<open>Eviction. Taking in an incoming connection never panics; afterwards the connection is pooled,
  and of those pooled before, none that is open and has an active stream is gone, nor any at all
  while the pool was within its size.\<close>

theorem incoming_keeps_active:
  assumes "inj_on conn_id C" and "pool_ok C s" and "c \<in> C"
  shows "\<exists>s'. pool_incoming obs c s = Some s' \<and> pool_ok C s' \<and> conns s' (conn_id c) = Some c \<and>
    (\<forall>cid d. conns s cid = Some d \<longrightarrow>
      (\<not> is_closed obs cid \<and> actives obs cid \<noteq> 0) \<or> card (dom (conns s)) \<le> max_pool_size s \<longrightarrow> conns s' cid = Some d)"
proof -
  from pool_add_ok [OF assms(2,3,1), of obs True] obtain s' where
    s': "pool_incoming obs c s = Some s'" "pool_ok C s'" "conns s' = ((conns s) |` (- dropped obs s))(conn_id c \<mapsto> c)"
    by (auto simp: pool_incoming_def)
  have "conns s' cid = Some d" if d: "conns s cid = Some d"
      and k: "(\<not> is_closed obs cid \<and> actives obs cid \<noteq> 0) \<or> card (dom (conns s)) \<le> max_pool_size s" for cid d
  proof -
    from k have "cid \<notin> dropped obs s" by (auto simp: dropped_def)
    moreover have "cid = conn_id c \<longrightarrow> d = c"
      using pool_ok_conn [OF assms(2) d] assms(1,3) by (auto dest: inj_onD)
    ultimately show ?thesis using d s'(3) by (simp add: restrict_map_def)
  qed
  with s' show ?thesis by auto
qed

theorem incoming_keeps_active_witness:
  "\<exists>s'. pool_incoming all_idle conn_a (pool_new 20) = Some s' \<and> conns s' ''a'' = Some conn_a"
  using incoming_keeps_active [OF _ pool_new_ok, of "{conn_a}" conn_a all_idle 20]
  by (auto simp: conn_a_def)


text \<open>Dialing: the first address that answers, or the error of the last one.\<close>

lemma dial_first_cases:
  "(\<exists>a\<in>set order. \<exists>c. dial a = Inr c \<and> dial_first dial order e = Inr c) \<or>
   (\<forall>a\<in>set order. \<exists>err. dial a = Inl err) \<and>
     (if order = [] then dial_first dial order e = Inl e
      else \<exists>a\<in>set order. \<exists>err. dial a = Inl err \<and> dial_first dial order e = Inl (Some err))"
proof (induction order arbitrary: e)
  case (Cons a order)
  show ?case
  proof (cases "dial a")
    case (Inl err)
    then show ?thesis using Cons.IH [of "Some err"] by (cases "order = []") auto
  qed auto
qed simp

text \<open>The result of a dial or of a pooled connection, as the callers of the connector see it.\<close>

definition dialed ::
    "p2p_conn set \<Rightarrow> (multiaddr \<Rightarrow> xs_error + p2p_conn) \<Rightarrow> multiaddr list \<Rightarrow> io_error + p2p_conn \<Rightarrow> conn_pool \<Rightarrow> bool" where
  "dialed C dial targets res s' \<longleftrightarrow> pool_ok C s' \<and>
     (case res of
        Inr c \<Rightarrow> conns s' (conn_id c) = Some c \<and> (\<exists>a\<in>set targets. dial a = Inr c)
      | Inl e \<Rightarrow> (\<forall>a\<in>set targets. \<exists>err. dial a = Inl err) \<and> (\<exists>a\<in>set targets. \<exists>err. dial a = Inl err \<and> e = error_to_io err))"

lemma connect_raddrs_ok:
  assumes "inj_on conn_id C" and "pool_ok C s" and "order \<noteq> []" and "\<forall>a c. dial a = Inr c \<longrightarrow> c \<in> C"
  shows "\<exists>res s'. connect_raddrs obs dial order s = Some (res, s') \<and> dialed C dial order res s'"
  using dial_first_cases [of order dial None]
proof
  assume "\<exists>a\<in>set order. \<exists>c. dial a = Inr c \<and> dial_first dial order None = Inr c"
  then obtain a c where c: "a \<in> set order" "dial a = Inr c" "dial_first dial order None = Inr c" by blast
  then have "c \<in> C" using assms(4) by blast
  from pool_add_ok [OF assms(2) this assms(1), of obs False] obtain s' where
    "pool_add obs c False s = Some s'" "pool_ok C s'" "conns s' (conn_id c) = Some c" by auto
  with c show ?thesis by (auto simp: connect_raddrs_def dialed_def)
next
  assume "(\<forall>a\<in>set order. \<exists>err. dial a = Inl err) \<and>
     (if order = [] then dial_first dial order None = Inl None
      else \<exists>a\<in>set order. \<exists>err. dial a = Inl err \<and> dial_first dial order None = Inl (Some err))"
  then obtain a err where "a \<in> set order" "dial a = Inl err" "dial_first dial order None = Inl (Some err)"
    and "\<forall>a\<in>set order. \<exists>err. dial a = Inl err" using assms(3) by auto
  then show ?thesis using assms(2) by (auto simp: connect_raddrs_def dialed_def)
qed

lemma first_by_raddr_ok:
  assumes ok: "pool_ok C s"
  shows "\<exists>found. first_by_raddr r s targets = Some found \<and>
    (case found of Some c \<Rightarrow> conns s (conn_id c) = Some c \<and> (\<exists>a\<in>set targets. raddrs s a = Some (conn_peer c))
     | None \<Rightarrow> (\<forall>a\<in>set targets. raddrs s a = None))"
proof (induction targets)
  case (Cons a targets)
  from by_raddr_ok [OF ok, of r a] obtain found where
    f: "by_raddr r s a = Some found" "case found of Some c \<Rightarrow> conns s (conn_id c) = Some c \<and> raddrs s a = Some (conn_peer c)
     | None \<Rightarrow> raddrs s a = None" by blast
  with Cons show ?case by (cases found) (auto split: option.splits)
qed simp

definition shuffle_law :: "('a list \<Rightarrow> 'a list) \<Rightarrow> bool" where
  "shuffle_law shuffle \<longleftrightarrow> (\<forall>xs. mset (shuffle xs) = mset xs)"

lemma shuffle_set: "shuffle_law f \<Longrightarrow> set (f xs) = set xs"
  unfolding shuffle_law_def by (metis set_mset_mset)

text \<open>C24: \<open>connect\<close> never panics and keeps the pool consistent, whatever other tasks do to it during the
  dial. It fails with an error of its own only for an empty list of addresses. Otherwise it returns
  a pooled connection of the peer that some address leads to; or, when no address is known
  to the pool, a newly dialed connection, which is then pooled; or, when every address fails, the
  error of one of the dials.\<close>

theorem connect_functional:
  assumes "inj_on conn_id C" and "pool_ok C s" and "\<forall>a c. dial a = Inr c \<longrightarrow> c \<in> C"
    and "shuffle_law shuffle" and "\<forall>s. pool_ok C s \<longrightarrow> pool_ok C (mid s)"
  shows "\<exists>res s'. pool_connect obs dial r shuffle mid targets s = Some (res, s') \<and> pool_ok C s' \<and>
    (if targets = [] then res = Inl (error_to_io EmptyPeerAddrs)
     else if \<exists>a\<in>set targets. raddrs s a \<noteq> None
     then s' = s \<and> (\<exists>c. res = Inr c \<and> conns s (conn_id c) = Some c \<and> (\<exists>a\<in>set targets. raddrs s a = Some (conn_peer c)))
     else (case res of
             Inr c \<Rightarrow> conns s' (conn_id c) = Some c \<and> (\<exists>a\<in>set targets. dial a = Inr c)
           | Inl e \<Rightarrow> (\<forall>a\<in>set targets. \<exists>err. dial a = Inl err) \<and>
               (\<exists>a\<in>set targets. \<exists>err. dial a = Inl err \<and> e = error_to_io err)))"
proof (cases "targets = []")
  case True
  then show ?thesis using assms(2) by (simp add: pool_connect_def)
next
  case False
  from first_by_raddr_ok [OF assms(2), of r targets] obtain found where
    f: "first_by_raddr r s targets = Some found" and
    k: "case found of Some c \<Rightarrow> conns s (conn_id c) = Some c \<and> (\<exists>a\<in>set targets. raddrs s a = Some (conn_peer c))
     | None \<Rightarrow> (\<forall>a\<in>set targets. raddrs s a = None)" by blast
  show ?thesis
  proof (cases found)
    case (Some c)
    with f k False assms(2) show ?thesis by (auto simp: pool_connect_def)
  next
    case None
    have set: "set (shuffle targets) = set targets" by (rule shuffle_set [OF assms(4)])
    with False have "shuffle targets \<noteq> []" by (metis set_empty)
    from connect_raddrs_ok [OF assms(1) _ this assms(3), of "mid s" obs] assms(2,5)
    obtain res s' where "connect_raddrs obs dial (shuffle targets) (mid s) = Some (res, s')"
      and d: "dialed C dial (shuffle targets) res s'" by blast
    moreover from d have "dialed C dial targets res s'" by (cases res) (simp_all add: dialed_def set)
    moreover have "\<not> (\<exists>a\<in>set targets. raddrs s a \<noteq> None)" using k None by auto
    ultimately show ?thesis using f None False by (simp add: pool_connect_def dialed_def)
  qed
qed

theorem connect_functional_witness:
  "\<exists>res s'. pool_connect all_idle (\<lambda>_. Inr conn_a) 0 (\<lambda>xs. xs) (\<lambda>s. s) [conn_peer_addr conn_a] (pool_new 20) = Some (res, s') \<and>
     pool_ok {conn_a} s'"
  using connect_functional [OF _ pool_new_ok, of "{conn_a}" "\<lambda>_. Inr conn_a" "\<lambda>xs. xs" "\<lambda>s. s" all_idle 0 "[conn_peer_addr conn_a]" 20]
  by (auto simp: shuffle_law_def)

text \<open>\<open>connect_to\<close> never panics and keeps the pool consistent. A pooled connection of the peer
  is returned when there is one; otherwise the peer's addresses in the peer book are dialed, and
  an unknown peer or one without addresses gives \<open>PeerNotFound\<close>.\<close>

theorem connect_to_functional:
  assumes "inj_on conn_id C" and "pool_ok C s" and "\<forall>a c. dial a = Inr c \<longrightarrow> c \<in> C"
    and "shuffle_law shuffle" and "\<forall>s. pool_ok C s \<longrightarrow> pool_ok C (mid s)"
  shows "\<exists>res s'. pool_connect_to obs dial r shuffle mid lookup p s = Some (res, s') \<and> pool_ok C s' \<and>
    (if \<exists>cid c. conns s cid = Some c \<and> conn_peer c = p
     then s' = s \<and> (\<exists>c. res = Inr c \<and> conns s (conn_id c) = Some c \<and> conn_peer c = p)
     else (case lookup p of
             Inl err \<Rightarrow> res = Inl (error_to_io err)
           | Inr None \<Rightarrow> res = Inl (error_to_io PeerNotFound)
           | Inr (Some info) \<Rightarrow>
               (if pi_addrs info = [] then res = Inl (error_to_io PeerNotFound)
                else dialed C dial (pi_addrs info) res s')))"
proof -
  from pool_find_law [OF assms(2), of r p] obtain found where
    f: "by_peer_id r s p = Some found" and
    k: "case found of Some c \<Rightarrow> holds_conn s c \<and> conn_peer c = p | None \<Rightarrow> (\<forall>c. holds_conn s c \<longrightarrow> conn_peer c \<noteq> p)"
    by blast
  have held: "(\<exists>cid c. conns s cid = Some c \<and> conn_peer c = p) \<longleftrightarrow> (\<exists>c. holds_conn s c \<and> conn_peer c = p)"
    using pool_ok_conn [OF assms(2)] by (fastforce simp: holds_conn_def)
  show ?thesis
  proof (cases found)
    case (Some c)
    with f k held assms(2) show ?thesis by (auto simp: pool_connect_to_def holds_conn_def)
  next
    case None
    then have none: "\<not> (\<exists>cid c. conns s cid = Some c \<and> conn_peer c = p)" using k held by auto
    show ?thesis
    proof (cases "\<exists>info. lookup p = Inr (Some info) \<and> pi_addrs info \<noteq> []")
      case False
      then show ?thesis
        using f None none assms(2) by (auto simp: pool_connect_to_def split: sum.splits option.splits)
    next
      case True
      then obtain info where info: "lookup p = Inr (Some info)" "pi_addrs info \<noteq> []" by blast
      have set: "set (shuffle (pi_addrs info)) = set (pi_addrs info)" by (rule shuffle_set [OF assms(4)])
      with info have "shuffle (pi_addrs info) \<noteq> []" by (metis set_empty)
      from connect_raddrs_ok [OF assms(1) _ this assms(3), of "mid s" obs] assms(2,5)
      obtain res s' where "connect_raddrs obs dial (shuffle (pi_addrs info)) (mid s) = Some (res, s')"
        and d: "dialed C dial (shuffle (pi_addrs info)) res s'" by blast
      moreover from d have "dialed C dial (pi_addrs info) res s'" by (cases res) (simp_all add: dialed_def set)
      moreover from d have "pool_ok C s'" by (simp add: dialed_def)
      ultimately show ?thesis
        unfolding if_not_P [OF none] using f None info by (simp add: pool_connect_to_def)
    qed
  qed
qed

theorem connect_to_functional_witness:
  "\<exists>s'. pool_connect_to all_idle (\<lambda>_. Inr conn_a) 0 (\<lambda>xs. xs) (\<lambda>s. s) (\<lambda>_. Inr None) (PeerId 9) (pool_new 20) =
     Some (Inl (error_to_io PeerNotFound), s')"
  using connect_to_functional [OF _ pool_new_ok, of "{conn_a}" "\<lambda>_. Inr conn_a" "\<lambda>xs. xs" "\<lambda>s. s" all_idle 0 "\<lambda>_. Inr None" "PeerId 9" 20]
  by (auto simp: shuffle_law_def pool_new_def)

definition pool_with_a :: conn_pool where
  "pool_with_a = \<lparr>max_pool_size = 20, raddrs = [[Ip4 1, Tcp 80] \<mapsto> PeerId 1], pool_peers = [PeerId 1 \<mapsto> [''a'']],
     conns = [''a'' \<mapsto> conn_a], closing = []\<rparr>"

definition pool_a_b :: conn_pool where
  "pool_a_b = \<lparr>max_pool_size = 1, raddrs = Map.empty, pool_peers = [PeerId 1 \<mapsto> [''a''], PeerId 2 \<mapsto> [''b'']],
     conns = [''a'' \<mapsto> conn_a, ''b'' \<mapsto> conn_b], closing = []\<rparr>"

lemma run_pool_with_a: "pool_run [AddOutbound all_idle conn_a] (pool_new 20) = Some pool_with_a"
  by (simp add: pool_add_def check_limits_def pool_new_def Let_def conn_a_def pool_with_a_def)

lemma run_pool_a_b: "pool_run [AddInbound all_idle conn_a, AddInbound all_idle conn_b] (pool_new 1) = Some pool_a_b"
  by (simp add: pool_incoming_def pool_add_def check_limits_def pool_new_def Let_def conn_a_def conn_b_def pool_a_b_def)

text \<open>The pool does not ask a connection whether it is still open before it hands it out, and nothing
  removes one that was closed while the pool is within its size: \<open>connect_to\<close> returns the dead
  connection of a peer again and again instead of dialing. And a pool of size one holds two
  connections, because the limit is checked before the insertion.\<close>

theorem dead_connection_reused:
  "pool_run [AddOutbound all_idle conn_a] (pool_new 20) = Some pool_with_a \<and>
   pool_connect_to all_closed dial r shuffle mid lookup (PeerId 1) pool_with_a = Some (Inr conn_a, pool_with_a) \<and>
   check_limits all_closed pool_with_a = Some pool_with_a \<and>
   pool_run [AddInbound all_idle conn_a, AddInbound all_idle conn_b] (pool_new 1) = Some pool_a_b \<and>
   pool_len pool_a_b = 2"
proof -
  have "choose_one r [''a''] = Some ''a''" by (simp add: choose_one_def)
  then have "pool_connect_to all_closed dial r shuffle mid lookup (PeerId 1) pool_with_a = Some (Inr conn_a, pool_with_a)"
    by (simp add: pool_connect_to_def by_peer_id_def pool_with_a_def)
  moreover have "check_limits all_closed pool_with_a = Some pool_with_a"
    by (simp add: check_limits_def pool_with_a_def)
  moreover have "pool_len pool_a_b = 2" by (simp add: pool_len_def pool_a_b_def)
  ultimately show ?thesis using run_pool_with_a run_pool_a_b by blast
qed

end
