(* ===== verification/StreamDispatch.thy ===== *)
theory StreamDispatch
  imports Net_Types
begin

text \<open>
  \<open>xstack/src/stream.rs\<close>: the dispatcher of inbound streams (\<open>MutexStreamDispatcher\<close>) and its
  interface \<open>DriverStreamDispatcher\<close>. Listeners bind lists of protocols; a stream that was
  negotiated for a protocol goes to the queue of the listener of that protocol, but while
  its connection is in the identity handshake it is held back.

  Each critical section of the mutex is one function. \<open>handshake_success\<close> takes the streams
  held back in one critical section and then delivers them one by one, so that other calls come
  in between; \<open>disp_do\<close> gives the steps. A listener that waits in \<open>accept\<close> for its event is
  one that polls again (the result \<open>None\<close>).
\<close>

section \<open>The dispatcher\<close>

record p_stream =
  ps_id :: string
  ps_conn :: string

type_synonym item = "p_stream \<times> string"

record dispatcher =
  disp_closed :: bool
  inbound_streams :: "nat \<rightharpoonup> item list"
  protos :: "string \<rightharpoonup> nat"
  unauth_streams :: "string \<rightharpoonup> item list"

definition disp_new :: dispatcher where
  "disp_new = \<lparr>disp_closed = False, inbound_streams = Map.empty, protos = Map.empty, unauth_streams = Map.empty\<rparr>"

definition disp_handshake :: "string \<Rightarrow> dispatcher \<Rightarrow> dispatcher" where
  "disp_handshake conn d = d\<lparr>unauth_streams := (unauth_streams d)(conn \<mapsto> [])\<rparr>"

text \<open>Both ends of the handshake take the streams out; \<open>handshake_failed\<close> drops them.\<close>

definition take_unauth :: "string \<Rightarrow> dispatcher \<Rightarrow> item list option \<times> dispatcher" where
  "take_unauth conn d = (unauth_streams d conn, d\<lparr>unauth_streams := (unauth_streams d)(conn := None)\<rparr>)"

definition disp_handshake_failed :: "string \<Rightarrow> dispatcher \<Rightarrow> dispatcher" where
  "disp_handshake_failed conn d = snd (take_unauth conn d)"

definition disp_bind :: "nat \<Rightarrow> string list \<Rightarrow> dispatcher \<Rightarrow> (io_error + unit) \<times> dispatcher" where
  "disp_bind lid protocols d =
     (if disp_closed d then (Inl (OsError ''dispatcher is drainning''), d)
      else case find (\<lambda>p. protos d p \<noteq> None) protocols of
        Some p \<Rightarrow> (Inl (error_to_io (ProtocolListenerBind p)), d)
      | None \<Rightarrow> (Inr (), d\<lparr>protos := insert_keys protocols lid (protos d),
                         inbound_streams := (inbound_streams d)(lid \<mapsto> [])\<rparr>))"

definition disp_close :: "nat \<Rightarrow> dispatcher \<Rightarrow> dispatcher" where
  "disp_close lid d =
     d\<lparr>protos := (\<lambda>p. if protos d p = Some lid then None else protos d p),
       inbound_streams := (inbound_streams d)(lid := None)\<rparr>"

text \<open>One turn of the loop of \<open>accept\<close>: a stream, an error, or (\<open>Inr None\<close>) wait.\<close>

definition disp_accept :: "nat \<Rightarrow> dispatcher \<Rightarrow> (io_error + item option) \<times> dispatcher" where
  "disp_accept lid d =
     (case inbound_streams d lid of
        Some streams \<Rightarrow>
          (case pop_front streams of
             (Some x, rest) \<Rightarrow> (Inr (Some x), d\<lparr>inbound_streams := (inbound_streams d)(lid \<mapsto> rest)\<rparr>)
           | (None, _) \<Rightarrow> (Inr None, d))
      | None \<Rightarrow> (Inl (error_to_io (ProtocolListenerErr lid)), d))"

text \<open>\<open>dispatch\<close>: also the listener whose event is raised. \<open>None\<close> is the panic of \<open>expect\<close>.\<close>

definition disp_dispatch :: "item \<Rightarrow> dispatcher \<Rightarrow> (nat option \<times> dispatcher) option" where
  "disp_dispatch x d =
     (case unauth_streams d (ps_conn (fst x)) of
        Some cached \<Rightarrow>
          Some (None, d\<lparr>unauth_streams := (unauth_streams d)(ps_conn (fst x) \<mapsto> cached @ [x])\<rparr>)
      | None \<Rightarrow>
          (case protos d (snd x) of
             Some lid \<Rightarrow>
               (case inbound_streams d lid of
                  Some streams \<Rightarrow> Some (Some lid, d\<lparr>inbound_streams := (inbound_streams d)(lid \<mapsto> streams @ [x])\<rparr>)
                | None \<Rightarrow> None)
           | None \<Rightarrow> Some (None, d)))"

definition disp_protos :: "string list \<Rightarrow> dispatcher \<Rightarrow> string list" where
  "disp_protos order d = order"

definition disp_drop :: "dispatcher \<Rightarrow> dispatcher" where
  "disp_drop d = d\<lparr>disp_closed := True\<rparr>"

section \<open>The invariant\<close>

text \<open>Every bound protocol leads to an open queue.\<close>

definition disp_ok :: "dispatcher \<Rightarrow> bool" where
  "disp_ok d \<longleftrightarrow> (\<forall>p lid. protos d p = Some lid \<longrightarrow> inbound_streams d lid \<noteq> None)"

lemma disp_okD: "disp_ok d \<Longrightarrow> protos d p = Some lid \<Longrightarrow> \<exists>q. inbound_streams d lid = Some q"
  unfolding disp_ok_def by blast

lemma disp_new_ok: "disp_ok disp_new"
  by (simp add: disp_ok_def disp_new_def)

lemma disp_handshake_ok: "disp_ok d \<Longrightarrow> disp_ok (disp_handshake c d)"
  by (simp add: disp_ok_def disp_handshake_def)

lemma take_unauth_ok: "disp_ok d \<Longrightarrow> disp_ok (snd (take_unauth c d))"
  by (simp add: disp_ok_def take_unauth_def)

lemma disp_bind_ok: "disp_ok d \<Longrightarrow> disp_ok (snd (disp_bind lid ps d))"
  by (auto simp: disp_ok_def disp_bind_def insert_keys_apply split: option.split if_splits)

lemma disp_close_ok: "disp_ok d \<Longrightarrow> disp_ok (disp_close lid d)"
  by (auto simp: disp_ok_def disp_close_def split: if_splits)

lemma disp_accept_ok: "disp_ok d \<Longrightarrow> disp_ok (snd (disp_accept lid d))"
  by (auto simp: disp_ok_def disp_accept_def split: option.split prod.split)

lemma disp_dispatch_ok:
  assumes "disp_ok d"
  shows "\<exists>n d'. disp_dispatch x d = Some (n, d') \<and> disp_ok d'"
proof (cases "unauth_streams d (ps_conn (fst x))")
  case (Some cached)
  then show ?thesis using assms by (simp add: disp_dispatch_def disp_ok_def)
next
  case None
  show ?thesis
  proof (cases "protos d (snd x)")
    case (Some lid)
    from disp_okD [OF assms Some] obtain q where "inbound_streams d lid = Some q" ..
    with Some None assms show ?thesis by (simp add: disp_dispatch_def disp_ok_def)
  next
    case N: None
    with None assms show ?thesis by (simp add: disp_dispatch_def)
  qed
qed

lemmas disp_preserves =
  disp_handshake_ok take_unauth_ok disp_bind_ok disp_close_ok disp_accept_ok


section \<open>The interface \<open>DriverStreamDispatcher\<close>\<close>

text \<open>\<open>waiting d lid\<close> are the streams a listener has not accepted yet, \<open>handler\<close> the listener of a
  protocol, \<open>held\<close> says that a connection is in its handshake.\<close>

locale dispatcher_driver =
  fixes bind :: "nat \<Rightarrow> string list \<Rightarrow> 'd \<Rightarrow> (io_error + unit) \<times> 'd"
    and dispatch :: "item \<Rightarrow> 'd \<Rightarrow> (nat option \<times> 'd) option"
    and accept :: "nat \<Rightarrow> 'd \<Rightarrow> (io_error + item option) \<times> 'd"
    and waiting :: "'d \<Rightarrow> nat \<Rightarrow> item list option"
    and handler :: "'d \<Rightarrow> string \<Rightarrow> nat option"
    and held :: "'d \<Rightarrow> string \<Rightarrow> bool"
    and ok :: "'d \<Rightarrow> bool"
  assumes bind_law: "ok d \<Longrightarrow> bind lid ps d = (Inr (), d') \<Longrightarrow>
      ok d' \<and> (\<forall>p\<in>set ps. handler d' p = Some lid) \<and> waiting d' lid = Some [] \<and> held d' = held d"
    and dispatch_law: "ok d \<Longrightarrow> \<not> held d (ps_conn (fst x)) \<Longrightarrow> handler d (snd x) = Some lid \<Longrightarrow>
      \<exists>d' q. waiting d lid = Some q \<and> dispatch x d = Some (Some lid, d') \<and> ok d' \<and> waiting d' lid = Some (q @ [x]) \<and>
             handler d' = handler d \<and> held d' = held d"
    and accept_law: "waiting d lid = Some (x # q) \<Longrightarrow>
      \<exists>d'. accept lid d = (Inr (Some x), d') \<and> waiting d' lid = Some q"
begin

text \<open>A queue: dispatched in some order, accepted in that order.\<close>

fun dispatch_all :: "item list \<Rightarrow> 'd \<Rightarrow> 'd option" where
  "dispatch_all [] d = Some d"
| "dispatch_all (x # xs) d = Option.bind (dispatch x d) (\<lambda>(_, d'). dispatch_all xs d')"

fun accept_all :: "nat \<Rightarrow> nat \<Rightarrow> 'd \<Rightarrow> item list" where
  "accept_all lid 0 d = []"
| "accept_all lid (Suc n) d =
     (case accept lid d of (Inr (Some x), d') \<Rightarrow> x # accept_all lid n d' | _ \<Rightarrow> [])"

lemma dispatch_all_waiting:
  "ok d \<Longrightarrow> \<forall>x\<in>set xs. \<not> held d (ps_conn (fst x)) \<and> handler d (snd x) = Some lid \<Longrightarrow> waiting d lid = Some q \<Longrightarrow>
     \<exists>d'. dispatch_all xs d = Some d' \<and> ok d' \<and> waiting d' lid = Some (q @ xs)"
proof (induction xs arbitrary: d q)
  case (Cons x xs)
  then obtain d' where d': "dispatch x d = Some (Some lid, d')" "ok d'" "waiting d' lid = Some (q @ [x])"
      "handler d' = handler d" "held d' = held d"
    using dispatch_law [OF Cons.prems(1), of x lid] by fastforce
  from Cons.IH [OF d'(2) _ d'(3)] Cons.prems(2) d' show ?case by auto
qed simp

lemma accept_all_waiting: "waiting d lid = Some (xs @ q) \<Longrightarrow> accept_all lid (length xs) d = xs"
proof (induction xs arbitrary: d)
  case (Cons x xs)
  from accept_law [of d lid x "xs @ q"] Cons.prems obtain d' where
    "accept lid d = (Inr (Some x), d')" "waiting d' lid = Some (xs @ q)" by auto
  with Cons.IH show ?case by simp
qed simp

lemma bind_dispatch_accept:
  assumes "ok d" and "bind lid ps d = (Inr (), d1)"
    and "\<forall>x\<in>set xs. \<not> held d (ps_conn (fst x)) \<and> snd x \<in> set ps"
  shows "\<exists>d2. dispatch_all xs d1 = Some d2 \<and> accept_all lid (length xs) d2 = xs"
proof -
  from bind_law [OF assms(1,2)] have "ok d1" "waiting d1 lid = Some []"
    and "\<forall>x\<in>set xs. \<not> held d1 (ps_conn (fst x)) \<and> handler d1 (snd x) = Some lid"
    using assms(3) by auto
  from dispatch_all_waiting [OF this(1,3,2)] obtain d2 where
    "dispatch_all xs d1 = Some d2" "waiting d2 lid = Some (xs @ [])" by auto
  with accept_all_waiting show ?thesis by blast
qed

end

definition disp_held :: "dispatcher \<Rightarrow> string \<Rightarrow> bool" where
  "disp_held d c \<longleftrightarrow> unauth_streams d c \<noteq> None"

interpretation sd: dispatcher_driver disp_bind disp_dispatch disp_accept inbound_streams protos disp_held disp_ok
proof unfold_locales
  fix d d' :: dispatcher and lid ps
  assume ok: "disp_ok d" and b: "disp_bind lid ps d = (Inr (), d')"
  then have "d' = d\<lparr>protos := insert_keys ps lid (protos d), inbound_streams := (inbound_streams d)(lid \<mapsto> [])\<rparr>"
    by (auto simp: disp_bind_def split: if_splits option.splits)
  moreover have "disp_ok d'" using disp_bind_ok [OF ok, of lid ps] b by simp
  ultimately show "disp_ok d' \<and> (\<forall>p\<in>set ps. protos d' p = Some lid) \<and> inbound_streams d' lid = Some [] \<and> disp_held d' = disp_held d"
    by (auto simp: insert_keys_apply disp_held_def)
next
  fix d :: dispatcher and x :: item and lid
  assume ok: "disp_ok d" and "\<not> disp_held d (ps_conn (fst x))" and h: "protos d (snd x) = Some lid"
  then have n: "unauth_streams d (ps_conn (fst x)) = None" by (simp add: disp_held_def)
  from disp_okD [OF ok h] obtain q where q: "inbound_streams d lid = Some q" ..
  let ?d = "d\<lparr>inbound_streams := (inbound_streams d)(lid \<mapsto> q @ [x])\<rparr>"
  have "disp_dispatch x d = Some (Some lid, ?d)" using n h q by (simp add: disp_dispatch_def)
  moreover from this disp_dispatch_ok [OF ok, of x] have "disp_ok ?d" by auto
  ultimately show "\<exists>d' q. inbound_streams d lid = Some q \<and> disp_dispatch x d = Some (Some lid, d') \<and> disp_ok d' \<and>
      inbound_streams d' lid = Some (q @ [x]) \<and> protos d' = protos d \<and> disp_held d' = disp_held d"
    using q by (intro exI [of _ ?d] exI [of _ q]) (simp add: disp_held_def fun_eq_iff)
next
  fix d :: dispatcher and lid and x :: item and q
  assume "inbound_streams d lid = Some (x # q)"
  then show "\<exists>d'. disp_accept lid d = (Inr (Some x), d') \<and> inbound_streams d' lid = Some q"
    by (simp add: disp_accept_def)
qed

section \<open>The calls of many tasks\<close>

text \<open>
  \<open>deliveries\<close> are the streams that tasks in \<open>handshake_success\<close> still have to dispatch;
  \<open>accepted\<close> and \<open>delivered\<close> are histories per listener: what \<open>accept\<close> returned, and what
  \<open>dispatch\<close> put into its queue.
\<close>

record disp_sys =
  disp :: dispatcher
  deliveries :: "item list list"
  accepted :: "nat \<Rightarrow> item list"
  delivered :: "nat \<Rightarrow> item list"

datatype disp_act =
    Handshake string
  | HandshakeSuccess string
  | Deliver nat
  | HandshakeFailed string
  | BindListener nat "string list"
  | CloseListener nat
  | AcceptStream nat
  | DispatchStream item

definition disp_start :: disp_sys where
  "disp_start = \<lparr>disp = disp_new, deliveries = [], accepted = (\<lambda>_. []), delivered = (\<lambda>_. [])\<rparr>"

definition do_dispatch :: "item \<Rightarrow> disp_sys \<Rightarrow> disp_sys option" where
  "do_dispatch x s =
     Option.bind (disp_dispatch x (disp s)) (\<lambda>(n, d).
       Some (case n of
               Some lid \<Rightarrow> s\<lparr>disp := d, delivered := (delivered s)(lid := delivered s lid @ [x])\<rparr>
             | None \<Rightarrow> s\<lparr>disp := d\<rparr>))"

fun disp_do :: "disp_act \<Rightarrow> disp_sys \<Rightarrow> disp_sys option" where
  "disp_do (Handshake c) s = Some (s\<lparr>disp := disp_handshake c (disp s)\<rparr>)"
| "disp_do (HandshakeSuccess c) s =
     (case take_unauth c (disp s) of
        (Some streams, d) \<Rightarrow> Some (s\<lparr>disp := d, deliveries := deliveries s @ [streams]\<rparr>)
      | (None, d) \<Rightarrow> Some (s\<lparr>disp := d\<rparr>))"
| "disp_do (Deliver i) s =
     (if i < length (deliveries s)
      then (case deliveries s ! i of
              [] \<Rightarrow> Some s
            | x # rest \<Rightarrow> do_dispatch x (s\<lparr>deliveries := (deliveries s)[i := rest]\<rparr>))
      else Some s)"
| "disp_do (HandshakeFailed c) s = Some (s\<lparr>disp := disp_handshake_failed c (disp s)\<rparr>)"
| "disp_do (BindListener lid ps) s = Some (s\<lparr>disp := snd (disp_bind lid ps (disp s))\<rparr>)"
| "disp_do (CloseListener lid) s = Some (s\<lparr>disp := disp_close lid (disp s)\<rparr>)"
| "disp_do (AcceptStream lid) s =
     (case disp_accept lid (disp s) of
        (Inr (Some x), d) \<Rightarrow> Some (s\<lparr>disp := d, accepted := (accepted s)(lid := accepted s lid @ [x])\<rparr>)
      | (_, d) \<Rightarrow> Some (s\<lparr>disp := d\<rparr>))"
| "disp_do (DispatchStream x) s = do_dispatch x s"

fun disp_run :: "disp_act list \<Rightarrow> disp_sys \<Rightarrow> disp_sys option" where
  "disp_run [] s = Some s"
| "disp_run (a # as) s = Option.bind (disp_do a s) (disp_run as)"

lemma disp_run_append: "disp_run (as @ bs) s = Option.bind (disp_run as s) (disp_run bs)"
proof (induction as arbitrary: s)
  case (Cons a as)
  then show ?case by (cases "disp_do a s") simp_all
qed simp

text \<open>Histories are consistent: what was delivered to a listener is what it accepted, then its queue.\<close>

definition fifo_ok :: "disp_sys \<Rightarrow> nat \<Rightarrow> bool" where
  "fifo_ok s lid \<longleftrightarrow>
     (\<forall>q. inbound_streams (disp s) lid = Some q \<longrightarrow> delivered s lid = accepted s lid @ q) \<and>
     (inbound_streams (disp s) lid = None \<longrightarrow> prefix (accepted s lid) (delivered s lid))"

definition unused :: "disp_sys \<Rightarrow> nat \<Rightarrow> bool" where
  "unused s lid \<longleftrightarrow> inbound_streams (disp s) lid = None \<and> accepted s lid = [] \<and> delivered s lid = []"

definition held_ok :: "disp_sys \<Rightarrow> bool" where
  "held_ok s \<longleftrightarrow> (\<forall>c xs. unauth_streams (disp s) c = Some xs \<longrightarrow> list_all (\<lambda>x. ps_conn (fst x) = c) xs)"

definition sys_ok :: "nat set \<Rightarrow> disp_sys \<Rightarrow> bool" where
  "sys_ok fresh s \<longleftrightarrow> disp_ok (disp s) \<and> (\<forall>lid. fifo_ok s lid) \<and> (\<forall>lid\<in>fresh. unused s lid) \<and> held_ok s"

lemma sys_okD:
  assumes "sys_ok fresh s"
  shows "disp_ok (disp s)" "fifo_ok s lid" "lid \<in> fresh \<Longrightarrow> unused s lid" "held_ok s"
  using assms by (auto simp: sys_ok_def)

lemma sys_ok_less: "sys_ok fresh s \<Longrightarrow> sys_ok (fresh - A) s"
  by (simp add: sys_ok_def)

lemma held_ok_cong: "unauth_streams (disp s') = unauth_streams (disp s) \<Longrightarrow> held_ok s' = held_ok s"
  by (simp add: held_ok_def)

lemma disp_start_ok: "sys_ok UNIV disp_start"
  by (simp add: sys_ok_def disp_start_def disp_new_ok fifo_ok_def unused_def held_ok_def) (simp add: disp_new_def)

fun bind_ids :: "disp_act list \<Rightarrow> nat list" where
  "bind_ids [] = []"
| "bind_ids (BindListener lid ps # as) = lid # bind_ids as"
| "bind_ids (_ # as) = bind_ids as"

lemma unused_not_bound: "disp_ok (disp s) \<Longrightarrow> unused s lid \<Longrightarrow> protos (disp s) p \<noteq> Some lid"
  by (auto simp: unused_def dest: disp_okD)

lemma do_dispatch_ok:
  assumes ok: "sys_ok fresh s"
  shows "\<exists>s'. do_dispatch x s = Some s' \<and> sys_ok fresh s'"
proof (cases "unauth_streams (disp s) (ps_conn (fst x))")
  case (Some cached)
  then have "do_dispatch x s = Some (s\<lparr>disp := (disp s)\<lparr>unauth_streams := (unauth_streams (disp s))(ps_conn (fst x) \<mapsto> cached @ [x])\<rparr>\<rparr>)"
    by (simp add: do_dispatch_def disp_dispatch_def)
  then show ?thesis
    using ok Some by (auto simp: sys_ok_def disp_ok_def fifo_ok_def unused_def held_ok_def)
next
  case None
  show ?thesis
  proof (cases "protos (disp s) (snd x)")
    case N: None
    then have "do_dispatch x s = Some s" using None by (simp add: do_dispatch_def disp_dispatch_def)
    then show ?thesis using ok by simp
  next
    case (Some lid)
    from disp_okD [OF sys_okD(1) [OF ok] Some] obtain q where q: "inbound_streams (disp s) lid = Some q" ..
    let ?s = "s\<lparr>disp := (disp s)\<lparr>inbound_streams := (inbound_streams (disp s))(lid \<mapsto> q @ [x])\<rparr>,
                delivered := (delivered s)(lid := delivered s lid @ [x])\<rparr>"
    have "do_dispatch x s = Some ?s" using None Some q by (simp add: do_dispatch_def disp_dispatch_def)
    moreover have "lid \<notin> fresh" using unused_not_bound [OF sys_okD(1) [OF ok]] sys_okD(3) [OF ok] Some by blast
    ultimately show ?thesis
      using ok q by (auto simp: sys_ok_def disp_ok_def fifo_ok_def unused_def held_ok_def)
  qed
qed


lemma accept_sys_ok:
  assumes ok: "sys_ok fresh s"
  shows "\<exists>s'. disp_do (AcceptStream lid) s = Some s' \<and> sys_ok fresh s'"
proof (cases "\<exists>x q. inbound_streams (disp s) lid = Some (x # q)")
  case True
  then obtain x q where q: "inbound_streams (disp s) lid = Some (x # q)" by blast
  let ?d = "(disp s)\<lparr>inbound_streams := (inbound_streams (disp s))(lid \<mapsto> q)\<rparr>"
  let ?s = "s\<lparr>disp := ?d, accepted := (accepted s)(lid := accepted s lid @ [x])\<rparr>"
  have acc: "disp_accept lid (disp s) = (Inr (Some x), ?d)" using q by (simp add: disp_accept_def)
  then have "disp_ok (disp ?s)" using disp_accept_ok [OF sys_okD(1) [OF ok], of lid] by simp
  moreover have "held_ok ?s" using sys_okD(4) [OF ok] held_ok_cong [of ?s s] by simp
  moreover have "fifo_ok ?s k" for k
    using sys_okD(2) [OF ok, of k] q by (cases "k = lid") (simp_all add: fifo_ok_def)
  moreover have "unused ?s k" if "k \<in> fresh" for k
    using sys_okD(3) [OF ok that] q by (cases "k = lid") (simp_all add: unused_def)
  ultimately have "sys_ok fresh ?s" unfolding sys_ok_def by blast
  with acc show ?thesis by simp
next
  case False
  have "disp_do (AcceptStream lid) s = Some s"
  proof (cases "inbound_streams (disp s) lid")
    case None
    then show ?thesis by (simp add: disp_accept_def)
  next
    case (Some q)
    with False have "q = []" by (cases q) auto
    with Some show ?thesis by (simp add: disp_accept_def)
  qed
  with ok show ?thesis by blast
qed

lemma disp_do_ok:
  assumes ok: "sys_ok fresh s" and b: "set (bind_ids [a]) \<subseteq> fresh"
  shows "\<exists>s'. disp_do a s = Some s' \<and> sys_ok (fresh - set (bind_ids [a])) s'"
proof (cases a)
  case (Handshake c)
  then show ?thesis
    using ok disp_handshake_ok [of "disp s" c]
    by (auto simp: sys_ok_def fifo_ok_def unused_def held_ok_def disp_handshake_def)
next
  case (HandshakeSuccess c)
  then show ?thesis
    using ok take_unauth_ok [of "disp s" c]
    by (auto simp: sys_ok_def fifo_ok_def unused_def held_ok_def take_unauth_def split: option.split)
next
  case (Deliver i)
  show ?thesis
  proof (cases "i < length (deliveries s) \<and> deliveries s ! i \<noteq> []")
    case True
    then obtain x rest where x: "deliveries s ! i = x # rest" by (cases "deliveries s ! i") auto
    have "sys_ok fresh (s\<lparr>deliveries := (deliveries s)[i := rest]\<rparr>)"
      using ok by (simp add: sys_ok_def fifo_ok_def unused_def held_ok_def)
    from do_dispatch_ok [OF this, of x] show ?thesis using Deliver True x by simp
  next
    case False
    then have "disp_do a s = Some s" using Deliver by auto
    then show ?thesis using ok Deliver by simp
  qed
next
  case (HandshakeFailed c)
  then show ?thesis
    using ok take_unauth_ok [of "disp s" c]
    by (auto simp: sys_ok_def fifo_ok_def unused_def held_ok_def take_unauth_def disp_handshake_failed_def)
next
  case (BindListener lid ps)
  have un: "unused s lid" using b sys_okD(3) [OF ok] BindListener by auto
  let ?d = "(disp s)\<lparr>protos := insert_keys ps lid (protos (disp s)),
        inbound_streams := (inbound_streams (disp s))(lid \<mapsto> [])\<rparr>"
  have "snd (disp_bind lid ps (disp s)) = disp s \<or> snd (disp_bind lid ps (disp s)) = ?d"
    by (simp add: disp_bind_def split: option.split)
  then show ?thesis
  proof
    assume "snd (disp_bind lid ps (disp s)) = disp s"
    then show ?thesis using BindListener sys_ok_less [OF ok] by simp
  next
    assume d: "snd (disp_bind lid ps (disp s)) = ?d"
    then have "disp_ok ?d" using disp_bind_ok [OF sys_okD(1) [OF ok], of lid ps] by simp
    moreover have "held_ok (s\<lparr>disp := ?d\<rparr>)" using sys_okD(4) [OF ok] held_ok_cong [of "s\<lparr>disp := ?d\<rparr>" s] by simp
    moreover have "fifo_ok (s\<lparr>disp := ?d\<rparr>) k" for k
      using sys_okD(2) [OF ok, of k] un by (cases "k = lid") (auto simp: fifo_ok_def unused_def)
    moreover have "unused (s\<lparr>disp := ?d\<rparr>) k" if "k \<in> fresh - {lid}" for k
      using sys_okD(3) [OF ok, of k] that by (auto simp: unused_def)
    ultimately show ?thesis using BindListener d unfolding sys_ok_def by auto
  qed
next
  case (CloseListener lid)
  let ?s = "s\<lparr>disp := disp_close lid (disp s)\<rparr>"
  have "disp_ok (disp ?s)" using disp_close_ok [OF sys_okD(1) [OF ok]] by simp
  moreover have "held_ok ?s" using sys_okD(4) [OF ok] held_ok_cong [of ?s s] by (simp add: disp_close_def)
  moreover have "fifo_ok ?s k" for k
    using sys_okD(2) [OF ok, of k]
    by (cases "k = lid"; cases "inbound_streams (disp s) k") (simp_all add: fifo_ok_def disp_close_def)
  moreover have "unused ?s k" if "k \<in> fresh" for k
    using sys_okD(3) [OF ok that] by (auto simp: unused_def disp_close_def)
  ultimately show ?thesis using CloseListener unfolding sys_ok_def by auto
next
  case (AcceptStream lid)
  from accept_sys_ok [OF ok, of lid] AcceptStream sys_ok_less show ?thesis by fastforce
next
  case (DispatchStream x)
  then show ?thesis using do_dispatch_ok [OF ok, of x] by simp
qed

lemma bind_ids_Cons: "bind_ids (a # as) = bind_ids [a] @ bind_ids as"
  by (cases a) simp_all

lemma disp_run_ok:
  "sys_ok fresh s \<Longrightarrow> distinct (bind_ids as) \<Longrightarrow> set (bind_ids as) \<subseteq> fresh \<Longrightarrow>
     \<exists>s'. disp_run as s = Some s' \<and> sys_ok (fresh - set (bind_ids as)) s'"
proof (induction as arbitrary: s fresh)
  case (Cons a as)
  note b = bind_ids_Cons [of a as]
  from disp_do_ok [OF Cons.prems(1), of a] Cons.prems(3) b obtain s1 where
    s1: "disp_do a s = Some s1" "sys_ok (fresh - set (bind_ids [a])) s1" by auto
  have "distinct (bind_ids as)" "set (bind_ids as) \<subseteq> fresh - set (bind_ids [a])"
    using Cons.prems(2,3) b by auto
  from Cons.IH [OF s1(2) this] s1 b show ?case by (auto simp: Diff_Un set_diff_eq Int_def)
qed simp

text \<open>C4: The dispatcher never breaks its consistency guarantee, that is, never panics, and keeps the
  order of streams: for every sequence of calls by any number of tasks in which listener ids are not
  used twice, what a listener has accepted followed by what waits in its queue is exactly what was
  dispatched to it, in that order; after it is closed, what it accepted is the beginning of it.\<close>

theorem dispatcher_fifo:
  assumes "distinct (bind_ids as)"
  shows "\<exists>s. disp_run as disp_start = Some s \<and>
    (\<forall>lid. prefix (accepted s lid) (delivered s lid) \<and>
       (\<forall>q. inbound_streams (disp s) lid = Some q \<longrightarrow> delivered s lid = accepted s lid @ q))"
proof -
  from disp_run_ok [OF disp_start_ok assms] obtain s where s: "disp_run as disp_start = Some s"
    and ok: "\<forall>lid. fifo_ok s lid" by (auto simp: sys_ok_def)
  have "prefix (accepted s lid) (delivered s lid) \<and>
       (\<forall>q. inbound_streams (disp s) lid = Some q \<longrightarrow> delivered s lid = accepted s lid @ q)" for lid
    using ok [rule_format, of lid] by (cases "inbound_streams (disp s) lid") (auto simp: fifo_ok_def)
  with s show ?thesis by blast
qed

definition kad_stream :: item where
  "kad_stream = (\<lparr>ps_id = ''s1'', ps_conn = ''c1''\<rparr>, ''/kad'')"

definition ping_stream :: item where
  "ping_stream = (\<lparr>ps_id = ''s2'', ps_conn = ''c1''\<rparr>, ''/kad'')"

theorem dispatcher_fifo_witness:
  "\<exists>s. disp_run [BindListener 1 [''/kad''], DispatchStream kad_stream, DispatchStream ping_stream, AcceptStream 1] disp_start = Some s \<and>
     prefix (accepted s 1) (delivered s 1)"
  using dispatcher_fifo
    [of "[BindListener 1 [''/kad''], DispatchStream kad_stream, DispatchStream ping_stream, AcceptStream 1]"]
  by fastforce


section \<open>The handshake gate\<close>

definition of_conn :: "string \<Rightarrow> item list \<Rightarrow> item list" where
  "of_conn c xs = filter (\<lambda>x. ps_conn (fst x) = c) xs"

fun dispatched :: "disp_act list \<Rightarrow> item list" where
  "dispatched [] = []"
| "dispatched (DispatchStream x # as) = x # dispatched as"
| "dispatched (_ # as) = dispatched as"

fun ends_handshake :: "string \<Rightarrow> disp_act \<Rightarrow> bool" where
  "ends_handshake c (Handshake d) = (c = d)"
| "ends_handshake c (HandshakeSuccess d) = (c = d)"
| "ends_handshake c (HandshakeFailed d) = (c = d)"
| "ends_handshake c _ = False"

definition gate_inv :: "string \<Rightarrow> (nat \<Rightarrow> item list) \<Rightarrow> item list \<Rightarrow> disp_sys \<Rightarrow> bool" where
  "gate_inv c del cached s \<longleftrightarrow> unauth_streams (disp s) c = Some cached \<and> held_ok s \<and>
     (\<forall>xs\<in>set (deliveries s). of_conn c xs = []) \<and> (\<forall>lid. of_conn c (delivered s lid) = del lid)"

lemma of_conn_simps [simp]:
  "of_conn c [] = []" "of_conn c (x # xs) = (if ps_conn (fst x) = c then x # of_conn c xs else of_conn c xs)"
  "of_conn c (xs @ ys) = of_conn c xs @ of_conn c ys"
  by (simp_all add: of_conn_def)

lemma gate_do_dispatch:
  assumes inv: "gate_inv c del cached s" and d: "do_dispatch x s = Some s'"
  shows "gate_inv c del (cached @ of_conn c [x]) s'"
proof (cases "unauth_streams (disp s) (ps_conn (fst x))")
  case (Some xs)
  then have s': "s' = s\<lparr>disp := (disp s)\<lparr>unauth_streams := (unauth_streams (disp s))(ps_conn (fst x) \<mapsto> xs @ [x])\<rparr>\<rparr>"
    using d by (simp add: do_dispatch_def disp_dispatch_def)
  with inv Some show ?thesis by (auto simp: gate_inv_def held_ok_def)
next
  case None
  then have "ps_conn (fst x) \<noteq> c" using inv by (auto simp: gate_inv_def)
  then show ?thesis
    using inv d None by (auto simp: gate_inv_def held_ok_def do_dispatch_def disp_dispatch_def split: option.splits)
qed

lemma of_conn_other: "held_ok s \<Longrightarrow> unauth_streams (disp s) d = Some xs \<Longrightarrow> d \<noteq> c \<Longrightarrow> of_conn c xs = []"
  by (fastforce simp: held_ok_def of_conn_def filter_empty_conv list_all_iff)

lemma gate_do:
  assumes inv: "gate_inv c del cached s" and a: "\<not> ends_handshake c a" and d: "disp_do a s = Some s'"
  shows "gate_inv c del (cached @ of_conn c (dispatched [a])) s'"
proof (cases a)
  case (Handshake d)
  then show ?thesis using assms by (auto simp: gate_inv_def disp_handshake_def held_ok_def split: if_splits)
next
  case (HandshakeSuccess d)
  then have ne: "d \<noteq> c" using a by auto
  show ?thesis
  proof (cases "unauth_streams (disp s) d")
    case None
    then have "s' = s\<lparr>disp := (disp s)\<lparr>unauth_streams := (unauth_streams (disp s))(d := None)\<rparr>\<rparr>"
      using HandshakeSuccess assms(3) by (simp add: take_unauth_def)
    then show ?thesis using inv ne HandshakeSuccess by (auto simp: gate_inv_def held_ok_def)
  next
    case (Some xs)
    then have "s' = s\<lparr>disp := (disp s)\<lparr>unauth_streams := (unauth_streams (disp s))(d := None)\<rparr>, deliveries := deliveries s @ [xs]\<rparr>"
      using HandshakeSuccess assms(3) by (simp add: take_unauth_def)
    moreover have "of_conn c xs = []" using of_conn_other [OF _ Some ne] inv by (simp add: gate_inv_def)
    ultimately show ?thesis using inv ne HandshakeSuccess by (auto simp: gate_inv_def held_ok_def)
  qed
next
  case (Deliver i)
  show ?thesis
  proof (cases "i < length (deliveries s) \<and> deliveries s ! i \<noteq> []")
    case True
    then obtain x rest where x: "deliveries s ! i = x # rest" by (cases "deliveries s ! i") auto
    have mem: "deliveries s ! i \<in> set (deliveries s)" using True by simp
    with inv have "of_conn c (x # rest) = []" unfolding gate_inv_def x by blast
    then have cx: "of_conn c [x] = []" "of_conn c rest = []" by (auto split: if_splits)
    have "\<forall>xs\<in>set ((deliveries s)[i := rest]). of_conn c xs = []"
      using inv cx(2) set_update_subset_insert [of "deliveries s" i rest] by (auto simp: gate_inv_def)
    then have "gate_inv c del cached (s\<lparr>deliveries := (deliveries s)[i := rest]\<rparr>)"
      using inv by (simp add: gate_inv_def held_ok_def)
    from gate_do_dispatch [OF this, of x s'] show ?thesis
      using Deliver assms(3) True x cx(1) by simp
  next
    case False
    then have "s' = s" using Deliver assms(3) by (auto split: if_splits)
    then show ?thesis using inv Deliver by simp
  qed
next
  case (HandshakeFailed d)
  then show ?thesis using assms by (auto simp: gate_inv_def disp_handshake_failed_def take_unauth_def held_ok_def split: if_splits)
next
  case (BindListener lid ps)
  then have "s' = s\<lparr>disp := snd (disp_bind lid ps (disp s))\<rparr>" using assms(3) by simp
  moreover have "unauth_streams (snd (disp_bind lid ps (disp s))) = unauth_streams (disp s)"
    by (simp add: disp_bind_def split: option.split)
  ultimately show ?thesis using inv BindListener by (simp add: gate_inv_def held_ok_def)
next
  case (CloseListener lid)
  then show ?thesis using inv assms(3) by (auto simp: gate_inv_def disp_close_def held_ok_def)
next
  case (AcceptStream lid)
  have "unauth_streams (snd (disp_accept lid (disp s))) = unauth_streams (disp s)"
    by (simp add: disp_accept_def split: option.split prod.split)
  moreover have "disp s' = snd (disp_accept lid (disp s)) \<and> deliveries s' = deliveries s \<and> delivered s' = delivered s"
    using AcceptStream assms(3) by (auto split: prod.splits sum.splits option.splits)
  ultimately show ?thesis using inv AcceptStream by (simp add: gate_inv_def held_ok_def)
next
  case (DispatchStream x)
  then show ?thesis using gate_do_dispatch [OF inv, of x s'] assms(3) by simp
qed

lemma dispatched_Cons: "dispatched (a # as) = dispatched [a] @ dispatched as"
  by (cases a) simp_all

lemma gate_run:
  "gate_inv c del cached s \<Longrightarrow> \<forall>a\<in>set as. \<not> ends_handshake c a \<Longrightarrow> disp_run as s = Some s' \<Longrightarrow>
     gate_inv c del (cached @ of_conn c (dispatched as)) s'"
proof (induction as arbitrary: s cached)
  case (Cons a as)
  then obtain s1 where s1: "disp_do a s = Some s1" "disp_run as s1 = Some s'" by (auto simp: bind_eq_Some_conv)
  have "gate_inv c del (cached @ of_conn c (dispatched [a])) s1"
    by (rule gate_do [OF Cons.prems(1) _ s1(1)]) (use Cons.prems(2) in simp)
  from Cons.IH [OF this _ s1(2)] Cons.prems(2) show ?case
    by (simp add: dispatched_Cons [of a as])
qed simp


lemma held_back:
  assumes "sys_ok fresh s" and "unauth_streams (disp s) c = Some cached"
    and "\<forall>xs\<in>set (deliveries s). \<forall>x\<in>set xs. ps_conn (fst x) \<noteq> c"
    and "\<forall>a\<in>set as. \<not> ends_handshake c a" and "disp_run as s = Some s'"
  shows "unauth_streams (disp s') c = Some (cached @ filter (\<lambda>x. ps_conn (fst x) = c) (dispatched as)) \<and>
    (\<forall>lid. filter (\<lambda>x. ps_conn (fst x) = c) (delivered s' lid) = filter (\<lambda>x. ps_conn (fst x) = c) (delivered s lid))"
proof -
  have "\<forall>xs\<in>set (deliveries s). of_conn c xs = []" using assms(3) by (auto simp: of_conn_def filter_empty_conv)
  then have "gate_inv c (\<lambda>lid. of_conn c (delivered s lid)) cached s"
    using sys_okD(4) [OF assms(1)] assms(2) by (simp add: gate_inv_def)
  from gate_run [OF this assms(4,5)] show ?thesis by (simp add: gate_inv_def of_conn_def)
qed

text \<open>C5: The handshake gate. From the start of a handshake of a connection, as long as no call reports
  its end, nothing of that connection reaches any listener, whatever else happens and however the
  calls interleave: all its streams that are dispatched meanwhile are held back, in order.\<close>

theorem handshake_gate:
  assumes "sys_ok fresh s" and "\<forall>xs\<in>set (deliveries s). \<forall>x\<in>set xs. ps_conn (fst x) \<noteq> c"
    and "\<forall>a\<in>set as. \<not> ends_handshake c a"
    and "disp_run (Handshake c # as) s = Some s'"
  shows "unauth_streams (disp s') c = Some (filter (\<lambda>x. ps_conn (fst x) = c) (dispatched as)) \<and>
    (\<forall>lid. filter (\<lambda>x. ps_conn (fst x) = c) (delivered s' lid) = filter (\<lambda>x. ps_conn (fst x) = c) (delivered s lid))"
proof -
  let ?s = "s\<lparr>disp := disp_handshake c (disp s)\<rparr>"
  have "\<forall>xs\<in>set (deliveries s). of_conn c xs = []" using assms(2) by (auto simp: of_conn_def filter_empty_conv)
  then have "gate_inv c (\<lambda>lid. of_conn c (delivered s lid)) [] ?s"
    using sys_okD(4) [OF assms(1)] by (simp add: gate_inv_def disp_handshake_def held_ok_def)
  moreover have "disp_run as ?s = Some s'" using assms(4) by simp
  ultimately have "gate_inv c (\<lambda>lid. of_conn c (delivered s lid)) ([] @ of_conn c (dispatched as)) s'"
    using gate_run [OF _ assms(3)] by blast
  then show ?thesis by (simp add: gate_inv_def of_conn_def)
qed

theorem handshake_gate_witness:
  "unauth_streams (disp (the (disp_run [Handshake ''c1'', DispatchStream kad_stream] disp_start))) ''c1'' = Some [kad_stream]"
proof -
  let ?s = "disp_run [Handshake ''c1'', DispatchStream kad_stream] disp_start"
  have "?s = Some (the ?s)"
    by (simp add: disp_start_def disp_new_def do_dispatch_def disp_dispatch_def disp_handshake_def kad_stream_def)
  from handshake_gate [OF disp_start_ok _ _ this] show ?thesis
    by (simp add: disp_start_def kad_stream_def)
qed

text \<open>The streams held back are released in order when nothing else interferes.\<close>

definition released :: "dispatcher \<Rightarrow> item list \<Rightarrow> dispatcher \<Rightarrow> bool" where
  "released d xs d' \<longleftrightarrow>
     (\<forall>lid. inbound_streams d' lid =
        map_option (\<lambda>q. q @ filter (\<lambda>x. protos d (snd x) = Some lid) xs) (inbound_streams d lid)) \<and>
     protos d' = protos d \<and> unauth_streams d' = unauth_streams d"

lemma released_Nil: "released d [] d"
  by (simp add: released_def option.map_ident)

lemma released_Cons:
  assumes "disp_dispatch x d = Some (n, d1)" and "unauth_streams d (ps_conn (fst x)) = None" and "released d1 xs d2"
  shows "released d (x # xs) d2 \<and> n = protos d (snd x) \<and> protos d1 = protos d \<and> unauth_streams d1 = unauth_streams d"
proof (cases "protos d (snd x)")
  case None
  then show ?thesis using assms by (auto simp: disp_dispatch_def released_def)
next
  case (Some lid)
  then obtain q where q: "inbound_streams d lid = Some q" "n = Some lid"
    and d1: "d1 = d\<lparr>inbound_streams := (inbound_streams d)(lid \<mapsto> q @ [x])\<rparr>"
    using assms(1,2) by (auto simp: disp_dispatch_def split: option.splits)
  show ?thesis using assms(3) Some q unfolding d1 by (simp add: released_def)
qed

lemma deliver_steps:
  assumes "i < length (deliveries s)" and "deliveries s ! i = xs" and "disp_ok (disp s)"
    and "\<forall>x\<in>set xs. unauth_streams (disp s) (ps_conn (fst x)) = None"
  shows "\<exists>s'. disp_run (replicate (length xs) (Deliver i)) s = Some s' \<and> released (disp s) xs (disp s') \<and>
     deliveries s' = (deliveries s)[i := []] \<and>
     (\<forall>lid. delivered s' lid = delivered s lid @ filter (\<lambda>x. protos (disp s) (snd x) = Some lid) xs)"
  using assms
proof (induction xs arbitrary: s)
  case Nil
  then have "(deliveries s)[i := []] = deliveries s" by (simp add: list_update_same_conv)
  then show ?case by (simp add: released_Nil)
next
  case (Cons x xs)
  let ?r = "s\<lparr>deliveries := (deliveries s)[i := xs]\<rparr>"
  have ux: "unauth_streams (disp s) (ps_conn (fst x)) = None" using Cons.prems(4) by simp
  obtain n d where nd: "disp_dispatch x (disp s) = Some (n, d)" "disp_ok d"
    using disp_dispatch_ok [OF Cons.prems(3)] by blast
  have n: "n = protos (disp s) (snd x)" "protos d = protos (disp s)" "unauth_streams d = unauth_streams (disp s)"
    using nd(1) ux by (auto simp: disp_dispatch_def split: option.splits)
  let ?t = "case n of Some lid \<Rightarrow> ?r\<lparr>disp := d, delivered := (delivered s)(lid := delivered s lid @ [x])\<rparr>
                | None \<Rightarrow> ?r\<lparr>disp := d\<rparr>"
  have step: "disp_do (Deliver i) s = Some ?t"
    using Cons.prems(1,2) nd(1) by (simp add: do_dispatch_def split: option.split)
  have d1: "disp ?t = d" "deliveries ?t = (deliveries s)[i := xs]"
    "delivered ?t lid = delivered s lid @ (if n = Some lid then [x] else [])" for lid
    by (auto split: option.split)
  have "\<exists>s'. disp_run (replicate (length xs) (Deliver i)) ?t = Some s' \<and> released (disp ?t) xs (disp s') \<and>
     deliveries s' = (deliveries ?t)[i := []] \<and>
     (\<forall>lid. delivered s' lid = delivered ?t lid @ filter (\<lambda>x. protos (disp ?t) (snd x) = Some lid) xs)"
    by (rule Cons.IH) (use Cons.prems d1 n nd(2) in auto)
  then obtain s' where s': "disp_run (replicate (length xs) (Deliver i)) ?t = Some s'" "released d xs (disp s')"
    "deliveries s' = (deliveries s)[i := []]"
    "\<forall>lid. delivered s' lid = delivered ?t lid @ filter (\<lambda>x. protos d (snd x) = Some lid) xs"
    using d1(1,2) by auto
  have "disp_run (replicate (length (x # xs)) (Deliver i)) s = Some s'" using step s'(1) by simp
  moreover have "released (disp s) (x # xs) (disp s')" using released_Cons [OF nd(1) ux s'(2)] by blast
  moreover have "delivered s' lid = delivered s lid @ filter (\<lambda>x. protos (disp s) (snd x) = Some lid) (x # xs)" for lid
    using s'(4) d1(3) [of lid] n(1,2) by simp
  ultimately show ?case using s'(3) by blast
qed

text \<open>C32: The end of a successful handshake releases what was held back. When no other call comes in
  between, the call together with the dispatches it makes appends to the queue of every listener
  exactly the held streams of its protocols, in the order in which they had come, leaves nothing
  of the connection held back, and changes no other queue, binding or held stream; every
  held stream whose protocol is bound is then in the queue of its listener, so only those of unbound protocols are lost.\<close>

theorem handshake_success_releases:
  assumes "sys_ok fresh s" and "unauth_streams (disp s) c = Some xs"
  shows "\<exists>s'. disp_run (HandshakeSuccess c # replicate (length xs) (Deliver (length (deliveries s)))) s = Some s' \<and>
     (\<forall>lid. inbound_streams (disp s') lid =
        map_option (\<lambda>q. q @ filter (\<lambda>x. protos (disp s) (snd x) = Some lid) xs) (inbound_streams (disp s) lid)) \<and>
     (\<forall>x\<in>set xs. \<forall>lid. protos (disp s) (snd x) = Some lid \<longrightarrow>
        (\<exists>q. inbound_streams (disp s') lid = Some q \<and> x \<in> set q)) \<and>
     protos (disp s') = protos (disp s) \<and> unauth_streams (disp s') = (unauth_streams (disp s))(c := None) \<and>
     deliveries s' = deliveries s @ [[]] \<and>
     (\<forall>lid. delivered s' lid = delivered s lid @ filter (\<lambda>x. protos (disp s) (snd x) = Some lid) xs)"
proof -
  let ?d = "(disp s)\<lparr>unauth_streams := (unauth_streams (disp s))(c := None)\<rparr>"
  let ?s = "s\<lparr>disp := ?d, deliveries := deliveries s @ [xs]\<rparr>"
  have ok: "disp_ok (disp s)" by (rule sys_okD(1) [OF assms(1)])
  have first: "disp_do (HandshakeSuccess c) s = Some ?s" using assms(2) by (simp add: take_unauth_def)
  have "list_all (\<lambda>x. ps_conn (fst x) = c) xs" using sys_okD(4) [OF assms(1)] assms(2) by (simp add: held_ok_def)
  then have "\<forall>x\<in>set xs. unauth_streams (disp ?s) (ps_conn (fst x)) = None" by (auto simp: list_all_iff)
  moreover have "disp_ok (disp ?s)" using ok by (simp add: disp_ok_def)
  ultimately obtain s' where s': "disp_run (replicate (length xs) (Deliver (length (deliveries s)))) ?s = Some s'"
    "released ?d xs (disp s')" "deliveries s' = (deliveries ?s)[length (deliveries s) := []]"
    "\<forall>lid. delivered s' lid = delivered ?s lid @ filter (\<lambda>x. protos (disp ?s) (snd x) = Some lid) xs"
    using deliver_steps [of "length (deliveries s)" ?s xs] by auto
  have queue: "inbound_streams (disp s') lid =
      map_option (\<lambda>q. q @ filter (\<lambda>x. protos (disp s) (snd x) = Some lid) xs) (inbound_streams (disp s) lid)" for lid
    using s'(2) by (simp add: released_def)
  have "\<exists>q. inbound_streams (disp s') lid = Some q \<and> x \<in> set q" if "x \<in> set xs" "protos (disp s) (snd x) = Some lid" for x lid
    using disp_okD [OF ok that(2)] queue [of lid] that by auto
  with first s' queue show ?thesis by (simp add: released_def)
qed

definition held_one :: disp_sys where
  "held_one = \<lparr>disp = \<lparr>disp_closed = False, inbound_streams = [1 \<mapsto> []], protos = [''/kad'' \<mapsto> 1],
      unauth_streams = [''c1'' \<mapsto> [ping_stream, kad_stream]]\<rparr>, deliveries = [], accepted = (\<lambda>_. []), delivered = (\<lambda>_. [])\<rparr>"

theorem handshake_success_releases_witness:
  "\<exists>s'. disp_run [HandshakeSuccess ''c1'', Deliver 0, Deliver 0] held_one = Some s' \<and>
     inbound_streams (disp s') 1 = Some [ping_stream, kad_stream]"
proof -
  have "sys_ok {} held_one"
    by (auto simp: sys_ok_def disp_ok_def held_one_def fifo_ok_def held_ok_def kad_stream_def ping_stream_def split: if_splits)
  from handshake_success_releases [OF this, of "''c1''" "[ping_stream, kad_stream]"] show ?thesis
    by (auto simp: held_one_def kad_stream_def ping_stream_def numeral_2_eq_2)
qed

text \<open>After \<open>handshake_failed\<close> the gate is open: a stream of the connection that failed to
  authenticate is dispatched to the listener of its protocol like any other.\<close>

theorem failed_handshake_opens_gate:
  "\<exists>s. disp_run [BindListener 1 [''/kad''], Handshake ''c1'', HandshakeFailed ''c1'', DispatchStream kad_stream,
         AcceptStream 1] disp_start = Some s \<and> accepted s 1 = [kad_stream]"
  by (simp add: disp_start_def disp_new_def disp_bind_def disp_handshake_def disp_handshake_failed_def take_unauth_def
      do_dispatch_def disp_dispatch_def disp_accept_def kad_stream_def insert_keys_def)

text \<open>\<open>bind\<close> is all or nothing: it fails, leaving the dispatcher as it was, when the dispatcher
  is closed or some protocol has a listener; otherwise all its protocols and no other lead to the new
  listener in addition to those bound before. After \<open>close\<close> no protocol leads to it, and \<open>accept\<close> fails.\<close>

theorem bind_all_or_nothing:
  "(case disp_bind lid ps d of
      (Inl e, d') \<Rightarrow> d' = d \<and> (disp_closed d \<or> (\<exists>p\<in>set ps. protos d p \<noteq> None))
    | (Inr _, d') \<Rightarrow> \<not> disp_closed d \<and> (\<forall>p\<in>set ps. protos d p = None) \<and>
        (\<forall>p. protos d' p = (if p \<in> set ps then Some lid else protos d p)) \<and> inbound_streams d' lid = Some []) \<and>
   (\<forall>p. protos (disp_close lid d) p \<noteq> Some lid) \<and>
   fst (disp_accept lid (disp_close lid d)) = Inl (error_to_io (ProtocolListenerErr lid))"
  by (auto simp: disp_bind_def disp_close_def disp_accept_def insert_keys_apply find_Some_iff find_None_iff
      split: option.split)

end
