(* ===== verification/EventMediator.thy ===== *)
theory EventMediator
  imports Net_Types
begin

text \<open>
  \<open>xstack/src/event.rs\<close>: the events of a switch, the typed event sources, and the default
  mediator \<open>SyncEventMediator\<close>, which maps an event name to the senders of its listeners.

  A listener's channel is the queue of its id. \<open>raise\<close> copies the senders under the lock, sends
  without it, and locks again to drop the senders whose receiver is gone; these three parts are
  separate steps, so that binds, closes and other raises come in between. Whether \<open>try_send\<close> finds a
  channel full is up to the channel (an argument of the step).
\<close>

section \<open>Events\<close>

datatype event =
    EvConnected string peer_id
  | EvHandshakeSuccess string peer_id
  | EvHandshakeFailed string peer_id
  | EvNetwork auto_nat

definition EVENT_CONNECTED :: string where "EVENT_CONNECTED = ''/xstack/connected''"
definition EVENT_HANDSHAKE_SUCCESS :: string where "EVENT_HANDSHAKE_SUCCESS = ''/xstack/handshake_success''"
definition EVENT_HANDSHAKE_FAILED :: string where "EVENT_HANDSHAKE_FAILED = ''/xstack/handshake_failed''"
definition EVENT_NETWORK :: string where "EVENT_NETWORK = ''/xstack/network''"

fun to_name :: "event \<Rightarrow> string" where
  "to_name (EvNetwork _) = EVENT_NETWORK"
| "to_name (EvConnected _ _) = EVENT_CONNECTED"
| "to_name (EvHandshakeSuccess _ _) = EVENT_HANDSHAKE_SUCCESS"
| "to_name (EvHandshakeFailed _ _) = EVENT_HANDSHAKE_FAILED"

text \<open>The four marker types of module \<open>events\<close>, their \<open>name\<close> and \<open>into_argument\<close>; \<open>None\<close> is the panic.\<close>

datatype event_kind = KConnected | KHandshakeSuccess | KHandshakeFailed | KNetwork

datatype event_arg = ConnArg string peer_id | NatArg auto_nat

fun kind_name :: "event_kind \<Rightarrow> string" where
  "kind_name KConnected = EVENT_CONNECTED"
| "kind_name KHandshakeSuccess = EVENT_HANDSHAKE_SUCCESS"
| "kind_name KHandshakeFailed = EVENT_HANDSHAKE_FAILED"
| "kind_name KNetwork = EVENT_NETWORK"

fun into_argument :: "event_kind \<Rightarrow> event \<Rightarrow> event_arg option" where
  "into_argument KConnected (EvConnected cid pid) = Some (ConnArg cid pid)"
| "into_argument KHandshakeSuccess (EvHandshakeSuccess cid pid) = Some (ConnArg cid pid)"
| "into_argument KHandshakeFailed (EvHandshakeFailed cid pid) = Some (ConnArg cid pid)"
| "into_argument KNetwork (EvNetwork v) = Some (NatArg v)"
| "into_argument _ _ = None"

lemmas event_names = EVENT_CONNECTED_def EVENT_HANDSHAKE_SUCCESS_def EVENT_HANDSHAKE_FAILED_def EVENT_NETWORK_def

lemma into_argument_Some_iff: "(\<exists>a. into_argument k e = Some a) \<longleftrightarrow> to_name e = kind_name k"
  by (cases k; cases e) (simp_all add: event_names)

lemma kind_name_inj: "kind_name k = kind_name k' \<longleftrightarrow> k = k'"
  by (cases k; cases k') (simp_all add: event_names)

section \<open>The mediator\<close>

record mediator =
  senders :: "string \<rightharpoonup> nat set"
  queues :: "nat \<Rightarrow> event list"
  receivers_gone :: "nat set"
  raising :: "(event \<times> nat list \<times> nat list) list"

definition med_new :: mediator where
  "med_new = \<lparr>senders = Map.empty, queues = (\<lambda>_. []), receivers_gone = {}, raising = []\<rparr>"

definition med_bind :: "nat \<Rightarrow> string \<Rightarrow> mediator \<Rightarrow> mediator" where
  "med_bind lid name m =
     (case senders m name of
        Some ids \<Rightarrow> m\<lparr>senders := (senders m)(name \<mapsto> insert lid ids)\<rparr>
      | None \<Rightarrow> m\<lparr>senders := (senders m)(name \<mapsto> {lid})\<rparr>)"

text \<open>\<open>close\<close>: the maps are visited in the order of \<open>names\<close>, the first that has the id loses it.\<close>

definition med_close :: "string list \<Rightarrow> nat \<Rightarrow> mediator \<Rightarrow> mediator" where
  "med_close names lid m =
     (case find (\<lambda>name. \<exists>ids. senders m name = Some ids \<and> lid \<in> ids) names of
        Some name \<Rightarrow> m\<lparr>senders := (senders m)(name \<mapsto> the (senders m name) - {lid})\<rparr>
      | None \<Rightarrow> m)"

text \<open>The receiver side is dropped: the channel is disconnected.\<close>

definition med_drop :: "nat \<Rightarrow> mediator \<Rightarrow> mediator" where
  "med_drop lid m = m\<lparr>receivers_gone := insert lid (receivers_gone m)\<rparr>"

text \<open>\<open>raise\<close>: copy the senders (\<open>order\<close> is the iteration order of the copy), send, clean up.\<close>

definition raise_start :: "nat list \<Rightarrow> event \<Rightarrow> mediator \<Rightarrow> mediator" where
  "raise_start order event m =
     (case senders m (to_name event) of
        Some ids \<Rightarrow> m\<lparr>raising := raising m @ [(event, order, [])]\<rparr>
      | None \<Rightarrow> m)"

definition raise_send :: "nat \<Rightarrow> bool \<Rightarrow> mediator \<Rightarrow> mediator" where
  "raise_send i full m =
     (if i < length (raising m)
      then (case raising m ! i of
              (event, [], disconnected) \<Rightarrow> m
            | (event, lid # rest, disconnected) \<Rightarrow>
                if lid \<in> receivers_gone m
                then m\<lparr>raising := (raising m)[i := (event, rest, disconnected @ [lid])]\<rparr>
                else if full then m\<lparr>raising := (raising m)[i := (event, rest, disconnected)]\<rparr>
                else m\<lparr>raising := (raising m)[i := (event, rest, disconnected)],
                       queues := (queues m)(lid := queues m lid @ [event])\<rparr>)
      else m)"

definition raise_end :: "nat \<Rightarrow> mediator \<Rightarrow> mediator" where
  "raise_end i m =
     (if i < length (raising m)
      then (case raising m ! i of
              (event, [], disconnected) \<Rightarrow>
                (let m' = m\<lparr>raising := (raising m)[i := (event, [], [])]\<rparr> in
                 case senders m' (to_name event) of
                   Some ids \<Rightarrow> m'\<lparr>senders := (senders m')(to_name event \<mapsto> ids - set disconnected)\<rparr>
                 | None \<Rightarrow> m')
            | _ \<Rightarrow> m)
      else m)"

datatype med_act =
    MBind nat event_kind
  | MClose "string list" nat
  | MDrop nat
  | MRaise "nat list" event
  | MSend nat bool
  | MEnd nat

text \<open>A \<open>raise\<close> iterates over the senders that are there: each of them once.\<close>

fun med_do :: "med_act \<Rightarrow> mediator \<Rightarrow> mediator" where
  "med_do (MBind lid kind) m = med_bind lid (kind_name kind) m"
| "med_do (MClose names lid) m = med_close names lid m"
| "med_do (MDrop lid) m = med_drop lid m"
| "med_do (MRaise order event) m =
     (if distinct order \<and> senders m (to_name event) = Some (set order) then raise_start order event m
      else if senders m (to_name event) = None then raise_start [] event m else m)"
| "med_do (MSend i full) m = raise_send i full m"
| "med_do (MEnd i) m = raise_end i m"

abbreviation med_run :: "med_act list \<Rightarrow> mediator \<Rightarrow> mediator" where
  "med_run as m \<equiv> fold med_do as m"

section \<open>The invariant\<close>

text \<open>
  \<open>typed B m\<close>: \<open>B\<close> gives the kind each id was bound for (\<open>None\<close> for an id not bound yet). Senders and raises
  only concern ids of the event's name, and so do the queues.
\<close>

definition bound_as :: "(nat \<rightharpoonup> event_kind) \<Rightarrow> nat \<Rightarrow> string \<Rightarrow> bool" where
  "bound_as B lid name \<longleftrightarrow> (case B lid of Some k \<Rightarrow> kind_name k = name | None \<Rightarrow> False)"

definition typed :: "(nat \<rightharpoonup> event_kind) \<Rightarrow> mediator \<Rightarrow> bool" where
  "typed B m \<longleftrightarrow>
     (\<forall>name ids. senders m name = Some ids \<longrightarrow> (\<forall>lid\<in>ids. bound_as B lid name)) \<and>
     (\<forall>lid. \<forall>e\<in>set (queues m lid). bound_as B lid (to_name e)) \<and>
     (\<forall>r\<in>set (raising m). \<forall>lid\<in>set (fst (snd r)). bound_as B lid (to_name (fst r)))"

lemma typedD:
  assumes "typed B m"
  shows "senders m name = Some ids \<Longrightarrow> lid \<in> ids \<Longrightarrow> bound_as B lid name"
    and "e \<in> set (queues m lid) \<Longrightarrow> bound_as B lid (to_name e)"
    and "r \<in> set (raising m) \<Longrightarrow> lid \<in> set (fst (snd r)) \<Longrightarrow> bound_as B lid (to_name (fst r))"
  using assms unfolding typed_def by blast+

lemma typed_new: "typed Map.empty med_new"
  by (simp add: typed_def med_new_def)

lemma typed_more:
  assumes T: "typed B m" and le: "\<And>lid name. bound_as B lid name \<Longrightarrow> bound_as B' lid name"
  shows "typed B' m"
  using T unfolding typed_def by (blast intro: le)

lemma typed_bind:
  assumes "typed B m" and "B lid = None"
  shows "typed (B(lid \<mapsto> k)) (med_bind lid (kind_name k) m)"
proof -
  have T: "typed (B(lid \<mapsto> k)) m"
    by (rule typed_more [OF assms(1)]) (use assms(2) in \<open>auto simp: bound_as_def split: option.splits\<close>)
  have k: "bound_as (B(lid \<mapsto> k)) lid (kind_name k)" by (simp add: bound_as_def)
  define ids where "ids = (case senders m (kind_name k) of Some ids \<Rightarrow> ids | None \<Rightarrow> {})"
  have ids: "bound_as (B(lid \<mapsto> k)) l (kind_name k)" if "l \<in> ids" for l
    using that typedD(1) [OF T, of "kind_name k"] by (auto simp: ids_def split: option.splits)
  have "med_bind lid (kind_name k) m = m\<lparr>senders := (senders m)(kind_name k \<mapsto> insert lid ids)\<rparr>"
    by (simp add: med_bind_def ids_def split: option.split)
  then show ?thesis using T k ids unfolding typed_def by simp
qed

lemma typed_senders_less:
  assumes T: "typed B m" and "queues m' = queues m" and "raising m' = raising m"
    and less: "\<forall>name ids. senders m' name = Some ids \<longrightarrow> (\<exists>ids'. senders m name = Some ids' \<and> ids \<subseteq> ids')"
  shows "typed B m'"
  unfolding typed_def
proof (intro conjI allI impI ballI)
  fix name ids lid
  assume "senders m' name = Some ids" and l: "lid \<in> ids"
  with less obtain ids' where "senders m name = Some ids'" "ids \<subseteq> ids'" by blast
  with l typedD(1) [OF T] show "bound_as B lid name" by blast
qed (use typedD(2,3) [OF T] assms(2,3) in auto)

lemma typed_close:
  assumes T: "typed B m"
  shows "typed B (med_close names lid m)"
proof (cases "find (\<lambda>name. \<exists>ids. senders m name = Some ids \<and> lid \<in> ids) names")
  case None
  then show ?thesis using T by (simp add: med_close_def)
next
  case (Some name)
  then obtain ids where "senders m name = Some ids" by (auto simp: find_Some_iff)
  with Some have "med_close names lid m = m\<lparr>senders := (senders m)(name \<mapsto> ids - {lid})\<rparr>"
    by (simp add: med_close_def)
  then show ?thesis using \<open>senders m name = Some ids\<close> by (intro typed_senders_less [OF T]) (auto split: if_splits)
qed

lemma typed_drop: "typed B m \<Longrightarrow> typed B (med_drop lid m)"
  by (simp add: typed_def med_drop_def)

lemma typed_start:
  assumes "typed B m" and "senders m (to_name e) = Some (set order)"
  shows "typed B (raise_start order e m)"
  using assms typedD(1) [OF assms] by (auto simp: typed_def raise_start_def)

lemma typed_send:
  assumes T: "typed B m"
  shows "typed B (raise_send i full m)"
proof (cases "i < length (raising m) \<and> fst (snd (raising m ! i)) \<noteq> []")
  case False
  then have "raise_send i full m = m" by (auto simp: raise_send_def split: prod.split list.split)
  with T show ?thesis by simp
next
  case True
  then obtain e lid rest d where r: "raising m ! i = (e, lid # rest, d)"
    by (cases "raising m ! i"; cases "fst (snd (raising m ! i))") auto
  have mem: "(e, lid # rest, d) \<in> set (raising m)" using True r by (metis nth_mem)
  have k: "bound_as B lid (to_name e)"
    using typedD(3) [OF T mem, of lid] by simp
  have rs: "\<forall>r\<in>set ((raising m)[i := (e, rest, d')]). \<forall>l\<in>set (fst (snd r)). bound_as B l (to_name (fst r))" for d'
  proof (intro ballI)
    fix r' l
    assume "r' \<in> set ((raising m)[i := (e, rest, d')])" and l: "l \<in> set (fst (snd r'))"
    then have "r' = (e, rest, d') \<or> r' \<in> set (raising m)" using set_update_subset_insert by fastforce
    then show "bound_as B l (to_name (fst r'))"
      using typedD(3) [OF T mem, of l] typedD(3) [OF T, of r' l] l by auto
  qed
  let ?m1 = "m\<lparr>raising := (raising m)[i := (e, rest, d @ [lid])]\<rparr>"
  let ?m2 = "m\<lparr>raising := (raising m)[i := (e, rest, d)]\<rparr>"
  let ?m3 = "?m2\<lparr>queues := (queues m)(lid := queues m lid @ [e])\<rparr>"
  have "raise_send i full m = (if lid \<in> receivers_gone m then ?m1 else if full then ?m2 else ?m3)"
    using True r by (simp add: raise_send_def)
  moreover have "typed B ?m1" "typed B ?m2" using T rs unfolding typed_def by simp_all
  moreover from this(2) have "typed B ?m3" using k unfolding typed_def by auto
  ultimately show ?thesis by simp
qed

lemma typed_end:
  assumes T: "typed B m"
  shows "typed B (raise_end i m)"
proof (cases "i < length (raising m) \<and> fst (snd (raising m ! i)) = []")
  case False
  then have "raise_end i m = m" by (auto simp: raise_end_def split: prod.split list.split)
  with T show ?thesis by simp
next
  case True
  then obtain e d where r: "raising m ! i = (e, [], d)" by (cases "raising m ! i") auto
  let ?m = "m\<lparr>raising := (raising m)[i := (e, [], [])]\<rparr>"
  have "\<forall>r\<in>set ((raising m)[i := (e, [], [])]). r = (e, [], []) \<or> r \<in> set (raising m)"
    using set_update_subset_insert by fastforce
  then have m: "typed B ?m" using T unfolding typed_def by fastforce
  have "raise_end i m = ?m \<or>
     (\<exists>ids. senders m (to_name e) = Some ids \<and> raise_end i m = ?m\<lparr>senders := (senders m)(to_name e \<mapsto> ids - set d)\<rparr>)"
    using True r by (auto simp: raise_end_def split: option.split)
  then show ?thesis
  proof
    assume "\<exists>ids. senders m (to_name e) = Some ids \<and> raise_end i m = ?m\<lparr>senders := (senders m)(to_name e \<mapsto> ids - set d)\<rparr>"
    then show ?thesis by (auto intro!: typed_senders_less [OF m] split: if_splits)
  qed (use m in simp)
qed

text \<open>The ids that a run binds, with their kinds.\<close>

fun bound_ids :: "med_act list \<Rightarrow> nat list" where
  "bound_ids [] = []"
| "bound_ids (MBind lid k # as) = lid # bound_ids as"
| "bound_ids (_ # as) = bound_ids as"

fun bindings :: "med_act list \<Rightarrow> (nat \<rightharpoonup> event_kind) \<Rightarrow> nat \<rightharpoonup> event_kind" where
  "bindings [] B = B"
| "bindings (MBind lid k # as) B = bindings as (B(lid \<mapsto> k))"
| "bindings (_ # as) B = bindings as B"

lemma typed_run:
  "typed B m \<Longrightarrow> distinct (bound_ids as) \<Longrightarrow> \<forall>lid\<in>set (bound_ids as). B lid = None \<Longrightarrow>
     typed (bindings as B) (med_run as m)"
proof (induction as arbitrary: B m)
  case (Cons a as)
  show ?case
  proof (cases a)
    case (MBind lid k)
    have "typed (B(lid \<mapsto> k)) (med_bind lid (kind_name k) m)"
      by (rule typed_bind [OF Cons.prems(1)]) (use Cons.prems(3) MBind in simp)
    moreover have "typed (bindings as (B(lid \<mapsto> k))) (med_run as (med_bind lid (kind_name k) m))"
      by (rule Cons.IH [OF calculation]) (use Cons.prems(2,3) MBind in auto)
    ultimately show ?thesis using MBind by simp
  next
    case (MClose names lid)
    then show ?thesis using Cons typed_close by auto
  next
    case (MDrop lid)
    then show ?thesis using Cons typed_drop by auto
  next
    case (MRaise order e)
    have "typed B (med_do (MRaise order e) m)"
      using Cons.prems(1) typed_start [OF Cons.prems(1), of e order] by (auto simp: raise_start_def)
    then show ?thesis using Cons MRaise by auto
  next
    case (MSend i full)
    then show ?thesis using Cons typed_send by auto
  next
    case (MEnd i)
    then show ?thesis using Cons typed_end by auto
  qed
qed simp

text \<open>Typed delivery. Whatever binds, closes, drops and raises run concurrently, with ids that
  are not used twice, each event in the queue of a listener is of the kind that the listener was
  bound for, so that \<open>into_argument\<close> never panics on it.\<close>

theorem events_well_typed:
  assumes "distinct (bound_ids as)"
  shows "\<forall>lid. \<forall>e\<in>set (queues (med_run as med_new) lid).
    \<exists>k arg. bindings as Map.empty lid = Some k \<and> into_argument k e = Some arg"
proof (intro allI ballI)
  fix lid e
  assume "e \<in> set (queues (med_run as med_new) lid)"
  with typedD(2) [OF typed_run [OF typed_new assms]]
  have "bound_as (bindings as Map.empty) lid (to_name e)" by simp
  then obtain k where "bindings as Map.empty lid = Some k" "kind_name k = to_name e"
    by (auto simp: bound_as_def split: option.splits)
  with into_argument_Some_iff [of k e] show "\<exists>k arg. bindings as Map.empty lid = Some k \<and> into_argument k e = Some arg"
    by auto
qed

theorem events_well_typed_witness:
  "queues (med_run [MBind 1 KNetwork, MRaise [1] (EvNetwork NAT), MSend 0 False, MEnd 0] med_new) 1 = [EvNetwork NAT] \<and>
   (\<exists>k arg. bindings [MBind 1 KNetwork, MRaise [1] (EvNetwork NAT), MSend 0 False, MEnd 0] Map.empty 1 = Some k \<and>
      into_argument k (EvNetwork NAT) = Some arg)"
proof -
  let ?acts = "[MBind 1 KNetwork, MRaise [1] (EvNetwork NAT), MSend 0 False, MEnd 0]"
  have q: "queues (med_run ?acts med_new) 1 = [EvNetwork NAT]"
    by (simp add: med_new_def med_bind_def raise_start_def raise_send_def raise_end_def)
  with events_well_typed [of ?acts] show ?thesis by fastforce
qed

section \<open>An undisturbed raise\<close>

lemma send_all:
  assumes "i < length (raising m)" and "raising m ! i = (e, order, d)" and "distinct order"
  shows "\<exists>m'. med_run (replicate (length order) (MSend i False)) m = m' \<and> length (raising m') = length (raising m) \<and>
    raising m' ! i = (e, [], d @ filter (\<lambda>l. l \<in> receivers_gone m) order) \<and> senders m' = senders m \<and>
    (\<forall>lid. queues m' lid = queues m lid @ (if lid \<in> set order \<and> lid \<notin> receivers_gone m then [e] else []))"
  using assms
proof (induction order arbitrary: m d)
  case (Cons l order)
  let ?m1 = "raise_send i False m"
  have m1: "length (raising ?m1) = length (raising m)" "senders ?m1 = senders m" "receivers_gone ?m1 = receivers_gone m"
    "raising ?m1 ! i = (e, order, if l \<in> receivers_gone m then d @ [l] else d)"
    "queues ?m1 = (if l \<in> receivers_gone m then queues m else (queues m)(l := queues m l @ [e]))"
    using Cons.prems by (simp_all add: raise_send_def)
  from Cons.IH [of ?m1, OF _ m1(4)] m1(1) Cons.prems(1,3) obtain m' where
    m': "med_run (replicate (length order) (MSend i False)) ?m1 = m'" "length (raising m') = length (raising m)"
      "raising m' ! i = (e, [], (if l \<in> receivers_gone m then d @ [l] else d) @ filter (\<lambda>l. l \<in> receivers_gone m) order)"
      "senders m' = senders m"
      "\<forall>lid. queues m' lid = queues ?m1 lid @ (if lid \<in> set order \<and> lid \<notin> receivers_gone m then [e] else [])"
    using m1(2,3) by auto
  have "l \<notin> set order" using Cons.prems(3) by simp
  then have "\<forall>lid. queues m' lid = queues m lid @ (if lid \<in> set (l # order) \<and> lid \<notin> receivers_gone m then [e] else [])"
    using m'(5) m1(5) by auto
  with m' show ?case by simp
qed simp

text \<open>A raise that nothing interrupts and whose listeners have room appends the event once to the queue
  of every listener of its name that is still there, to no other queue, and unregisters exactly
  the listeners whose receiver is gone.\<close>

theorem raise_reaches_listeners:
  assumes "senders m (to_name e) = Some (set order)" and "distinct order"
  defines "i \<equiv> length (raising m)"
  shows "\<exists>m'. med_run (MRaise order e # replicate (length order) (MSend i False) @ [MEnd i]) m = m' \<and>
    (\<forall>lid. queues m' lid = queues m lid @ (if lid \<in> set order \<and> lid \<notin> receivers_gone m then [e] else [])) \<and>
    senders m' = (senders m)(to_name e \<mapsto> set order - receivers_gone m)"
proof -
  let ?m0 = "m\<lparr>raising := raising m @ [(e, order, [])]\<rparr>"
  have start: "med_do (MRaise order e) m = ?m0" using assms(1,2) by (simp add: raise_start_def)
  have i: "i < length (raising ?m0)" "raising ?m0 ! i = (e, order, [])" by (simp_all add: i_def)
  from send_all [OF i assms(2)] obtain m1 where
    m1: "med_run (replicate (length order) (MSend i False)) ?m0 = m1" "length (raising m1) = length (raising ?m0)"
      "raising m1 ! i = (e, [], filter (\<lambda>l. l \<in> receivers_gone m) order)" "senders m1 = senders m"
      "\<forall>lid. queues m1 lid = queues m lid @ (if lid \<in> set order \<and> lid \<notin> receivers_gone m then [e] else [])"
    by auto
  let ?m2 = "raise_end i m1"
  have "queues ?m2 = queues m1" "senders ?m2 = (senders m)(to_name e \<mapsto> set order - receivers_gone m)"
    using m1(2-4) i(1) assms(1) by (auto simp: raise_end_def Let_def)
  moreover have "med_run (MRaise order e # replicate (length order) (MSend i False) @ [MEnd i]) m = ?m2"
    using start m1(1) by simp
  ultimately show ?thesis using m1(5) by auto
qed

theorem raise_reaches_listeners_witness:
  "\<exists>m'. med_run [MRaise [1, 2] (EvNetwork NAT), MSend 0 False, MSend 0 False, MEnd 0]
        (med_drop 2 (med_bind 2 EVENT_NETWORK (med_bind 1 EVENT_NETWORK med_new))) = m' \<and>
      queues m' 1 = [EvNetwork NAT] \<and> queues m' 2 = [] \<and> senders m' EVENT_NETWORK = Some {1}"
proof -
  let ?m = "med_drop 2 (med_bind 2 EVENT_NETWORK (med_bind 1 EVENT_NETWORK med_new))"
  have "senders ?m (to_name (EvNetwork NAT)) = Some (set [1, 2])"
    by (auto simp: med_drop_def med_bind_def med_new_def)
  from raise_reaches_listeners [OF this] show ?thesis
    by (auto simp: med_drop_def med_bind_def med_new_def numeral_2_eq_2)
qed

end
