(* ===== verification/SwitchCore.thy ===== *)
theory SwitchCore
  imports PeerBook StreamDispatch EventMediator Rpc
begin

text \<open>
  \<open>xstack/src/switch\<close>: the mutable part of a switch (\<open>mutable.rs\<close>), its options and builder
  (\<open>builder.rs\<close>), the identify protocol (\<open>protocols.rs\<close>) and the connection set-up and stream
  dispatch of \<open>switch.rs\<close>.

  The switch state is what these functions change: the mutable part, the peer book, the stream
  dispatcher and the events raised so far. Protobuf, varint, key and multiaddr encodings are the
  fields of a \<open>codec\<close>; what a transport or a peer answers is an argument.
\<close>

section \<open>The mutable part\<close>

record mutable_switch =
  max_observed_addrs_len :: nat
  ms_laddrs :: "multiaddr list"
  ms_observed :: "multiaddr list"
  ms_nat_addrs :: "multiaddr set"
  ms_nat :: auto_nat

definition mutable_new :: "nat \<Rightarrow> mutable_switch" where
  "mutable_new n = \<lparr>max_observed_addrs_len = n, ms_laddrs = [], ms_observed = [], ms_nat_addrs = {},
     ms_nat = auto_nat_default\<rparr>"

definition transport_bind_to :: "multiaddr \<Rightarrow> mutable_switch \<Rightarrow> mutable_switch" where
  "transport_bind_to addr m = m\<lparr>ms_laddrs := ms_laddrs m @ [addr]\<rparr>"

definition local_addrs :: "mutable_switch \<Rightarrow> multiaddr list" where
  "local_addrs m = ms_laddrs m"

text \<open>\<open>order\<close> is the order in which the set of NAT addresses is iterated.\<close>

definition listen_addrs :: "multiaddr list \<Rightarrow> mutable_switch \<Rightarrow> multiaddr list" where
  "listen_addrs order m =
     (case ms_nat m of
        Public \<Rightarrow> ms_observed m
      | NAT \<Rightarrow> order
      | Unknown \<Rightarrow> [])"

definition set_observed_addrs :: "multiaddr list \<Rightarrow> mutable_switch \<Rightarrow> mutable_switch" where
  "set_observed_addrs addrs m =
     fold (\<lambda>addr m.
       let m = (if length (ms_observed m) = max_observed_addrs_len m
                then m\<lparr>ms_observed := snd (pop_front (ms_observed m))\<rparr> else m)
       in m\<lparr>ms_observed := ms_observed m @ [addr]\<rparr>) addrs m"

definition observed_addrs :: "mutable_switch \<Rightarrow> multiaddr list" where
  "observed_addrs m = ms_observed m"

definition set_net_addrs :: "multiaddr list \<Rightarrow> mutable_switch \<Rightarrow> mutable_switch" where
  "set_net_addrs addrs m = m\<lparr>ms_nat_addrs := ms_nat_addrs m \<union> set addrs\<rparr>"

definition remove_net_addrs :: "multiaddr list \<Rightarrow> mutable_switch \<Rightarrow> mutable_switch" where
  "remove_net_addrs addrs m = m\<lparr>ms_nat_addrs := ms_nat_addrs m - set addrs\<rparr>"

definition set_nat :: "auto_nat \<Rightarrow> mutable_switch \<Rightarrow> mutable_switch" where
  "set_nat state m = m\<lparr>ms_nat := state\<rparr>"

section \<open>Options and builder\<close>

text \<open>A transport is its name and its \<open>multiaddr_hint\<close>. The timeout is in seconds.\<close>

record transport =
  tr_name :: string
  tr_hint :: "multiaddr \<Rightarrow> bool"

record switch_options =
  so_max_observed :: nat
  so_connect_replication :: nat
  so_timeout :: nat
  so_agent_version :: string
  so_max_packet_size :: nat
  so_transports :: "transport list"

definition options_new :: "string \<Rightarrow> switch_options" where
  "options_new agent_version =
     \<lparr>so_max_observed = 5, so_connect_replication = 3, so_timeout = 20, so_agent_version = agent_version,
      so_max_packet_size = 1024 * 1024 * 4, so_transports = []\<rparr>"

definition get_transport_by_address :: "switch_options \<Rightarrow> multiaddr \<Rightarrow> transport option" where
  "get_transport_by_address ops laddr = find (\<lambda>t. tr_hint t laddr) (so_transports ops)"

record builder_inner =
  bi_laddrs :: "multiaddr list"
  bi_ops :: switch_options

type_synonym builder = "xs_error + builder_inner"

definition builder_new :: "string \<Rightarrow> builder" where
  "builder_new agent_version = Inr \<lparr>bi_laddrs = [], bi_ops = options_new agent_version\<rparr>"

definition builder_set :: "(switch_options \<Rightarrow> switch_options) \<Rightarrow> builder \<Rightarrow> builder" where
  "builder_set f b = and_then b (\<lambda>cfg. Inr (cfg\<lparr>bi_ops := f (bi_ops cfg)\<rparr>))"

definition builder_timeout :: "nat \<Rightarrow> builder \<Rightarrow> builder" where
  "builder_timeout v = builder_set (\<lambda>o1. o1\<lparr>so_timeout := v\<rparr>)"

definition builder_max_observed :: "nat \<Rightarrow> builder \<Rightarrow> builder" where
  "builder_max_observed v = builder_set (\<lambda>o1. o1\<lparr>so_max_observed := v\<rparr>)"

definition builder_max_packet_size :: "nat \<Rightarrow> builder \<Rightarrow> builder" where
  "builder_max_packet_size v = builder_set (\<lambda>o1. o1\<lparr>so_max_packet_size := v\<rparr>)"

definition builder_connect_replication :: "nat \<Rightarrow> builder \<Rightarrow> builder" where
  "builder_connect_replication v = builder_set (\<lambda>o1. o1\<lparr>so_connect_replication := v\<rparr>)"

definition builder_transport :: "transport \<Rightarrow> builder \<Rightarrow> builder" where
  "builder_transport t = builder_set (\<lambda>o1. o1\<lparr>so_transports := so_transports o1 @ [t]\<rparr>)"

definition builder_transport_bind :: "(xs_error + multiaddr) list \<Rightarrow> builder \<Rightarrow> builder" where
  "builder_transport_bind items b =
     and_then b (\<lambda>cfg. and_then (try_map (\<lambda>x. x) items) (\<lambda>addrs. Inr (cfg\<lparr>bi_laddrs := addrs\<rparr>)))"

section \<open>The state of a switch\<close>

record switch_st =
  sw_mut :: mutable_switch
  sw_book :: peer_book
  sw_disp :: dispatcher
  sw_events :: "event list"

record identity_msg =
  im_protocol_version :: "string option"
  im_agent_version :: "string option"
  im_public_key :: "bytes option"
  im_listen_addrs :: "bytes list"
  im_observed_addr :: "bytes option"
  im_protocols :: "string list"
  im_signed_record :: "bytes option"

record codec =
  enc_varint :: "nat \<Rightarrow> bytes"
  dec_varint :: "bytes \<Rightarrow> string + nat \<times> bytes"
  wr_identity :: "identity_msg \<Rightarrow> string + bytes"
  parse_identity :: "bytes \<Rightarrow> string + identity_msg"
  addr_bytes :: "multiaddr \<Rightarrow> bytes"
  parse_addr :: "bytes \<Rightarrow> string + multiaddr"
  key_bytes :: "public_key \<Rightarrow> bytes"
  parse_key :: "bytes \<Rightarrow> string + public_key"
  key_peer :: "public_key \<Rightarrow> peer_id"

section \<open>The identify protocol\<close>

definition PROTOCOL_IPFS_ID :: string where "PROTOCOL_IPFS_ID = ''/ipfs/id/1.0.0''"
definition PROTOCOL_IPFS_PUSH_ID :: string where "PROTOCOL_IPFS_PUSH_ID = ''/ipfs/id/push/1.0.0''"
definition PROTOCOL_IPFS_PING :: string where "PROTOCOL_IPFS_PING = ''/ipfs/ping/1.0.0''"

definition merge_protos :: "string list \<Rightarrow> string list" where
  "merge_protos ps = ps @ [PROTOCOL_IPFS_ID, PROTOCOL_IPFS_PUSH_ID, PROTOCOL_IPFS_PING]"

definition not_relayed :: "multiaddr \<Rightarrow> bool" where
  "not_relayed addr \<longleftrightarrow> (\<forall>proto\<in>set addr. proto \<noteq> P2pCircuit)"

text \<open>What \<open>identity_push\<close> makes of a received message: the peer info and the observed addresses.\<close>

definition check_identity ::
    "codec \<Rightarrow> nat \<Rightarrow> peer_id \<Rightarrow> identity_msg \<Rightarrow> xs_error + peer_info \<times> multiaddr list" where
  "check_identity k now conn_peer_id identity =
     and_then (map_err IdentityDecodingError (parse_key k (case im_public_key identity of Some b \<Rightarrow> b | None \<Rightarrow> [])))
     (\<lambda>pubkey.
       let peer_id = key_peer k pubkey in
       if conn_peer_id \<noteq> peer_id then Inl AuthenticateFailed
       else and_then (try_map (\<lambda>buf. map_err MultiaddrError (parse_addr k buf)) (im_listen_addrs identity)) (\<lambda>raddrs.
         and_then (try_map (\<lambda>buf. map_err MultiaddrError (parse_addr k buf))
                    (case im_observed_addr identity of Some b \<Rightarrow> [b] | None \<Rightarrow> [])) (\<lambda>observed.
         Inr (\<lparr>pi_id = peer_id, pi_addrs = raddrs, pi_protos = im_protocols identity, pi_appear = Some now,
               pi_disappear = None\<rparr>, filter not_relayed observed))))"

definition identity_push ::
    "codec \<Rightarrow> nat \<Rightarrow> nat \<Rightarrow> peer_id \<Rightarrow> stream \<Rightarrow> (switch_st, xs_error, unit) act" where
  "identity_push k max_packet_size now conn_peer_id stream =
     act_bind (act_lift (fst (xstack_recv_identity (dec_varint k) (parse_identity k) max_packet_size stream))) (\<lambda>identity.
     act_bind (act_lift (check_identity k now conn_peer_id identity)) (\<lambda>(peer_info, observed) s.
       let s = s\<lparr>sw_mut := set_observed_addrs observed (sw_mut s)\<rparr>;
           (r, b) = book_insert (sw_book s) peer_info
       in (map_err error_of_io (and_then r (\<lambda>_. Inr ())), s\<lparr>sw_book := b\<rparr>)))"

text \<open>\<open>identity_response\<close>: the answer that is written, and the write.\<close>

definition identity_of ::
    "codec \<Rightarrow> public_key \<Rightarrow> string \<Rightarrow> string list \<Rightarrow> multiaddr list \<Rightarrow> bool \<Rightarrow> multiaddr \<Rightarrow> switch_st \<Rightarrow> identity_msg" where
  "identity_of k key agent proto_order nat_order relay peer_addr s =
     \<lparr>im_protocol_version = None, im_agent_version = Some agent, im_public_key = Some (key_bytes k key),
      im_listen_addrs = map (addr_bytes k) (listen_addrs nat_order (sw_mut s)),
      im_observed_addr = (if \<not> relay then Some (addr_bytes k peer_addr) else None),
      im_protocols = merge_protos (disp_protos proto_order (sw_disp s)),
      im_signed_record = None\<rparr>"

definition identity_response ::
    "codec \<Rightarrow> public_key \<Rightarrow> string \<Rightarrow> string list \<Rightarrow> multiaddr list \<Rightarrow> bool \<Rightarrow> multiaddr \<Rightarrow> switch_st \<Rightarrow>
     (stream, xs_error, unit) act" where
  "identity_response k key agent proto_order nat_order relay peer_addr s =
     act_bind (act_lift (map_err ProtobufError
       (wr_identity k (identity_of k key agent proto_order nat_order relay peer_addr s)))) (\<lambda>buf.
     act_bind (write_all (enc_varint k (length buf))) (\<lambda>_.
     act_bind (write_all buf) (\<lambda>_. act_ok ())))"

text \<open>\<open>handshake_success\<close> of the dispatcher when no other call comes in between; \<open>None\<close> is a panic.\<close>

fun dispatch_each :: "item list \<Rightarrow> dispatcher \<Rightarrow> dispatcher option" where
  "dispatch_each [] d = Some d"
| "dispatch_each (x # rest) d = Option.bind (disp_dispatch x d) (\<lambda>(_, d). dispatch_each rest d)"

definition disp_handshake_success :: "string \<Rightarrow> dispatcher \<Rightarrow> dispatcher option" where
  "disp_handshake_success conn d =
     (case take_unauth conn d of
        (Some streams, d) \<Rightarrow> dispatch_each streams d
      | (None, d) \<Rightarrow> Some d)"

text \<open>\<open>opened\<close> is the result of opening a stream for the protocol \<open>/ipfs/id/1.0.0\<close> on the connection.\<close>

definition identity_request ::
    "codec \<Rightarrow> nat \<Rightarrow> nat \<Rightarrow> string \<Rightarrow> peer_id \<Rightarrow> xs_error + stream \<Rightarrow> switch_st \<Rightarrow> ((xs_error + unit) \<times> switch_st) option" where
  "identity_request k max_packet_size now conn conn_peer_id opened s =
     (case opened of
        Inl err \<Rightarrow> Some (Inl err, s)
      | Inr stream \<Rightarrow>
          (case identity_push k max_packet_size now conn_peer_id stream s of
             (Inr _, s) \<Rightarrow>
               Option.bind (disp_handshake_success conn (sw_disp s)) (\<lambda>d.
               Some (Inr (), s\<lparr>sw_disp := d, sw_events := sw_events s @ [EvHandshakeSuccess conn conn_peer_id]\<rparr>))
           | (Inl err, s) \<Rightarrow>
               Some (Inl err, s\<lparr>sw_disp := disp_handshake_failed conn (sw_disp s),
                                sw_events := sw_events s @ [EvHandshakeFailed conn conn_peer_id]\<rparr>)))"

text \<open>
  \<open>handshake\<close> as one step, which is how the node of \<open>SwitchRun\<close> takes it: \<open>None\<close> for \<open>opened\<close> means that the timer
  fired before the identity was received. The timer can also fire at a later await of \<open>identity_request\<close>;
  \<open>hs_run\<close> below has every await, with the other tasks in between.
\<close>

definition handshake ::
    "codec \<Rightarrow> nat \<Rightarrow> nat \<Rightarrow> string \<Rightarrow> peer_id \<Rightarrow> (xs_error + stream) option \<Rightarrow> switch_st \<Rightarrow>
     ((xs_error + unit) \<times> switch_st) option" where
  "handshake k max_packet_size now conn conn_peer_id opened s =
     (let s = s\<lparr>sw_disp := disp_handshake conn (sw_disp s)\<rparr> in
      case opened of
        None \<Rightarrow> Some (Inl Timeout, s)
      | Some r \<Rightarrow> identity_request k max_packet_size now conn conn_peer_id r s)"

text \<open>
  \<open>transport_connect\<close>: the result of the transport's \<open>connect\<close>, \<open>None\<close> when it timed out. Besides the result it
  says whether the connection was closed.
\<close>

definition transport_connect ::
    "codec \<Rightarrow> switch_options \<Rightarrow> nat \<Rightarrow> (transport \<Rightarrow> (xs_error + p2p_conn) option) \<Rightarrow>
     (p2p_conn \<Rightarrow> (xs_error + stream) option) \<Rightarrow> multiaddr \<Rightarrow> switch_st \<Rightarrow>
     ((xs_error + p2p_conn) \<times> p2p_conn option \<times> switch_st) option" where
  "transport_connect k ops now dial opened raddr s =
     (case get_transport_by_address ops raddr of
        None \<Rightarrow> Some (Inl (UnspportMultiAddr raddr), None, s)
      | Some t \<Rightarrow>
          (case dial t of
             None \<Rightarrow> Some (Inl Timeout, None, s)
           | Some (Inl err) \<Rightarrow> Some (Inl err, None, s)
           | Some (Inr conn) \<Rightarrow>
               Option.bind (handshake k (so_max_packet_size ops) now (conn_id conn) (conn_peer conn) (opened conn) s)
                 (\<lambda>(r, s). case r of
                    Inl err \<Rightarrow> Some (Inl err, Some conn, s)
                  | Inr _ \<Rightarrow> Some (Inr conn, None, s))))"

text \<open>\<open>transport_bind\<close>: the transport's \<open>bind\<close>, then twice the local address of the listener.\<close>

definition transport_bind ::
    "switch_options \<Rightarrow> (transport \<Rightarrow> io_error + (io_error + multiaddr)) \<Rightarrow> multiaddr \<Rightarrow> (mutable_switch, xs_error, unit) act" where
  "transport_bind ops listen laddr m =
     (case get_transport_by_address ops laddr of
        None \<Rightarrow> (Inl (UnspportMultiAddr laddr), m)
      | Some t \<Rightarrow>
          (case listen t of
             Inl err \<Rightarrow> (Inl (error_of_io err), m)
           | Inr (Inl err) \<Rightarrow> (Inl (error_of_io err), m)
           | Inr (Inr bound) \<Rightarrow> (Inr (), transport_bind_to bound m)))"

fun bind_each ::
    "switch_options \<Rightarrow> (transport \<Rightarrow> multiaddr \<Rightarrow> io_error + (io_error + multiaddr)) \<Rightarrow> multiaddr list \<Rightarrow>
     (mutable_switch, xs_error, unit) act" where
  "bind_each ops listen [] m = (Inr (), m)"
| "bind_each ops listen (laddr # rest) m =
     (case transport_bind ops (\<lambda>t. listen t laddr) laddr m of
        (Inl err, m) \<Rightarrow> (Inl err, m)
      | (Inr _, m) \<Rightarrow> bind_each ops listen rest m)"

text \<open>\<open>SwitchBuilder::create\<close>: the keystore's public key, then the binds. The result is the switch.\<close>

definition builder_create ::
    "io_error + public_key \<Rightarrow> (transport \<Rightarrow> multiaddr \<Rightarrow> io_error + (io_error + multiaddr)) \<Rightarrow> builder \<Rightarrow>
     xs_error + public_key \<times> switch_options \<times> mutable_switch" where
  "builder_create public_key listen b =
     and_then b (\<lambda>ops.
       if so_transports (bi_ops ops) = [] then Inl NullTransportStack
       else and_then (map_err error_of_io public_key) (\<lambda>key.
         (case bind_each (bi_ops ops) listen (bi_laddrs ops) (mutable_new (so_max_observed (bi_ops ops))) of
            (Inl err, _) \<Rightarrow> Inl err
          | (Inr _, m) \<Rightarrow> Inr (key, bi_ops ops, m))))"

text \<open>\<open>dispatch_stream\<close>: identify, push and ping are served here, the rest goes to the dispatcher.\<close>

datatype served = ServedIdentity | ServedPush "xs_error + unit" | ServedPing | ServedListener

definition dispatch_stream ::
    "codec \<Rightarrow> nat \<Rightarrow> nat \<Rightarrow> peer_id \<Rightarrow> p_stream \<Rightarrow> stream \<Rightarrow> string \<Rightarrow> switch_st \<Rightarrow> (served \<times> switch_st) option" where
  "dispatch_stream k max_packet_size now conn_peer_id ps io protocol_id s =
     (if protocol_id = PROTOCOL_IPFS_ID then Some (ServedIdentity, s)
      else if protocol_id = PROTOCOL_IPFS_PUSH_ID then
        (let (r, s) = identity_push k max_packet_size now conn_peer_id io s in Some (ServedPush r, s))
      else if protocol_id = PROTOCOL_IPFS_PING then Some (ServedPing, s)
      else Option.bind (disp_dispatch (ps, protocol_id) (sw_disp s)) (\<lambda>(_, d). Some (ServedListener, s\<lparr>sw_disp := d\<rparr>)))"

definition switch_set_nat :: "auto_nat \<Rightarrow> switch_st \<Rightarrow> switch_st" where
  "switch_set_nat state s =
     s\<lparr>sw_mut := set_nat state (sw_mut s), sw_events := sw_events s @ [EvNetwork state]\<rparr>"


section \<open>Observed addresses\<close>

lemma set_observed_addrs_Cons:
  "set_observed_addrs (a # addrs) m =
     set_observed_addrs addrs
       (m\<lparr>ms_observed := (if length (ms_observed m) = max_observed_addrs_len m then tl (ms_observed m) else ms_observed m) @ [a]\<rparr>)"
  by (cases "ms_observed m") (simp_all add: set_observed_addrs_def Let_def)

lemma set_observed_addrs_Nil [simp]: "set_observed_addrs [] m = m"
  by (simp add: set_observed_addrs_def)

lemma set_observed_addrs_frame:
  "max_observed_addrs_len (set_observed_addrs addrs m) = max_observed_addrs_len m \<and>
   ms_laddrs (set_observed_addrs addrs m) = ms_laddrs m \<and> ms_nat_addrs (set_observed_addrs addrs m) = ms_nat_addrs m \<and>
   ms_nat (set_observed_addrs addrs m) = ms_nat m"
  by (induction addrs arbitrary: m) (simp_all add: set_observed_addrs_Cons)

definition last_n :: "nat \<Rightarrow> 'a list \<Rightarrow> 'a list" where
  "last_n n xs = drop (length xs - n) xs"

lemma set_observed_addrs_last:
  assumes "0 < max_observed_addrs_len m" and "ms_observed m = last_n (max_observed_addrs_len m) xs"
  shows "ms_observed (set_observed_addrs addrs m) = last_n (max_observed_addrs_len m) (xs @ addrs)"
  using assms
proof (induction addrs arbitrary: m xs)
  case (Cons a addrs)
  let ?n = "max_observed_addrs_len m"
  define w where "w = (if length (ms_observed m) = ?n then tl (ms_observed m) else ms_observed m)"
  let ?m = "m\<lparr>ms_observed := w @ [a]\<rparr>"
  have "(if length (last_n ?n xs) = ?n then tl (last_n ?n xs) else last_n ?n xs) @ [a] = last_n ?n (xs @ [a])"
    using Cons.prems(1) by (auto simp: last_n_def tl_drop drop_Suc Suc_diff_le not_le)
  then have w: "w @ [a] = last_n ?n (xs @ [a])" unfolding w_def Cons.prems(2) .
  have ms: "ms_observed ?m = last_n (max_observed_addrs_len ?m) (xs @ [a])" unfolding w by simp
  have "ms_observed (set_observed_addrs addrs ?m) = last_n (max_observed_addrs_len ?m) ((xs @ [a]) @ addrs)"
    by (rule Cons.IH [OF _ ms]) (use Cons.prems(1) in simp)
  then show ?case by (simp add: set_observed_addrs_Cons w_def [symmetric])
qed simp

lemma set_observed_addrs_zero:
  assumes "max_observed_addrs_len m = 0" and "ms_observed m \<noteq> []"
  shows "ms_observed (set_observed_addrs addrs m) = ms_observed m @ addrs"
  using assms
proof (induction addrs arbitrary: m)
  case (Cons a addrs)
  from Cons.IH [of "m\<lparr>ms_observed := ms_observed m @ [a]\<rparr>"] Cons.prems show ?case
    by (simp add: set_observed_addrs_Cons)
qed simp

lemma observed_window_pos:
  assumes "0 < n" and "max_observed_addrs_len m = n" and "ms_observed m = last_n n xs"
  shows "ms_observed (fold set_observed_addrs calls m) = last_n n (xs @ concat calls)"
  using assms(2,3)
proof (induction calls arbitrary: m xs)
  case (Cons c calls)
  have "ms_observed (set_observed_addrs c m) = last_n n (xs @ c)"
    using set_observed_addrs_last [of m xs c] Cons.prems assms(1) by simp
  moreover have "max_observed_addrs_len (set_observed_addrs c m) = n"
    using set_observed_addrs_frame Cons.prems(1) by metis
  ultimately show ?case using Cons.IH [of "set_observed_addrs c m" "xs @ c"] by simp
qed simp

lemma observed_window_zero:
  assumes "max_observed_addrs_len m = 0"
  shows "ms_observed (fold set_observed_addrs calls m) = ms_observed m @ concat calls"
  using assms
proof (induction calls arbitrary: m)
  case (Cons c calls)
  have "ms_observed (set_observed_addrs c m) = ms_observed m @ c"
  proof (cases "ms_observed m = []")
    case False
    then show ?thesis using set_observed_addrs_zero Cons.prems by simp
  next
    case True
    then show ?thesis
      using Cons.prems set_observed_addrs_zero [of "m\<lparr>ms_observed := [hd c]\<rparr>" "tl c"]
      by (cases c) (simp_all add: set_observed_addrs_Cons)
  qed
  moreover have "max_observed_addrs_len (set_observed_addrs c m) = 0"
    using set_observed_addrs_frame Cons.prems(1) by metis
  ultimately show ?case using Cons.IH [of "set_observed_addrs c m"] by simp
qed simp

text \<open>The observed addresses are a sliding window: with a positive bound a switch holds, after any
  number of calls, exactly the last \<open>max_observed_addrs_len\<close> of the addresses it was told, in order. With
  the bound zero, which the builder admits, the window is not empty but unbounded.\<close>

theorem observed_window:
  "ms_observed (fold set_observed_addrs calls (mutable_new n)) =
     (if 0 < n then drop (length (concat calls) - n) (concat calls) else concat calls)"
proof (cases "0 < n")
  case True
  have "ms_observed (mutable_new n) = last_n n []" by (simp add: mutable_new_def last_n_def)
  moreover have "max_observed_addrs_len (mutable_new n) = n" by (simp add: mutable_new_def)
  ultimately have "ms_observed (fold set_observed_addrs calls (mutable_new n)) = last_n n ([] @ concat calls)"
    using observed_window_pos True by blast
  with True show ?thesis by (simp add: last_n_def)
next
  case False
  then show ?thesis using observed_window_zero [of "mutable_new n" calls] by (simp add: mutable_new_def)
qed

section \<open>Identify\<close>

lemma identity_push_cases:
  "identity_push k n now p io s =
     (case and_then (fst (xstack_recv_identity (dec_varint k) (parse_identity k) n io)) (check_identity k now p) of
        Inl e \<Rightarrow> (Inl e, s)
      | Inr (info, observed) \<Rightarrow>
          (Inr (), s\<lparr>sw_mut := set_observed_addrs observed (sw_mut s), sw_book := snd (book_insert (sw_book s) info)\<rparr>))"
  by (simp add: identity_push_def act_bind_def Let_def case_prod_beta' split: sum.split)

lemma check_identity_peer:
  "check_identity k now p identity = Inr (info, observed) \<Longrightarrow>
     pi_id info = p \<and> (\<exists>key. parse_key k (case im_public_key identity of Some b \<Rightarrow> b | None \<Rightarrow> []) = Inr key \<and> key_peer k key = p) \<and>
     (\<forall>a\<in>set observed. P2pCircuit \<notin> set a)"
  by (auto simp: check_identity_def and_then_Inr_iff map_err_Inr_iff Let_def not_relayed_def split: if_splits)

text \<open>C10: Authentication. Whatever bytes arrive, \<open>identity_push\<close> changes the switch only when the message holds
  a public key of the very peer that the connection authenticated; then the only entry of the peer
  book that it writes is that peer's, and no relayed address becomes an observed address. On every error
  the switch is as it was.\<close>

theorem identity_push_authenticated:
  "(case identity_push k n now p io s of
      (Inl e, s') \<Rightarrow> s' = s
    | (Inr _, s') \<Rightarrow>
        (\<exists>identity key info observed.
           fst (xstack_recv_identity (dec_varint k) (parse_identity k) n io) = Inr identity \<and>
           parse_key k (case im_public_key identity of Some b \<Rightarrow> b | None \<Rightarrow> []) = Inr key \<and> key_peer k key = p \<and>
           pi_id info = p \<and> (\<forall>a\<in>set observed. P2pCircuit \<notin> set a) \<and>
           sw_book s' = snd (book_insert (sw_book s) info) \<and>
           sw_mut s' = set_observed_addrs observed (sw_mut s) \<and> sw_disp s' = sw_disp s \<and> sw_events s' = sw_events s) \<and>
        (\<forall>q. q \<noteq> p \<longrightarrow> book_get (sw_book s') q = book_get (sw_book s) q))"
proof (cases "and_then (fst (xstack_recv_identity (dec_varint k) (parse_identity k) n io)) (check_identity k now p)")
  case (Inl e)
  then show ?thesis by (simp add: identity_push_cases)
next
  case (Inr r)
  obtain info observed where r: "r = (info, observed)" by (cases r)
  with Inr obtain identity where
    i: "fst (xstack_recv_identity (dec_varint k) (parse_identity k) n io) = Inr identity"
      "check_identity k now p identity = Inr (info, observed)"
    by (auto simp: and_then_Inr_iff)
  let ?s = "s\<lparr>sw_mut := set_observed_addrs observed (sw_mut s), sw_book := snd (book_insert (sw_book s) info)\<rparr>"
  have push: "identity_push k n now p io s = (Inr (), ?s)" by (simp add: identity_push_cases Inr r)
  from check_identity_peer [OF i(2)] obtain key where
    key: "parse_key k (case im_public_key identity of Some b \<Rightarrow> b | None \<Rightarrow> []) = Inr key" "key_peer k key = p"
    and info: "pi_id info = p" "\<forall>a\<in>set observed. P2pCircuit \<notin> set a" by blast
  have "book_get (sw_book ?s) q = book_get (sw_book s) q" if "q \<noteq> p" for q
    using that info(1) by (simp add: book_get_def)
  then show ?thesis
    unfolding push prod.case sum.case
    by (intro conjI exI [of _ identity] exI [of _ key] exI [of _ info] exI [of _ observed]) (use i(1) key info in auto)
qed

text \<open>What the encoders promise each other.\<close>

definition codec_law :: "codec \<Rightarrow> bool" where
  "codec_law k \<longleftrightarrow> varint_law (enc_varint k) (dec_varint k) \<and> message_law (wr_identity k) (parse_identity k) \<and>
     (\<forall>a. parse_addr k (addr_bytes k a) = Inr a) \<and> (\<forall>key. parse_key k (key_bytes k key) = Inr key)"

lemma recv_identity_frame:
  assumes "varint_law enc dec" and "message_law wr parse" and "wr m = Inr buf" and "length buf \<le> n"
    and "st_in r = enc (length buf) @ buf @ rest"
  shows "fst (xstack_recv_identity dec parse n r) = Inr m"
proof -
  have "length buf < 2 ^ 64" "parse buf = Inr m" using assms(2,3) by (auto simp: message_law_def)
  with assms show ?thesis
    by (simp add: xstack_recv_identity_def act_bind_def read_usize_def read_exact_def varint_law_def)
qed

lemma check_identity_of:
  assumes "codec_law k"
  shows "check_identity k now (key_peer k key) (identity_of k key agent ps nats relay addr s) =
    Inr (\<lparr>pi_id = key_peer k key, pi_addrs = listen_addrs nats (sw_mut s), pi_protos = merge_protos (disp_protos ps (sw_disp s)),
          pi_appear = Some now, pi_disappear = None\<rparr>,
         if \<not> relay \<and> P2pCircuit \<notin> set addr then [addr] else [])"
proof -
  have all: "try_map (\<lambda>buf. map_err MultiaddrError (parse_addr k buf)) (map (addr_bytes k) xs) = Inr xs" for xs
    using assms by (induction xs) (auto simp: codec_law_def)
  from assms all [of "[addr]"] show ?thesis
    by (auto simp: check_identity_def identity_of_def codec_law_def all not_relayed_def)
qed

lemma identify_exchange:
  assumes "codec_law k"
    and "identity_response k key agent ps nats relay addr peer out = (Inr (), out')"
    and "st_in io = drop (length (st_out out)) (st_out out')"
    and "\<forall>buf. wr_identity k (identity_of k key agent ps nats relay addr peer) = Inr buf \<longrightarrow> length buf \<le> n"
  shows "identity_push k n now (key_peer k key) io s =
    (Inr (), s\<lparr>sw_mut := set_observed_addrs (if \<not> relay \<and> P2pCircuit \<notin> set addr then [addr] else []) (sw_mut s),
       sw_book := snd (book_insert (sw_book s) \<lparr>pi_id = key_peer k key, pi_addrs = listen_addrs nats (sw_mut peer),
         pi_protos = merge_protos (disp_protos ps (sw_disp peer)), pi_appear = Some now, pi_disappear = None\<rparr>)\<rparr>)"
proof -
  let ?m = "identity_of k key agent ps nats relay addr peer"
  from assms(2) obtain buf where buf: "wr_identity k ?m = Inr buf"
    and out: "st_out out' = st_out out @ enc_varint k (length buf) @ buf"
    by (auto simp: identity_response_def act_bind_ok_iff map_err_Inr_iff dest!: write_all_out)
  have len: "length buf \<le> n" using assms(4) buf by blast
  have io: "st_in io = enc_varint k (length buf) @ buf @ []" using assms(3) out by simp
  have laws: "varint_law (enc_varint k) (dec_varint k)" "message_law (wr_identity k) (parse_identity k)"
    using assms(1) by (auto simp: codec_law_def)
  have recv: "fst (xstack_recv_identity (dec_varint k) (parse_identity k) n io) = Inr ?m"
    by (rule recv_identity_frame [OF laws buf len io])
  show ?thesis unfolding identity_push_cases recv by (simp add: check_identity_of [OF assms(1)])
qed

text \<open>Identify, end to end. When a peer writes its \<open>identity_response\<close> and the other side reads it with
  \<open>identity_push\<close>, over a connection that authenticated the peer, the reader succeeds: its peer book holds
  the peer with exactly the addresses it listens on and the protocols it serves, and it observes the
  address that the peer saw, unless that is relayed.\<close>

theorem identify_roundtrip:
  assumes "codec_law k"
    and "identity_response k key agent ps nats relay addr peer out = (Inr (), out')"
    and "st_in io = drop (length (st_out out)) (st_out out')"
    and "\<forall>buf. wr_identity k (identity_of k key agent ps nats relay addr peer) = Inr buf \<longrightarrow> length buf \<le> n"
  shows "\<exists>s'. identity_push k n now (key_peer k key) io s = (Inr (), s') \<and>
    book_get (sw_book s') (key_peer k key) =
      Inr (Some \<lparr>pi_id = key_peer k key, pi_addrs = listen_addrs nats (sw_mut peer),
                 pi_protos = merge_protos (disp_protos ps (sw_disp peer)), pi_appear = Some now, pi_disappear = None\<rparr>) \<and>
    (\<forall>a\<in>set (listen_addrs nats (sw_mut peer)). book_listen_on (sw_book s') a = Inr (Some (key_peer k key))) \<and>
    sw_mut s' = set_observed_addrs (if \<not> relay \<and> P2pCircuit \<notin> set addr then [addr] else []) (sw_mut s)"
  using identify_exchange [OF assms, of now s] by (simp add: book_get_def stored_def book_listen_on_def book_insert_addrs)

text \<open>A codec that keeps the law, whose protobuf encodes the one message \<open>m\<close>.\<close>

definition one_message_codec :: "identity_msg \<Rightarrow> codec" where
  "one_message_codec m =
     \<lparr>enc_varint = leb, dec_varint = unleb, wr_identity = (\<lambda>x. if x = m then Inr [1] else Inl ''unknown''),
      parse_identity = (\<lambda>_. Inr m), addr_bytes = some_addr_bytes, parse_addr = some_addr_parse,
      key_bytes = some_key_bytes, parse_key = some_key_parse, key_peer = some_key_peer\<rparr>"

lemma one_message_codec_law: "codec_law (one_message_codec m)"
  by (simp add: codec_law_def one_message_codec_def varint_law_leb message_law_def)

definition empty_switch :: switch_st where
  "empty_switch = \<lparr>sw_mut = mutable_new 5, sw_book = book_empty, sw_disp = disp_new, sw_events = []\<rparr>"

definition sample_identity :: identity_msg where
  "sample_identity = identity_of (one_message_codec undefined) (PublicKey 3) ''agent'' [''/kad''] [] False [Ip4 5, Tcp 80] empty_switch"

theorem identify_roundtrip_witness:
  "\<exists>s'. identity_push (one_message_codec sample_identity) 100 9 (PeerId 3) (quiet\<lparr>st_in := [1, 1]\<rparr>) empty_switch = (Inr (), s') \<and>
     sw_mut s' = set_observed_addrs [[Ip4 5, Tcp 80]] (mutable_new 5)"
proof -
  let ?k = "one_message_codec sample_identity"
  have m: "identity_of ?k (PublicKey 3) ''agent'' [''/kad''] [] False [Ip4 5, Tcp 80] empty_switch = sample_identity"
    by (simp add: sample_identity_def identity_of_def one_message_codec_def)
  have out: "identity_response ?k (PublicKey 3) ''agent'' [''/kad''] [] False [Ip4 5, Tcp 80] empty_switch quiet =
      (Inr (), quiet\<lparr>st_out := [1, 1]\<rparr>)"
    unfolding identity_response_def m
    by (simp add: one_message_codec_def leb.simps act_bind_def write_all_def quiet_def)
  have peer: "key_peer ?k (PublicKey 3) = PeerId 3" by (simp add: one_message_codec_def)
  have io: "st_in (quiet\<lparr>st_in := [1, 1]\<rparr>) = drop (length (st_out quiet)) (st_out (quiet\<lparr>st_out := [1, 1]\<rparr>))"
    by (simp add: quiet_def)
  have len: "\<forall>buf. wr_identity ?k (identity_of ?k (PublicKey 3) ''agent'' [''/kad''] [] False [Ip4 5, Tcp 80] empty_switch) =
      Inr buf \<longrightarrow> length buf \<le> 100"
    unfolding m by (simp add: one_message_codec_def)
  have "sw_mut empty_switch = mutable_new 5" by (simp add: empty_switch_def)
  with identify_roundtrip [OF one_message_codec_law out io len, of 9 empty_switch] show ?thesis
    unfolding peer by auto
qed

theorem identity_push_authenticated_witness:
  "\<exists>s'. identity_push (one_message_codec sample_identity) 100 9 (PeerId 3) (quiet\<lparr>st_in := [1, 1]\<rparr>) empty_switch = (Inr (), s') \<and>
     book_get (sw_book s') (PeerId 4) = book_get book_empty (PeerId 4)"
proof -
  let ?k = "one_message_codec sample_identity" and ?io = "quiet\<lparr>st_in := [1, 1]\<rparr>"
  have m: "identity_of ?k (PublicKey 3) ''agent'' [''/kad''] [] False [Ip4 5, Tcp 80] empty_switch = sample_identity"
    by (simp add: sample_identity_def identity_of_def one_message_codec_def)
  have peer: "key_peer ?k (PublicKey 3) = PeerId 3" by (simp add: one_message_codec_def)
  have "\<exists>r. check_identity ?k 9 (PeerId 3) sample_identity = Inr r"
    using check_identity_of [OF one_message_codec_law [of sample_identity], of 9 "PublicKey 3" "''agent''" "[''/kad'']" "[]" False
      "[Ip4 5, Tcp 80]" empty_switch] unfolding m peer by blast
  moreover have "fst (xstack_recv_identity (dec_varint ?k) (parse_identity ?k) 100 ?io) = Inr sample_identity"
    by (simp add: one_message_codec_def xstack_recv_identity_def act_bind_def read_usize_def read_exact_def)
  ultimately obtain s' where push: "identity_push ?k 100 9 (PeerId 3) ?io empty_switch = (Inr (), s')"
    by (auto simp: identity_push_cases)
  then have "book_get (sw_book s') (PeerId 4) = book_get (sw_book empty_switch) (PeerId 4)"
    using identity_push_authenticated [where k = ?k and n = 100 and now = 9 and p = "PeerId 3" and io = ?io and s = empty_switch] by simp
  with push show ?thesis by (simp add: empty_switch_def)
qed

lemma dispatch_each_ok:
  "disp_ok d \<Longrightarrow> \<forall>x\<in>set xs. ps_conn (fst x) = c \<Longrightarrow> unauth_streams d c = None \<Longrightarrow>
     \<exists>d'. dispatch_each xs d = Some d' \<and> disp_ok d' \<and> unauth_streams d' = unauth_streams d"
proof (induction xs arbitrary: d)
  case (Cons x xs)
  obtain n d1 where d1: "disp_dispatch x d = Some (n, d1)" "disp_ok d1" using disp_dispatch_ok [OF Cons.prems(1)] by blast
  have "unauth_streams d1 = unauth_streams d"
    using d1(1) Cons.prems(2,3) by (auto simp: disp_dispatch_def split: option.splits)
  with Cons.IH [OF d1(2)] Cons.prems d1(1) show ?case by auto
qed simp


lemma handshake_success_ok:
  assumes "disp_ok d" and "unauth_streams d c = Some xs" and "\<forall>x\<in>set xs. ps_conn (fst x) = c"
  shows "\<exists>d'. disp_handshake_success c d = Some d' \<and> disp_ok d' \<and> unauth_streams d' c = None"
proof -
  let ?d = "snd (take_unauth c d)"
  have "unauth_streams ?d c = None" by (simp add: take_unauth_def)
  from dispatch_each_ok [OF take_unauth_ok [OF assms(1)] assms(3) this] this
  show ?thesis using assms(2) by (auto simp: disp_handshake_success_def take_unauth_def)
qed

lemma identity_push_disp:
  "identity_push k n now p io s = (r, s') \<Longrightarrow> sw_disp s' = sw_disp s \<and> sw_events s' = sw_events s"
  by (auto simp: identity_push_cases split: sum.splits prod.splits)

lemma handshake_push:
  assumes "disp_ok (sw_disp s)" and "identity_push k n now p io (s\<lparr>sw_disp := disp_handshake conn (sw_disp s)\<rparr>) = (r, s1)"
  shows "\<exists>d. handshake k n now conn p (Some (Inr io)) s =
      Some (r, s1\<lparr>sw_disp := d,
        sw_events := sw_events s @ [case r of Inr _ \<Rightarrow> EvHandshakeSuccess conn p | Inl _ \<Rightarrow> EvHandshakeFailed conn p]\<rparr>) \<and>
    disp_ok d \<and> unauth_streams d conn = None"
proof -
  from identity_push_disp [OF assms(2)] have s1: "sw_disp s1 = disp_handshake conn (sw_disp s)" "sw_events s1 = sw_events s"
    by simp_all
  have ok: "disp_ok (sw_disp s1)" unfolding s1(1) by (rule disp_handshake_ok [OF assms(1)])
  show ?thesis
  proof (cases r)
    case (Inl e)
    have "disp_ok (disp_handshake_failed conn (sw_disp s1))" "unauth_streams (disp_handshake_failed conn (sw_disp s1)) conn = None"
      using take_unauth_ok [OF ok, of conn] by (simp_all add: disp_handshake_failed_def take_unauth_def)
    with Inl s1(2) assms(2) show ?thesis
      by (intro exI [of _ "disp_handshake_failed conn (sw_disp s1)"]) (simp add: handshake_def identity_request_def)
  next
    case (Inr u)
    have "unauth_streams (sw_disp s1) conn = Some []" using s1(1) by (simp add: disp_handshake_def)
    from handshake_success_ok [OF ok this] obtain d where
      d: "disp_handshake_success conn (sw_disp s1) = Some d" "disp_ok d" "unauth_streams d conn = None" by auto
    have "handshake k n now conn p (Some (Inr io)) s =
        Some (Inr (), s1\<lparr>sw_disp := d, sw_events := sw_events s1 @ [EvHandshakeSuccess conn p]\<rparr>)"
      using assms(2) Inr d(1) by (simp add: handshake_def identity_request_def)
    then show ?thesis using d s1(2) Inr by auto
  qed
qed

lemma handshake_answered:
  assumes "disp_ok (sw_disp s)"
  shows "\<exists>r s'. handshake k n now conn p (Some (Inr io)) s = Some (r, s') \<and> disp_ok (sw_disp s') \<and>
        unauth_streams (sw_disp s') conn = None \<and>
        (case r of
           Inr _ \<Rightarrow> sw_events s' = sw_events s @ [EvHandshakeSuccess conn p]
         | Inl _ \<Rightarrow> sw_events s' = sw_events s @ [EvHandshakeFailed conn p])"
proof -
  obtain r s1 where "identity_push k n now p io (s\<lparr>sw_disp := disp_handshake conn (sw_disp s)\<rparr>) = (r, s1)" by fastforce
  from handshake_push [OF assms this] obtain d where
    d: "handshake k n now conn p (Some (Inr io)) s =
      Some (r, s1\<lparr>sw_disp := d, sw_events := sw_events s @ [case r of Inr _ \<Rightarrow> EvHandshakeSuccess conn p | Inl _ \<Rightarrow> EvHandshakeFailed conn p]\<rparr>)"
    "disp_ok d" "unauth_streams d conn = None" by blast
  show ?thesis by (intro exI conjI, rule d(1)) (auto simp: d(2,3) split: sum.split)
qed

lemma handshake_unanswered:
  assumes "opened = None \<and> e = Timeout \<or> opened = Some (Inl e)"
  shows "handshake k n now conn p opened s = Some (Inl e, s\<lparr>sw_disp := disp_handshake conn (sw_disp s)\<rparr>)"
  using assms by (auto simp: handshake_def identity_request_def)

section \<open>The handshake at its awaits\<close>






text \<open>The events about this handshake.\<close>

definition told :: "string \<Rightarrow> peer_id \<Rightarrow> switch_st \<Rightarrow> event list" where
  "told conn p s = filter (\<lambda>e. e = EvHandshakeSuccess conn p \<or> e = EvHandshakeFailed conn p) (sw_events s)"



definition hs_waits :: "string \<Rightarrow> switch_st \<Rightarrow> bool" where
  "hs_waits conn s \<longleftrightarrow> (\<exists>ys. unauth_streams (sw_disp s) conn = Some ys \<and> (\<forall>y\<in>set ys. ps_conn (fst y) = conn))"



lemma told_cong [simp]:
  "told conn p (s\<lparr>sw_disp := d\<rparr>) = told conn p s" "told conn p (s\<lparr>sw_mut := m\<rparr>) = told conn p s"
  "told conn p (s\<lparr>sw_book := b\<rparr>) = told conn p s"
  "told conn p (s\<lparr>sw_events := sw_events s @ [e]\<rparr>) =
     told conn p s @ (if e = EvHandshakeSuccess conn p \<or> e = EvHandshakeFailed conn p then [e] else [])"
  by (simp_all add: told_def)

lemma hs_waits_cong [simp]:
  "hs_waits conn (s\<lparr>sw_mut := m\<rparr>) = hs_waits conn s" "hs_waits conn (s\<lparr>sw_book := b\<rparr>) = hs_waits conn s"
  by (simp_all add: hs_waits_def)











section \<open>Transports and the builder\<close>

lemma builder_set_Inl [simp]: "builder_set f (Inl e) = Inl e"
  by (simp add: builder_set_def)

text \<open>\<open>transport_connect\<close>. The first registered transport whose hint accepts the address dials, and
  without one the address is unsupported. The call returns a connection only when the handshake on it
  succeeded, and a connection whose handshake failed is closed.\<close>

theorem transport_connect_sound:
  assumes "transport_connect k ops now dial opened raddr s = Some (r, closed, s')"
  shows "(\<forall>c. r = Inr c \<longrightarrow> closed = None \<and>
       (\<exists>t. get_transport_by_address ops raddr = Some t \<and> t \<in> set (so_transports ops) \<and> tr_hint t raddr \<and> dial t = Some (Inr c) \<and>
          handshake k (so_max_packet_size ops) now (conn_id c) (conn_peer c) (opened c) s = Some (Inr (), s'))) \<and>
    (\<forall>e. r = Inl e \<longrightarrow>
       (\<forall>t\<in>set (so_transports ops). \<not> tr_hint t raddr) \<and> e = UnspportMultiAddr raddr \<and> s' = s \<or>
       (\<exists>t. get_transport_by_address ops raddr = Some t \<and>
          (dial t = None \<and> e = Timeout \<and> s' = s \<or> dial t = Some (Inl e) \<and> s' = s \<or>
           (\<exists>c. dial t = Some (Inr c) \<and> closed = Some c \<and>
              handshake k (so_max_packet_size ops) now (conn_id c) (conn_peer c) (opened c) s = Some (Inl e, s')))))"
proof (cases "get_transport_by_address ops raddr")
  case None
  then have "\<forall>t\<in>set (so_transports ops). \<not> tr_hint t raddr" by (simp add: get_transport_by_address_def find_None_iff)
  with None assms show ?thesis by (auto simp: transport_connect_def)
next
  case (Some t)
  then have t: "t \<in> set (so_transports ops)" "tr_hint t raddr"
    by (auto simp: get_transport_by_address_def find_Some_iff)
  show ?thesis
  proof (cases "\<exists>c. dial t = Some (Inr c)")
    case False
    then show ?thesis using Some assms by (auto simp: transport_connect_def split: option.splits sum.splits)
  next
    case True
    then obtain c where c: "dial t = Some (Inr c)" by blast
    with Some assms obtain hr hs where
      h: "handshake k (so_max_packet_size ops) now (conn_id c) (conn_peer c) (opened c) s = Some (hr, hs)"
      by (auto simp: transport_connect_def bind_eq_Some_conv)
    show ?thesis
    proof (cases hr)
      case (Inl e)
      then have "(r, closed, s') = (Inl e, Some c, hs)" using Some c h assms by (simp add: transport_connect_def)
      then show ?thesis using Some c h Inl by simp
    next
      case (Inr u)
      then have "(r, closed, s') = (Inr c, None, hs)" using Some c h assms by (simp add: transport_connect_def)
      then show ?thesis using Some c h Inr t by simp
    qed
  qed
qed

theorem transport_connect_sound_witness:
  "\<forall>t\<in>set (so_transports (options_new ''agent'')). \<not> tr_hint t [Dns ''x'']"
  using transport_connect_sound [of undefined "options_new ''agent''" 0 "\<lambda>_. None" "\<lambda>_. None" "[Dns ''x'']" empty_switch
      "Inl (UnspportMultiAddr [Dns ''x''])" None empty_switch]
  by (simp add: transport_connect_def get_transport_by_address_def options_new_def)

end
