(* ===== verification/Autonat.thy ===== *)
theory Autonat
  imports SwitchCore "HOL-Library.AList"
begin

text \<open>
  \<open>autonat/src/client.rs\<close>: the client side of the autonat protocol. The counters of
  \<open>RawAutoNatClient\<close>, one request to a peer, and the client as a whole: requests to several
  peers run at the same time, each ends with a locked update of the counters, and the new state
  is handed to the switch after that lock was released. The step relation \<open>auto_step\<close> is that
  interleaving.

  The protobuf message is the record \<open>autonat_msg\<close>; its codec, and the stream that the switch
  opens to the peer, are arguments.
\<close>

section \<open>The counters\<close>

text \<open>\<open>dial_succ\<close> is a hash map from addresses to counters, kept as its list of entries.\<close>

record autonat_client =
  dial_succ :: "(multiaddr \<times> nat) list"
  dial_failed :: nat

definition client_default :: autonat_client where
  "client_default = \<lparr>dial_succ = [], dial_failed = 0\<rparr>"

definition client_reset :: "autonat_client \<Rightarrow> autonat_client" where
  "client_reset c = c\<lparr>dial_succ := [], dial_failed := 0\<rparr>"

definition client_state :: "autonat_client \<Rightarrow> auto_nat" where
  "client_state c =
     (if sum_list (map snd (dial_succ c)) > 2 then Public
      else if dial_failed c > 2 then NAT
      else Unknown)"

definition client_success :: "multiaddr \<Rightarrow> autonat_client \<Rightarrow> (auto_nat \<times> auto_nat) \<times> autonat_client" where
  "client_success addr c =
     (let before = client_state c;
          c' = (if before = Unknown then
                  (case map_of (dial_succ c) addr of
                     Some counter \<Rightarrow> c\<lparr>dial_succ := AList.update addr (counter + 1) (dial_succ c)\<rparr>
                   | None \<Rightarrow> c\<lparr>dial_succ := AList.update addr 1 (dial_succ c)\<rparr>)
                else c)
      in ((before, client_state c'), c'))"

definition client_failed :: "autonat_client \<Rightarrow> (auto_nat \<times> auto_nat) \<times> autonat_client" where
  "client_failed c =
     (let before = client_state c;
          c' = (if before = Unknown then c\<lparr>dial_failed := dial_failed c + 1\<rparr> else c)
      in ((before, client_state c'), c'))"

section \<open>One request\<close>

datatype autonat_type = DIAL | DIAL_RESPONSE | OtherType "32 word"

datatype dial_status =
    StatusOK | E_DIAL_ERROR | E_DIAL_REFUSED | E_BAD_REQUEST | E_INTERNAL_ERROR | OtherStatus "32 word"

record autonat_peer =
  ap_id :: "bytes option"
  ap_addrs :: "bytes list"

record dial_field =
  di_peer :: "autonat_peer option"

record dial_response =
  dr_status :: "dial_status option"
  dr_text :: "string option"
  dr_addr :: "bytes option"

record autonat_msg =
  am_type :: "autonat_type option"
  am_dial :: "dial_field option"
  am_response :: "dial_response option"

text \<open>\<open>DialResponse::status()\<close>: an absent status, and one that is no value of the enum, read as OK.\<close>

definition response_status :: "dial_response \<Rightarrow> dial_status" where
  "response_status r = (case dr_status r of
       Some st \<Rightarrow> (case st of OtherStatus _ \<Rightarrow> StatusOK | _ \<Rightarrow> st)
     | None \<Rightarrow> StatusOK)"

record autonat_codec =
  an_enc :: "nat \<Rightarrow> bytes"
  an_dec :: "bytes \<Rightarrow> string + nat \<times> bytes"
  an_wr :: "autonat_msg \<Rightarrow> string + bytes"
  an_parse :: "bytes \<Rightarrow> string + autonat_msg"
  an_id_bytes :: "peer_id \<Rightarrow> bytes"
  an_addr_bytes :: "multiaddr \<Rightarrow> bytes"
  an_parse_addr :: "bytes \<Rightarrow> string + multiaddr"

definition PROTOCOL_LIBP2P_AUTONAT :: string where
  "PROTOCOL_LIBP2P_AUTONAT = ''/libp2p/autonat/1.0.0''"

text \<open>
  \<open>auto_nat_success\<close> and \<open>auto_nat_failed\<close> up to their call of \<open>set_nat\<close>: the state that is
  to be set, if there is one.
\<close>

definition auto_nat_success :: "multiaddr \<Rightarrow> autonat_client \<Rightarrow> auto_nat option \<times> autonat_client" where
  "auto_nat_success addr c =
     (case client_success addr c of ((before, current), c') \<Rightarrow>
        (if before \<noteq> current then Some current else None, c'))"

definition auto_nat_failed :: "autonat_client \<Rightarrow> auto_nat option \<times> autonat_client" where
  "auto_nat_failed c =
     (case client_failed c of ((before, current), c') \<Rightarrow>
        (if before \<noteq> current then Some current else None, c'))"

definition dial_message :: "autonat_codec \<Rightarrow> peer_id \<Rightarrow> multiaddr list \<Rightarrow> autonat_msg" where
  "dial_message k local_id laddrs =
     \<lparr>am_type = Some DIAL,
      am_dial = Some \<lparr>di_peer = Some \<lparr>ap_id = Some (an_id_bytes k local_id), ap_addrs = map (an_addr_bytes k) laddrs\<rparr>\<rparr>,
      am_response = None\<rparr>"

text \<open>The exchange on the stream: the request is written, one message is read.\<close>

definition autonat_exchange ::
    "autonat_codec \<Rightarrow> nat \<Rightarrow> peer_id \<Rightarrow> multiaddr list \<Rightarrow> (stream, xs_error, autonat_msg) act" where
  "autonat_exchange k max_packet_size local_id laddrs =
     act_bind (act_lift (map_err ProtobufError (an_wr k (dial_message k local_id laddrs)))) (\<lambda>buf.
     act_bind (write_all (an_enc k (length buf))) (\<lambda>_.
     act_bind (write_all buf) (\<lambda>_.
     act_bind (read_usize (an_dec k)) (\<lambda>body_len.
       if max_packet_size < body_len then act_err (Overflow body_len)
       else act_bind (read_exact body_len) (\<lambda>buf.
         act_lift (map_err ProtobufError (an_parse k buf)))))))"

definition autonat_handle ::
    "autonat_codec \<Rightarrow> autonat_msg \<Rightarrow> (autonat_client, xs_error, auto_nat option) act" where
  "autonat_handle k message c =
     (case am_response message of
        None \<Rightarrow> (Inl AutoNatResponse, c)
      | Some response \<Rightarrow>
          (case response_status response of
             StatusOK \<Rightarrow>
               (case dr_addr response of
                  None \<Rightarrow> (Inr None, c)
                | Some addr \<Rightarrow>
                    (case an_parse_addr k addr of
                       Inl e \<Rightarrow> (Inl (MultiaddrError e), c)
                     | Inr addr \<Rightarrow> (case auto_nat_success addr c of (ch, c') \<Rightarrow> (Inr ch, c'))))
           | _ \<Rightarrow> (case auto_nat_failed c of (ch, c') \<Rightarrow> (Inr ch, c'))))"

text \<open>\<open>opened\<close> is the result of \<open>switch.connect(peer_id, [PROTOCOL_LIBP2P_AUTONAT])\<close>.\<close>

definition autonat_request_prv ::
    "autonat_codec \<Rightarrow> nat \<Rightarrow> peer_id \<Rightarrow> multiaddr list \<Rightarrow> xs_error + stream \<Rightarrow>
     (autonat_client, xs_error, auto_nat option) act" where
  "autonat_request_prv k max_packet_size local_id laddrs opened =
     act_bind (act_lift opened) (\<lambda>stream.
     act_bind (act_lift (fst (autonat_exchange k max_packet_size local_id laddrs stream))) (\<lambda>message.
     autonat_handle k message))"

text \<open>\<open>autonat_request\<close> only logs an error.\<close>

definition autonat_request ::
    "autonat_codec \<Rightarrow> nat \<Rightarrow> peer_id \<Rightarrow> multiaddr list \<Rightarrow> xs_error + stream \<Rightarrow> autonat_client \<Rightarrow>
     auto_nat option \<times> autonat_client" where
  "autonat_request k max_packet_size local_id laddrs opened c =
     (case autonat_request_prv k max_packet_size local_id laddrs opened c of
        (Inl _, c') \<Rightarrow> (None, c')
      | (Inr ch, c') \<Rightarrow> (ch, c'))"

text \<open>\<open>auto_nat_client\<close>: whether the peer of a \<open>HandshakeSuccess\<close> event is asked.\<close>

definition autonat_asks :: "switch_st \<Rightarrow> peer_id \<Rightarrow> bool" where
  "autonat_asks s peer_id =
     (if Unknown = ms_nat (sw_mut s) then
        (case book_get (sw_book s) peer_id of
           Inr (Some peer_info) \<Rightarrow> find (\<lambda>p. p = PROTOCOL_LIBP2P_AUTONAT) (pi_protos peer_info) \<noteq> None
         | _ \<Rightarrow> False)
      else False)"

section \<open>The client as a whole\<close>

text \<open>
  The running requests, and the states that a request is about to set: its lock on the counters
  is released, \<open>set_nat\<close> is not yet done.
\<close>

record autonat_sys =
  as_client :: autonat_client
  as_switch :: switch_st
  as_running :: "peer_id list"
  as_due :: "auto_nat list"

definition network_events :: "switch_st \<Rightarrow> auto_nat list" where
  "network_events s = List.map_filter (\<lambda>e. case e of EvNetwork n \<Rightarrow> Some n | _ \<Rightarrow> None) (sw_events s)"

inductive auto_step :: "autonat_codec \<Rightarrow> nat \<Rightarrow> autonat_sys \<Rightarrow> autonat_sys \<Rightarrow> bool" for k n where
  as_event: "auto_step k n a
      (if autonat_asks (as_switch a) p then a\<lparr>as_running := as_running a @ [p]\<rparr> else a)"
| as_finish: "p \<in> set (as_running a) \<Longrightarrow>
    autonat_request k n local_id laddrs opened (as_client a) = (ch, c') \<Longrightarrow>
    auto_step k n a (a\<lparr>as_client := c', as_running := remove1 p (as_running a),
      as_due := as_due a @ (case ch of Some st \<Rightarrow> [st] | None \<Rightarrow> [])\<rparr>)"
| as_set: "as_due a = st # due \<Longrightarrow>
    auto_step k n a (a\<lparr>as_switch := switch_set_nat st (as_switch a), as_due := due\<rparr>)"
| as_other: "ms_nat (sw_mut s') = ms_nat (sw_mut (as_switch a)) \<Longrightarrow>
    network_events s' = network_events (as_switch a) \<Longrightarrow> auto_step k n a (a\<lparr>as_switch := s'\<rparr>)"

definition bind_client :: "switch_st \<Rightarrow> autonat_sys" where
  "bind_client s = \<lparr>as_client = client_default, as_switch = s, as_running = [], as_due = []\<rparr>"

definition auto_reachable :: "autonat_codec \<Rightarrow> nat \<Rightarrow> switch_st \<Rightarrow> autonat_sys \<Rightarrow> bool" where
  "auto_reachable k n s = (auto_step k n)\<^sup>*\<^sup>* (bind_client s)"


section \<open>The counters decide once\<close>

abbreviation succ_count :: "autonat_client \<Rightarrow> nat" where
  "succ_count c \<equiv> sum_list (map snd (dial_succ c))"

lemma sum_update_Some:
  "distinct (map fst xs) \<Longrightarrow> map_of xs a = Some n \<Longrightarrow>
     sum_list (map snd (AList.update a (n + 1) xs)) = Suc (sum_list (map snd xs))"
  by (induction xs) auto

lemma sum_update_None:
  "map_of xs a = None \<Longrightarrow> sum_list (map snd (AList.update a 1 xs)) = Suc (sum_list (map snd xs))"
  by (induction xs) (auto split: if_splits)

definition client_ok :: "autonat_client \<Rightarrow> bool" where
  "client_ok c \<longleftrightarrow> distinct (map fst (dial_succ c)) \<and> succ_count c \<le> 3 \<and> dial_failed c \<le> 3 \<and>
     \<not> (succ_count c = 3 \<and> dial_failed c = 3)"

lemma client_default_ok [simp]: "client_ok client_default" "client_state client_default = Unknown"
  by (simp_all add: client_ok_def client_default_def client_state_def)

lemma client_state_iff:
  "client_ok c \<Longrightarrow> client_state c = Public \<longleftrightarrow> succ_count c = 3"
  "client_ok c \<Longrightarrow> client_state c = NAT \<longleftrightarrow> dial_failed c = 3"
  "client_state c = Unknown \<longleftrightarrow> succ_count c < 3 \<and> dial_failed c < 3"
  by (auto simp: client_state_def client_ok_def)

lemma auto_nat_success_decided [simp]:
  "client_state c \<noteq> Unknown \<Longrightarrow> auto_nat_success a c = (None, c)"
  by (simp add: auto_nat_success_def client_success_def Let_def)

lemma auto_nat_failed_decided [simp]:
  "client_state c \<noteq> Unknown \<Longrightarrow> auto_nat_failed c = (None, c)"
  by (simp add: auto_nat_failed_def client_failed_def Let_def)

text \<open>\<open>step_ok\<close>: what an update of the counters does to a client that has not decided.\<close>

definition report_ok :: "autonat_client \<Rightarrow> auto_nat option \<times> autonat_client \<Rightarrow> bool" where
  "report_ok c r \<longleftrightarrow> client_ok (snd r) \<and>
     (client_state c \<noteq> Unknown \<longrightarrow> r = (None, c)) \<and>
     (client_state c = Unknown \<longrightarrow>
        fst r = (if client_state (snd r) = Unknown then None else Some (client_state (snd r))))"

lemma auto_nat_success_open:
  assumes "client_ok c" and "client_state c = Unknown" and "auto_nat_success a c = (ch, c')"
  shows "succ_count c' = Suc (succ_count c) \<and> dial_failed c' = dial_failed c \<and> report_ok c (ch, c')"
proof -
  let ?c = "snd (client_success a c)"
  have eq: "c' = ?c" "ch = (if client_state ?c = Unknown then None else Some (client_state ?c))"
    using assms(2,3) by (auto simp: auto_nat_success_def client_success_def Let_def split: option.splits)
  have d: "distinct (map fst (dial_succ c))" using assms(1) by (simp add: client_ok_def)
  have cnt: "succ_count ?c = Suc (succ_count c)"
    using assms(2) sum_update_Some [OF d] sum_update_None
    by (cases "map_of (dial_succ c) a") (simp_all add: client_success_def Let_def)
  have fl: "dial_failed ?c = dial_failed c" and ks: "distinct (map fst (dial_succ ?c))"
    using assms(2) d
    by (simp_all add: client_success_def Let_def distinct_update split: option.split)
  have "client_ok ?c"
    using assms(1,2) cnt fl ks by (simp add: client_ok_def client_state_iff(3))
  then show ?thesis using assms(2) eq cnt fl by (simp add: report_ok_def)
qed

lemma auto_nat_failed_open:
  assumes "client_ok c" and "client_state c = Unknown" and "auto_nat_failed c = (ch, c')"
  shows "succ_count c' = succ_count c \<and> dial_failed c' = Suc (dial_failed c) \<and> report_ok c (ch, c')"
proof -
  let ?c = "c\<lparr>dial_failed := dial_failed c + 1\<rparr>"
  have eq: "c' = ?c" "ch = (if client_state ?c = Unknown then None else Some (client_state ?c))"
    using assms(2,3) by (auto simp: auto_nat_failed_def client_failed_def Let_def)
  have "client_ok ?c" using assms(1,2) by (simp add: client_ok_def client_state_iff(3))
  then show ?thesis using assms(2) eq by (simp add: report_ok_def)
qed

lemma report_ok_success: "client_ok c \<Longrightarrow> report_ok c (auto_nat_success a c)"
  using auto_nat_success_open [of c a]
  by (cases "client_state c = Unknown"; cases "auto_nat_success a c") (auto simp: report_ok_def)

lemma report_ok_failed: "client_ok c \<Longrightarrow> report_ok c (auto_nat_failed c)"
  using auto_nat_failed_open [of c]
  by (cases "client_state c = Unknown"; cases "auto_nat_failed c") (auto simp: report_ok_def)

lemma report_ok_success': "auto_nat_success a c = (ch, c') \<Longrightarrow> client_ok c \<Longrightarrow> report_ok c (ch, c')"
  by (metis report_ok_success)

lemma report_ok_failed': "auto_nat_failed c = (ch, c') \<Longrightarrow> client_ok c \<Longrightarrow> report_ok c (ch, c')"
  by (metis report_ok_failed)

lemma report_ok_none: "client_ok c \<Longrightarrow> report_ok c (None, c)"
  by (simp add: report_ok_def)

lemma autonat_request_ok: "client_ok c \<Longrightarrow> report_ok c (autonat_request k n i l opened c)"
  unfolding autonat_request_def autonat_request_prv_def act_bind_def autonat_handle_def
  by (auto split: sum.splits prod.splits option.splits dial_status.splits
      intro: report_ok_none dest: report_ok_success' report_ok_failed')

text \<open>A sequence of verdicts: \<open>Some addr\<close> is a successful dial-back to an address.\<close>

fun client_verdict :: "multiaddr option \<Rightarrow> autonat_client \<Rightarrow> autonat_client" where
  "client_verdict (Some addr) c = snd (auto_nat_success addr c)"
| "client_verdict None c = snd (auto_nat_failed c)"

abbreviation successes :: "multiaddr option list \<Rightarrow> nat" where
  "successes vs \<equiv> length (filter (\<lambda>v. v \<noteq> None) vs)"

abbreviation failures :: "multiaddr option list \<Rightarrow> nat" where
  "failures vs \<equiv> length (filter (\<lambda>v. v = None) vs)"

definition first_three :: "(multiaddr option \<Rightarrow> bool) \<Rightarrow> multiaddr option list \<Rightarrow> bool" where
  "first_three P vs \<longleftrightarrow>
     (\<exists>ys zs. vs = ys @ zs \<and> length (filter P ys) = 3 \<and> length (filter (\<lambda>v. \<not> P v) ys) < 3)"

lemma first_three_append: "first_three P vs \<Longrightarrow> first_three P (vs @ ws)"
  unfolding first_three_def by (metis append.assoc)

lemma first_three_self:
  "length (filter P vs) = 3 \<Longrightarrow> length (filter (\<lambda>v. \<not> P v) vs) < 3 \<Longrightarrow> first_three P vs"
  unfolding first_three_def by (intro exI [of _ vs] exI [of _ "[]"]) simp

lemma first_three_count: "first_three P vs \<Longrightarrow> 3 \<le> length (filter P vs)"
  by (auto simp: first_three_def)

lemma first_three_one:
  assumes "first_three P vs" shows "\<not> first_three (\<lambda>v. \<not> P v) vs"
proof
  assume "first_three (\<lambda>v. \<not> P v) vs"
  then obtain as bs where a: "vs = as @ bs" "length (filter (\<lambda>v. \<not> P v) as) = 3" "length (filter P as) < 3"
    unfolding first_three_def by (auto simp only: not_not)
  from assms obtain cs ds where c: "vs = cs @ ds" "length (filter P cs) = 3" "length (filter (\<lambda>v. \<not> P v) cs) < 3"
    unfolding first_three_def by blast
  from a(1) c(1) have "as @ bs = cs @ ds" by simp
  then obtain us where "as = cs @ us \<or> cs = as @ us" unfolding append_eq_append_conv2 by blast
  then show False
  proof
    assume "as = cs @ us"
    then have "length (filter P as) = length (filter P cs) + length (filter P us)" by simp
    with a(3) c(2) show False by linarith
  next
    assume "cs = as @ us"
    then have "length (filter (\<lambda>v. \<not> P v) cs) =
        length (filter (\<lambda>v. \<not> P v) as) + length (filter (\<lambda>v. \<not> P v) us)" by simp
    with a(2) c(3) show False by linarith
  qed
qed

definition tallied :: "multiaddr option list \<Rightarrow> autonat_client \<Rightarrow> bool" where
  "tallied vs c \<longleftrightarrow> client_ok c \<and>
     (client_state c = Unknown \<longrightarrow> succ_count c = successes vs \<and> dial_failed c = failures vs) \<and>
     (client_state c = Public \<longrightarrow> first_three (\<lambda>v. v \<noteq> None) vs) \<and>
     (client_state c = NAT \<longrightarrow> first_three (\<lambda>v. v = None) vs)"

lemma tallied_counted:
  assumes "client_ok c" and "succ_count c = successes vs" and "dial_failed c = failures vs"
  shows "tallied vs c"
proof -
  have "successes vs = 3 \<Longrightarrow> failures vs < 3" "failures vs = 3 \<Longrightarrow> successes vs < 3"
    using assms by (auto simp: client_ok_def)
  then have "successes vs = 3 \<Longrightarrow> first_three (\<lambda>v. v \<noteq> None) vs" "failures vs = 3 \<Longrightarrow> first_three (\<lambda>v. v = None) vs"
    using first_three_self [of "\<lambda>v. v \<noteq> None" vs] first_three_self [of "\<lambda>v. v = None" vs] by simp_all
  with assms show ?thesis by (simp add: tallied_def client_state_iff(1,2))
qed

lemma tallied_step:
  assumes "tallied vs c" shows "tallied (vs @ [v]) (client_verdict v c)"
proof (cases "client_state c = Unknown")
  case False
  then have "client_verdict v c = c" by (cases v) simp_all
  with assms False first_three_append [of _ vs "[v]"] show ?thesis by (simp add: tallied_def)
next
  case True
  with assms have c: "client_ok c" "succ_count c = successes vs" "dial_failed c = failures vs"
    by (simp_all add: tallied_def)
  show ?thesis
  proof (cases v)
    case None
    obtain ch c' where eq: "auto_nat_failed c = (ch, c')" by fastforce
    from auto_nat_failed_open [OF c(1) True eq] show ?thesis
      unfolding None by (intro tallied_counted) (simp_all add: eq c report_ok_def)
  next
    case (Some a)
    obtain ch c' where eq: "auto_nat_success a c = (ch, c')" by fastforce
    from auto_nat_success_open [OF c(1) True eq] show ?thesis
      unfolding Some by (intro tallied_counted) (simp_all add: eq c report_ok_def)
  qed
qed

lemma tallied_run: "tallied vs (fold client_verdict vs client_default)"
proof (induction vs rule: rev_induct)
  case Nil
  show ?case by (rule tallied_counted) (simp_all, simp_all add: client_default_def)
next
  case (snoc v vs)
  then show ?case by (simp add: tallied_step)
qed

text \<open>C26: The verdict of autonat. A node takes itself for public exactly when three dial-backs succeeded
  before three failed, whatever addresses they were for, and for one behind a NAT exactly when three
  failed before three succeeded; until then the state is unknown.\<close>

theorem autonat_majority:
  "(client_state (fold client_verdict vs client_default) = Public \<longleftrightarrow> first_three (\<lambda>v. v \<noteq> None) vs) \<and>
   (client_state (fold client_verdict vs client_default) = NAT \<longleftrightarrow> first_three (\<lambda>v. v = None) vs) \<and>
   (client_state (fold client_verdict vs client_default) = Unknown \<longleftrightarrow> successes vs < 3 \<and> failures vs < 3)"
proof -
  note inv = tallied_run [of vs, unfolded tallied_def]
  show ?thesis
  proof (cases "client_state (fold client_verdict vs client_default)")
    case Public
    with inv have "first_three (\<lambda>v. v \<noteq> None) vs" by simp
    with first_three_one [OF this] first_three_count [OF this] Public show ?thesis by auto
  next
    case NAT
    with inv have "first_three (\<lambda>v. v = None) vs" by simp
    with first_three_one [OF this] first_three_count [OF this] NAT show ?thesis by auto
  next
    case Unknown
    with inv have lt: "successes vs < 3" "failures vs < 3" by (auto simp: client_state_iff(3))
    with first_three_count [of "\<lambda>v. v \<noteq> None" vs] first_three_count [of "\<lambda>v. v = None" vs]
    have "\<not> first_three (\<lambda>v. v \<noteq> None) vs" "\<not> first_three (\<lambda>v. v = None) vs" by linarith+
    with lt Unknown show ?thesis by simp
  qed
qed

section \<open>The state is set at most once\<close>

lemma network_events_set [simp]:
  "network_events (switch_set_nat st s) = network_events s @ [st]" "ms_nat (sw_mut (switch_set_nat st s)) = st"
  by (simp_all add: network_events_def switch_set_nat_def set_nat_def List.map_filter_def)

definition sys_ok :: "switch_st \<Rightarrow> autonat_sys \<Rightarrow> bool" where
  "sys_ok s a \<longleftrightarrow> client_ok (as_client a) \<and>
     (let st = client_state (as_client a); evs = network_events (as_switch a); nat = ms_nat (sw_mut (as_switch a)) in
      if st = Unknown then as_due a = [] \<and> evs = network_events s \<and> nat = ms_nat (sw_mut s)
      else as_due a = [st] \<and> evs = network_events s \<and> nat = ms_nat (sw_mut s) \<or>
           as_due a = [] \<and> evs = network_events s @ [st] \<and> nat = st)"

lemma sys_ok_bind: "sys_ok s (bind_client s)"
  by (simp add: sys_ok_def bind_client_def)

lemma sys_ok_report:
  assumes "sys_ok s a" and "report_ok (as_client a) (ch, c')"
  shows "sys_ok s (a\<lparr>as_client := c', as_running := r, as_due := as_due a @ (case ch of Some st \<Rightarrow> [st] | None \<Rightarrow> [])\<rparr>)"
proof (cases "client_state (as_client a) = Unknown")
  case True
  with assms show ?thesis
    by (cases "client_state c' = Unknown") (simp_all add: sys_ok_def report_ok_def Let_def)
next
  case False
  with assms show ?thesis by (simp add: sys_ok_def report_ok_def Let_def)
qed

lemma sys_ok_running [simp]: "sys_ok s (a\<lparr>as_running := r\<rparr>) = sys_ok s a"
  by (simp add: sys_ok_def)

lemma sys_ok_step: "auto_step k n a b \<Longrightarrow> sys_ok s a \<Longrightarrow> sys_ok s b"
proof (induction rule: auto_step.induct)
  case (as_event a p)
  then show ?case by simp
next
  case (as_finish p a local_id laddrs opened ch c')
  have "report_ok (as_client a) (ch, c')"
    using autonat_request_ok [of "as_client a" k n local_id laddrs opened] as_finish(2,3) by (simp add: sys_ok_def)
  from sys_ok_report [OF as_finish(3) this] show ?case .
next
  case (as_set a st due)
  then show ?case by (auto simp: sys_ok_def Let_def split: if_splits)
next
  case (as_other s' a)
  then show ?case by (simp add: sys_ok_def Let_def)
qed

lemma sys_ok_reachable: "auto_reachable k n s a \<Longrightarrow> sys_ok s a"
  unfolding auto_reachable_def by (induction rule: rtranclp_induct) (auto intro: sys_ok_bind sys_ok_step)

lemma decided_stays:
  "auto_step k n a b \<Longrightarrow> client_ok (as_client a) \<Longrightarrow> client_state (as_client a) \<noteq> Unknown \<Longrightarrow> as_client b = as_client a"
proof (induction rule: auto_step.induct)
  case (as_finish p a local_id laddrs opened ch c')
  then show ?case using autonat_request_ok [of "as_client a" k n local_id laddrs opened] by (simp add: report_ok_def)
qed simp_all

text \<open>C19: The client tells the switch at most once. However the requests interleave, and whatever the peers
  answer: while the counters have not decided, the switch's state and its network events are what they
  were when the client was bound; once they have, the one verdict is due or has been set, with one
  network event, and neither the counters nor the verdict change any more. No counter exceeds three.\<close>

theorem autonat_decides_once:
  assumes "auto_reachable k n s a"
  shows "succ_count (as_client a) \<le> 3 \<and> dial_failed (as_client a) \<le> 3 \<and>
    (client_state (as_client a) = Unknown \<longrightarrow>
       as_due a = [] \<and> network_events (as_switch a) = network_events s \<and>
       ms_nat (sw_mut (as_switch a)) = ms_nat (sw_mut s)) \<and>
    (client_state (as_client a) \<noteq> Unknown \<longrightarrow>
       network_events (as_switch a) @ as_due a = network_events s @ [client_state (as_client a)] \<and>
       (as_due a = [] \<longrightarrow> ms_nat (sw_mut (as_switch a)) = client_state (as_client a)) \<and>
       (\<forall>b. auto_step k n a b \<longrightarrow> as_client b = as_client a))"
proof -
  have ok: "sys_ok s a" by (rule sys_ok_reachable [OF assms])
  then have c: "client_ok (as_client a)" by (simp add: sys_ok_def)
  show ?thesis
  proof (cases "client_state (as_client a) = Unknown")
    case True
    with ok c show ?thesis by (simp add: sys_ok_def client_ok_def)
  next
    case False
    with ok c decided_stays [OF _ c False, of k n] show ?thesis
      by (auto simp: sys_ok_def client_ok_def Let_def)
  qed
qed

definition asked_switch :: switch_st where
  "asked_switch = empty_switch\<lparr>sw_book := snd (book_insert book_empty \<lparr>pi_id = PeerId 3, pi_addrs = [],
     pi_protos = [PROTOCOL_LIBP2P_AUTONAT], pi_appear = None, pi_disappear = None\<rparr>)\<rparr>"

definition asked_sys :: autonat_sys where
  "asked_sys = (bind_client asked_switch)\<lparr>as_running := [PeerId 3]\<rparr>"

lemma asked_reachable: "auto_reachable k n asked_switch asked_sys"
proof -
  have "autonat_asks (as_switch (bind_client asked_switch)) (PeerId 3)"
    by (simp add: autonat_asks_def bind_client_def asked_switch_def empty_switch_def mutable_new_def
        auto_nat_default_def book_get_def stored_def)
  with as_event [of k n "bind_client asked_switch" "PeerId 3"] have "auto_step k n (bind_client asked_switch) asked_sys"
    by (simp add: asked_sys_def) (simp add: bind_client_def)
  then show ?thesis by (simp add: auto_reachable_def)
qed

theorem autonat_decides_once_witness:
  "network_events (as_switch asked_sys) = network_events asked_switch \<and> as_running asked_sys = [PeerId 3]"
  using autonat_decides_once [OF asked_reachable] by (simp add: asked_sys_def bind_client_def)

text \<open>What a peer reads of a request, and what its answer counts for.\<close>

definition autonat_law :: "autonat_codec \<Rightarrow> bool" where
  "autonat_law k \<longleftrightarrow> varint_law (an_enc k) (an_dec k) \<and> message_law (an_wr k) (an_parse k) \<and>
     (\<forall>addr. an_parse_addr k (an_addr_bytes k addr) = Inr addr)"

lemma autonat_exchange_answer:
  assumes "autonat_law k" and "st_room io = None"
    and "an_wr k (dial_message k i l) = Inr q" and "an_wr k m = Inr buf" and "length buf \<le> n"
    and "st_in io = an_enc k (length buf) @ buf @ rest"
  shows "autonat_exchange k n i l io =
    (Inr m, io\<lparr>st_out := st_out io @ an_enc k (length q) @ q, st_in := rest\<rparr>)"
proof -
  have "length buf < 2 ^ 64" "an_parse k buf = Inr m" "varint_law (an_enc k) (an_dec k)"
    using assms(1,4) by (auto simp: autonat_law_def message_law_def)
  with assms show ?thesis
    by (simp add: autonat_exchange_def act_bind_def write_all_def read_usize_def read_exact_def varint_law_def)
qed

lemma autonat_request_opened:
  "fst (autonat_exchange k n i l io) = Inr m \<Longrightarrow>
     autonat_request k n i l (Inr io) c =
       (case autonat_handle k m c of (Inl _, c') \<Rightarrow> (None, c') | (Inr ch, c') \<Rightarrow> (ch, c'))"
  by (simp add: autonat_request_def autonat_request_prv_def act_bind_def)

text \<open>One request. The peer can read from the stream the dial message that names the node and
  all its local addresses. Its answer counts as a success when the status is OK (or absent, or
  unknown to the enum) and it carries the address that was dialled, as a failure with any status of an error, and as nothing
  when it has no address or is no dial response; a request that gets no message counts as nothing.\<close>

theorem autonat_request_counts:
  assumes "autonat_law k" and "st_room io = None"
    and "an_wr k (dial_message k i l) = Inr q" and "an_wr k m = Inr buf" and "length buf \<le> n" and "length q \<le> n"
    and "st_in io = an_enc k (length buf) @ buf @ rest"
  shows "(\<exists>io'. autonat_exchange k n i l io = (Inr m, io') \<and>
      (\<forall>peer. st_in peer = drop (length (st_out io)) (st_out io') \<longrightarrow>
         fst (xstack_recv (an_dec k) (an_parse k) n peer) = Inr (dial_message k i l))) \<and>
    (\<forall>addr text msg. am_response m = Some \<lparr>dr_status = text, dr_text = msg, dr_addr = Some (an_addr_bytes k addr)\<rparr> \<longrightarrow>
       text = None \<or> text = Some StatusOK \<or> (\<exists>v. text = Some (OtherStatus v)) \<longrightarrow> autonat_request k n i l (Inr io) c = auto_nat_success addr c) \<and>
    (\<forall>st msg x. am_response m = Some \<lparr>dr_status = Some st, dr_text = msg, dr_addr = x\<rparr> \<longrightarrow> st \<noteq> StatusOK \<and> (\<forall>v. st \<noteq> OtherStatus v) \<longrightarrow>
       autonat_request k n i l (Inr io) c = auto_nat_failed c) \<and>
    (am_response m = None \<or> (\<exists>msg. am_response m = Some \<lparr>dr_status = Some StatusOK, dr_text = msg, dr_addr = None\<rparr>) \<longrightarrow>
       autonat_request k n i l (Inr io) c = (None, c)) \<and>
    (\<forall>e. autonat_request k n i l (Inl e) c = (None, c))"
proof -
  note ex = autonat_exchange_answer [OF assms(1-5,7)]
  have req: "autonat_request k n i l (Inr io) c =
      (case autonat_handle k m c of (Inl _, c') \<Rightarrow> (None, c') | (Inr ch, c') \<Rightarrow> (ch, c'))"
    by (rule autonat_request_opened) (simp add: ex)
  have laws: "varint_law (an_enc k) (an_dec k)" "message_law (an_wr k) (an_parse k)"
    "\<And>addr. an_parse_addr k (an_addr_bytes k addr) = Inr addr"
    using assms(1) by (simp_all add: autonat_law_def)
  have "fst (xstack_recv (an_dec k) (an_parse k) n peer) = Inr (dial_message k i l)"
    if "st_in peer = an_enc k (length q) @ q" for peer
    using xstack_recv_frame [OF laws(1,2) assms(3,6), of peer "[]"] that by simp
  then show ?thesis
    unfolding req using ex
    by (auto simp: autonat_handle_def response_status_def laws(3) autonat_request_def autonat_request_prv_def
        act_bind_def split: dial_status.split prod.split)
qed

text \<open>A codec that keeps the law: its protobuf encodes two messages.\<close>

definition two_message_codec :: "autonat_msg \<Rightarrow> autonat_msg \<Rightarrow> autonat_codec" where
  "two_message_codec m1 m2 =
     \<lparr>an_enc = leb, an_dec = unleb,
      an_wr = (\<lambda>x. if x = m1 then Inr [1] else if x = m2 then Inr [2] else Inl ''unknown''),
      an_parse = (\<lambda>b. Inr (if b = [1] then m1 else m2)),
      an_id_bytes = some_id_bytes, an_addr_bytes = some_addr_bytes, an_parse_addr = some_addr_parse\<rparr>"

lemma two_message_codec_law: "autonat_law (two_message_codec m1 m2)"
  by (auto simp: autonat_law_def two_message_codec_def varint_law_leb message_law_def)

definition sample_dial :: autonat_msg where
  "sample_dial = dial_message (two_message_codec undefined undefined) (PeerId 1) [[Ip4 5, Tcp 80]]"

definition sample_refusal :: autonat_msg where
  "sample_refusal = \<lparr>am_type = Some DIAL_RESPONSE, am_dial = None,
     am_response = Some \<lparr>dr_status = Some E_DIAL_REFUSED, dr_text = None, dr_addr = None\<rparr>\<rparr>"

theorem autonat_request_counts_witness:
  "autonat_request (two_message_codec sample_dial sample_refusal) 10 (PeerId 1) [[Ip4 5, Tcp 80]]
     (Inr (quiet\<lparr>st_in := [1, 2]\<rparr>)) client_default = (None, \<lparr>dial_succ = [], dial_failed = 1\<rparr>)"
proof -
  let ?k = "two_message_codec sample_dial sample_refusal"
  have dm: "dial_message ?k (PeerId 1) [[Ip4 5, Tcp 80]] = sample_dial"
    by (simp add: sample_dial_def dial_message_def two_message_codec_def)
  have ne: "sample_refusal \<noteq> sample_dial" by (simp add: sample_dial_def sample_refusal_def dial_message_def)
  have q: "an_wr ?k (dial_message ?k (PeerId 1) [[Ip4 5, Tcp 80]]) = Inr [1]"
    unfolding dm by (simp add: two_message_codec_def)
  have b: "an_wr ?k sample_refusal = Inr [2]" using ne by (simp add: two_message_codec_def)
  have io: "st_in (quiet\<lparr>st_in := [1, 2]\<rparr>) = an_enc ?k (length ([2] :: bytes)) @ [2] @ []"
    by (simp add: two_message_codec_def leb.simps)
  have room: "st_room (quiet\<lparr>st_in := [1, 2]\<rparr>) = None" by (simp add: quiet_def)
  note counts = autonat_request_counts [OF two_message_codec_law room q b _ _ io, of 10 client_default]
  have "autonat_request ?k 10 (PeerId 1) [[Ip4 5, Tcp 80]] (Inr (quiet\<lparr>st_in := [1, 2]\<rparr>)) client_default =
      auto_nat_failed client_default"
    using counts by (simp add: sample_refusal_def)
  then show ?thesis
    by (simp add: auto_nat_failed_def client_failed_def client_default_def client_state_def)
qed

end
