(* ===== verification/CircuitRpc.thy ===== *)
theory CircuitRpc
  imports Rpc
begin

text \<open>
  \<open>circuit/src/rpc.rs\<close> and \<open>circuit/src/errors.rs\<close>: the messages of circuit relay v2 and of DCUtR
  over a stream. The calls of the \<open>CircuitV2Rpc\<close> trait (reserve and connect at a relay, connect to a
  stop node and its acceptance) and of \<open>DCUtRRpc\<close>, with every check of the answer.

  The generated message structs are records; their codecs, and those of ids and addresses, are the
  fields of a \<open>circuit_codec\<close>. A \<open>usize\<close> has 64 bits. Instants count seconds of the Unix epoch: on the
  systems of the standard library an instant past 2^63 seconds cannot be represented and adding that
  much panics, which is the value \<open>None\<close>.
\<close>

section \<open>Errors\<close>

datatype circuit_error =
    CIo io_error
  | HotReject string
  | CProtoBuf string
  | CReadError string
  | COutOfRange nat
  | XStackError xs_error
  | CMultiaddr string
  | CircuitStop string
  | ConnectAddr
  | ReservationExpire
  | DCUtRConnect
  | DCUtRSync

text \<open>\<open>display\<close> is the text of an error that \<open>io::Error::new(Other, err)\<close> wraps.\<close>

fun circuit_error_to_io :: "(circuit_error \<Rightarrow> string) \<Rightarrow> circuit_error \<Rightarrow> io_error" where
  "circuit_error_to_io display (CIo err) = err"
| "circuit_error_to_io display err = OsError (display err)"

section \<open>Messages\<close>

datatype hop_type = HopReserve | HopConnect | HopStatus | HopOther "32 word"

datatype stop_type = StopConnect | StopStatus | StopOther "32 word"

datatype circuit_status =
    UNUSED | StOK | RESERVATION_REFUSED | RESOURCE_LIMIT_EXCEEDED | PERMISSION_DENIED | CONNECTION_FAILED
  | NO_RESERVATION | MALFORMED_MESSAGE | UNEXPECTED_MESSAGE | StOther "32 word"

datatype punch_type = PunchConnect | PunchSync | PunchOther "32 word"

record peer_field =
  pf_id :: "bytes option"
  pf_addrs :: "bytes list"

record limit_field =
  lf_duration :: "32 word option"
  lf_data :: "64 word option"

record reservation_field =
  rf_expire :: "64 word option"
  rf_addrs :: "bytes list"
  rf_voucher :: "bytes option"

record hop_message =
  hm_type :: "hop_type option"
  hm_peer :: "peer_field option"
  hm_reservation :: "reservation_field option"
  hm_limit :: "limit_field option"
  hm_status :: "circuit_status option"

record stop_message =
  sm_type :: "stop_type option"
  sm_peer :: "peer_field option"
  sm_limit :: "limit_field option"
  sm_status :: "circuit_status option"

record hole_punch =
  hp_type :: "punch_type option"
  hp_obs_addrs :: "bytes list"

definition hop_new :: hop_message where
  "hop_new = \<lparr>hm_type = None, hm_peer = None, hm_reservation = None, hm_limit = None, hm_status = None\<rparr>"

definition stop_new :: stop_message where
  "stop_new = \<lparr>sm_type = None, sm_peer = None, sm_limit = None, sm_status = None\<rparr>"

definition punch_new :: hole_punch where
  "punch_new = \<lparr>hp_type = None, hp_obs_addrs = []\<rparr>"

record circuit_codec =
  cc_enc :: "nat \<Rightarrow> bytes"
  cc_dec :: "bytes \<Rightarrow> string + nat \<times> bytes"
  cc_wr_hop :: "hop_message \<Rightarrow> string + bytes"
  cc_parse_hop :: "bytes \<Rightarrow> string + hop_message"
  cc_wr_stop :: "stop_message \<Rightarrow> string + bytes"
  cc_parse_stop :: "bytes \<Rightarrow> string + stop_message"
  cc_wr_punch :: "hole_punch \<Rightarrow> string + bytes"
  cc_parse_punch :: "bytes \<Rightarrow> string + hole_punch"
  cc_id_bytes :: "peer_id \<Rightarrow> bytes"
  cc_addr_bytes :: "multiaddr \<Rightarrow> bytes"
  cc_addr_parse :: "bytes \<Rightarrow> string + multiaddr"
  cc_show_status :: "circuit_status \<Rightarrow> string"

section \<open>Limits and reservations\<close>

text \<open>A \<open>Duration\<close>: seconds and nanoseconds.\<close>

record duration =
  du_secs :: "64 word"
  du_nanos :: "32 word"

definition from_secs :: "64 word \<Rightarrow> duration" where
  "from_secs n = \<lparr>du_secs = n, du_nanos = 0\<rparr>"

record limit =
  lim_duration :: "duration option"
  lim_data :: "64 word option"

record reservation =
  rs_expire :: nat
  rs_addrs :: "multiaddr list"
  rs_limit :: "limit option"

definition limit_of_proto :: "limit_field \<Rightarrow> limit" where
  "limit_of_proto l =
     \<lparr>lim_duration = map_option (\<lambda>dur. from_secs (ucast dur)) (lf_duration l), lim_data = lf_data l\<rparr>"

definition limit_to_proto :: "limit \<Rightarrow> limit_field" where
  "limit_to_proto l =
     \<lparr>lf_duration = map_option (\<lambda>dur. ucast (du_secs dur)) (lim_duration l), lf_data = lim_data l\<rparr>"

section \<open>\<open>CircuitV2Rpc\<close>\<close>

definition xs_act :: "(stream, xs_error, 'a) act \<Rightarrow> (stream, circuit_error, 'a) act" where
  "xs_act = act_map_err XStackError"

definition hop_call :: "circuit_codec \<Rightarrow> hop_message \<Rightarrow> nat \<Rightarrow> (stream, circuit_error, hop_message) act" where
  "hop_call k m n = xs_act (xstack_call (cc_enc k) (cc_dec k) (cc_wr_hop k) (cc_parse_hop k) m n)"

definition stop_call :: "circuit_codec \<Rightarrow> stop_message \<Rightarrow> nat \<Rightarrow> (stream, circuit_error, stop_message) act" where
  "stop_call k m n = xs_act (xstack_call (cc_enc k) (cc_dec k) (cc_wr_stop k) (cc_parse_stop k) m n)"

text \<open>The status checks that the calls share: the type, then the status field.\<close>

definition check_status :: "circuit_codec \<Rightarrow> bool \<Rightarrow> circuit_status option \<Rightarrow> circuit_error + unit" where
  "check_status k is_status st =
     (if \<not> is_status then Inl (HotReject ''Invalid response, expect status'')
      else (case st of
              Some status \<Rightarrow> (if StOK \<noteq> status then Inl (HotReject (cc_show_status k status)) else Inr ())
            | None \<Rightarrow> Inl (HotReject ''status field is null'')))"

definition time_add :: "64 word \<Rightarrow> nat option" where
  "time_add secs = (if unat secs < 2 ^ 63 then Some (unat secs) else None)"

definition parse_addrs :: "circuit_codec \<Rightarrow> bytes list \<Rightarrow> circuit_error + multiaddr list" where
  "parse_addrs k bufs = try_map (\<lambda>buf. map_err CMultiaddr (cc_addr_parse k buf)) bufs"

definition reservation_of :: "circuit_codec \<Rightarrow> hop_message \<Rightarrow> (circuit_error + reservation) option" where
  "reservation_of k message =
     (case check_status k (hm_type message = Some HopStatus) (hm_status message) of
        Inl e \<Rightarrow> Some (Inl e)
      | Inr _ \<Rightarrow>
          (case hm_reservation message of
             None \<Rightarrow> Some (Inl (HotReject ''reservation field is null''))
           | Some r \<Rightarrow>
               (case rf_expire r of
                  None \<Rightarrow> Some (Inl ReservationExpire)
                | Some value \<Rightarrow>
                    Option.bind (time_add value) (\<lambda>expire.
                    Some (and_then (parse_addrs k (rf_addrs r)) (\<lambda>addrs.
                      Inr \<lparr>rs_expire = expire, rs_addrs = addrs,
                           rs_limit = map_option limit_of_proto (hm_limit message)\<rparr>))))))"

definition circuit_v2_hop_reserve ::
    "circuit_codec \<Rightarrow> nat \<Rightarrow> stream \<Rightarrow> (circuit_error + reservation) option \<times> stream" where
  "circuit_v2_hop_reserve k max_recv_len s =
     (case hop_call k (hop_new\<lparr>hm_type := Some HopReserve\<rparr>) max_recv_len s of
        (Inl e, s') \<Rightarrow> (Some (Inl e), s')
      | (Inr message, s') \<Rightarrow> (reservation_of k message, s'))"

definition circuit_v2_hop_connect ::
    "circuit_codec \<Rightarrow> peer_id \<Rightarrow> nat \<Rightarrow> (stream, circuit_error, limit option) act" where
  "circuit_v2_hop_connect k peer max_recv_len =
     act_bind (hop_call k (hop_new\<lparr>hm_type := Some HopConnect,
         hm_peer := Some \<lparr>pf_id = Some (cc_id_bytes k peer), pf_addrs = []\<rparr>\<rparr>) max_recv_len) (\<lambda>message.
     act_bind (act_lift (check_status k (hm_type message = Some HopStatus) (hm_status message))) (\<lambda>_.
     act_ok (map_option limit_of_proto (hm_limit message))))"

definition circuit_v2_stop_connect ::
    "circuit_codec \<Rightarrow> peer_id \<Rightarrow> nat \<Rightarrow> (stream, circuit_error, unit) act" where
  "circuit_v2_stop_connect k peer max_recv_len =
     act_bind (stop_call k (stop_new\<lparr>sm_type := Some StopConnect,
         sm_peer := Some \<lparr>pf_id = Some (cc_id_bytes k peer), pf_addrs = []\<rparr>\<rparr>) max_recv_len) (\<lambda>message.
     act_bind (act_lift (check_status k (sm_type message = Some StopStatus) (sm_status message))) (\<lambda>_.
     act_ok ()))"

definition circuit_v2_stop_connect_accept ::
    "circuit_codec \<Rightarrow> nat \<Rightarrow> (stream, circuit_error, limit option) act" where
  "circuit_v2_stop_connect_accept k max_recv_len =
     act_bind (xs_act (xstack_recv (cc_dec k) (cc_parse_stop k) max_recv_len)) (\<lambda>stop_message.
       if sm_type stop_message \<noteq> Some StopConnect then act_err (CircuitStop ''expect CONNECT'')
       else
         act_bind (xs_act (xstack_send (cc_enc k) (cc_wr_stop k)
           (stop_new\<lparr>sm_type := Some StopStatus, sm_status := Some StOK\<rparr>))) (\<lambda>_.
         act_ok (map_option limit_of_proto (sm_limit stop_message))))"

section \<open>\<open>DCUtRRpc\<close>\<close>

definition dcutr_send_connect :: "circuit_codec \<Rightarrow> multiaddr list \<Rightarrow> (stream, circuit_error, unit) act" where
  "dcutr_send_connect k observed_addrs =
     xs_act (xstack_send (cc_enc k) (cc_wr_punch k)
       (punch_new\<lparr>hp_type := Some PunchConnect, hp_obs_addrs := map (cc_addr_bytes k) observed_addrs\<rparr>))"

definition dcutr_recv_connect :: "circuit_codec \<Rightarrow> nat \<Rightarrow> (stream, circuit_error, multiaddr list) act" where
  "dcutr_recv_connect k max_recv_len =
     act_bind (xs_act (xstack_recv (cc_dec k) (cc_parse_punch k) max_recv_len)) (\<lambda>message.
       if hp_type message \<noteq> Some PunchConnect then act_err DCUtRConnect
       else act_lift (parse_addrs k (hp_obs_addrs message)))"

definition dcutr_send_sync :: "circuit_codec \<Rightarrow> (stream, circuit_error, unit) act" where
  "dcutr_send_sync k =
     xs_act (xstack_send (cc_enc k) (cc_wr_punch k) (punch_new\<lparr>hp_type := Some PunchSync\<rparr>))"

definition dcutr_recv_sync :: "circuit_codec \<Rightarrow> nat \<Rightarrow> (stream, circuit_error, unit) act" where
  "dcutr_recv_sync k max_recv_len =
     act_bind (xs_act (xstack_recv (cc_dec k) (cc_parse_punch k) max_recv_len)) (\<lambda>message.
       if hp_type message \<noteq> Some PunchSync then act_err DCUtRSync else act_ok ())"

section \<open>Limits\<close>

lemma ucast_up_down [simp]: "(ucast (ucast (w :: 32 word) :: 64 word) :: 32 word) = w"
proof -
  have "unat w < 2 ^ 32" using unsigned_less [of w] by simp
  then have "unat w < 2 ^ 64" by simp
  then show ?thesis by (simp add: word_unat_eq_iff unsigned_ucast_eq unsigned_take_bit_eq take_bit_nat_eq_self)
qed

lemma limit_of_to_proto_eq:
  "limit_of_proto (limit_to_proto l) = l \<longleftrightarrow>
     (case lim_duration l of None \<Rightarrow> True | Some d \<Rightarrow> du_nanos d = 0 \<and> unat (du_secs d) < 2 ^ 32)"
proof (cases "lim_duration l")
  case None
  then show ?thesis by (cases l) (simp add: limit_of_proto_def limit_to_proto_def)
next
  case (Some d)
  have "ucast (ucast (du_secs d) :: 32 word) = du_secs d \<longleftrightarrow> unat (du_secs d) < 2 ^ 32"
  proof -
    have "unat (ucast (ucast (du_secs d) :: 32 word) :: 64 word) = take_bit 32 (unat (du_secs d))"
      by (simp add: unsigned_ucast_eq unsigned_take_bit_eq)
    then show ?thesis by (simp add: word_unat_eq_iff take_bit_nat_eq_self_iff)
  qed
  with Some show ?thesis
    by (cases l; cases d) (auto simp: limit_of_proto_def limit_to_proto_def from_secs_def)
qed

text \<open>Limits on the wire. Every limit that a peer sends survives the conversion and back. The other
  way a limit survives exactly when its duration is a whole number of seconds below 2^32:
  the nanoseconds are dropped, and the seconds are taken modulo 2^32.\<close>

theorem limit_roundtrip:
  "limit_to_proto (limit_of_proto p) = p \<and>
   (limit_of_proto (limit_to_proto l) = l \<longleftrightarrow>
      lim_duration l = None \<or> (\<exists>secs. lim_duration l = Some (from_secs secs) \<and> unat secs < 2 ^ 32)) \<and>
   (lim_duration l = Some d \<longrightarrow>
      map_option unat (lf_duration (limit_to_proto l)) = Some (unat (du_secs d) mod 2 ^ 32))"
proof (intro conjI impI)
  show "limit_to_proto (limit_of_proto p) = p"
    by (cases p) (simp add: limit_of_proto_def limit_to_proto_def from_secs_def option.map_comp comp_def option.map_ident)
  show "limit_of_proto (limit_to_proto l) = l \<longleftrightarrow>
      lim_duration l = None \<or> (\<exists>secs. lim_duration l = Some (from_secs secs) \<and> unat secs < 2 ^ 32)"
    unfolding limit_of_to_proto_eq
    by (cases "lim_duration l"; cases "the (lim_duration l)") (auto simp: from_secs_def)
  assume "lim_duration l = Some d"
  then show "map_option unat (lf_duration (limit_to_proto l)) = Some (unat (du_secs d) mod 2 ^ 32)"
    by (simp add: limit_to_proto_def unsigned_ucast_eq take_bit_eq_mod)
qed

theorem limit_roundtrip_witness:
  "map_option unat (lf_duration (limit_to_proto \<lparr>lim_duration = Some (from_secs 4294967297), lim_data = None\<rparr>)) = Some 1"
  using conjunct2 [OF conjunct2 [OF limit_roundtrip [of undefined "\<lparr>lim_duration = Some (from_secs 4294967297), lim_data = None\<rparr>"
      "from_secs 4294967297"]]]
  by (simp add: from_secs_def)

section \<open>Messages over a stream\<close>

definition circuit_law :: "circuit_codec \<Rightarrow> bool" where
  "circuit_law k \<longleftrightarrow> varint_law (cc_enc k) (cc_dec k) \<and> message_law (cc_wr_hop k) (cc_parse_hop k) \<and>
     message_law (cc_wr_stop k) (cc_parse_stop k) \<and> message_law (cc_wr_punch k) (cc_parse_punch k) \<and>
     (\<forall>a. cc_addr_parse k (cc_addr_bytes k a) = Inr a)"

lemma circuit_lawD:
  assumes "circuit_law k"
  shows "varint_law (cc_enc k) (cc_dec k)" "message_law (cc_wr_hop k) (cc_parse_hop k)"
    "message_law (cc_wr_stop k) (cc_parse_stop k)" "message_law (cc_wr_punch k) (cc_parse_punch k)"
    "cc_addr_parse k (cc_addr_bytes k a) = Inr a"
  using assms by (simp_all add: circuit_law_def)

lemma parse_addrs_bytes: "circuit_law k \<Longrightarrow> parse_addrs k (map (cc_addr_bytes k) xs) = Inr xs"
  by (induction xs) (auto simp: parse_addrs_def circuit_law_def)

lemma xstack_send_frame:
  "wr m = Inr buf \<Longrightarrow> st_room s = None \<Longrightarrow>
     xstack_send enc wr m s = (Inr (), s\<lparr>st_out := st_out s @ enc (length buf) @ buf\<rparr>)"
  by (simp add: xstack_send_def act_bind_def write_all_def)

lemma xs_act_simp [simp]: "xs_act m s = (map_err XStackError (fst (m s)), snd (m s))"
  by (simp add: xs_act_def act_map_err_def)

lemma xstack_call_frame:
  assumes "varint_law enc dec" and "message_law wr parse" and "wr m = Inr req" and "st_room s = None"
    and "wr resp = Inr buf" and "length buf \<le> n" and "st_in s = enc (length buf) @ buf @ rest"
  shows "xstack_call enc dec wr parse m n s = (Inr resp, s\<lparr>st_out := st_out s @ enc (length req) @ req, st_in := rest\<rparr>)"
  using xstack_send_frame [where wr = wr and m = m and enc = enc, OF assms(3,4)]
    xstack_recv_frame [OF assms(1,2,5,6), of "s\<lparr>st_out := st_out s @ enc (length req) @ req\<rparr>" rest] assms(7)
  by (simp add: xstack_call_eq act_bind_def)

lemma xstack_call_sends:
  assumes "wr m = Inr req" and "st_room s = None"
  shows "st_out (snd (xstack_call enc dec wr parse m n s)) = st_out s @ enc (length req) @ req"
proof -
  have "st_out (snd (xstack_recv dec parse n s')) = st_out s'" for s'
    by (simp add: xstack_recv_def act_bind_def read_usize_def read_exact_def split: sum.split)
  then show ?thesis
    by (simp add: xstack_call_eq act_bind_def xstack_send_frame [where wr = wr and m = m, OF assms])
qed

text \<open>A reservation at a relay. When the relay's answer is a status message with status OK and a
  reservation whose addresses decode, the caller gets its expiry, its addresses and the limit of
  the message; an expiry that no instant can hold, 2^63 seconds or more, makes the caller panic
  whatever the rest of the reservation is; every other answer is an error and no reservation.\<close>

theorem reserve_outcome:
  assumes "circuit_law k" and "st_room s = None"
    and "cc_wr_hop k (hop_new\<lparr>hm_type := Some HopReserve\<rparr>) = Inr req"
    and "cc_wr_hop k m = Inr buf" and "length buf \<le> n" and "st_in s = cc_enc k (length buf) @ buf @ rest"
  shows "(fst (circuit_v2_hop_reserve k n s) = None \<longleftrightarrow>
      hm_type m = Some HopStatus \<and> hm_status m = Some StOK \<and>
      (\<exists>r e. hm_reservation m = Some r \<and> rf_expire r = Some e \<and> 2 ^ 63 \<le> unat e)) \<and>
    (\<forall>got. fst (circuit_v2_hop_reserve k n s) = Some (Inr got) \<longleftrightarrow>
      hm_type m = Some HopStatus \<and> hm_status m = Some StOK \<and>
      (\<exists>r e. hm_reservation m = Some r \<and> rf_expire r = Some e \<and> unat e < 2 ^ 63 \<and> rs_expire got = unat e \<and>
         parse_addrs k (rf_addrs r) = Inr (rs_addrs got) \<and> rs_limit got = map_option limit_of_proto (hm_limit m)))"
proof -
  note call = xstack_call_frame [OF circuit_lawD(1,2) [OF assms(1)] assms(3,2,4-6)]
  have eq: "fst (circuit_v2_hop_reserve k n s) = reservation_of k m"
    by (simp add: circuit_v2_hop_reserve_def hop_call_def call)
  have rec: "(got = \<lparr>rs_expire = e, rs_addrs = a, rs_limit = l\<rparr>) \<longleftrightarrow> rs_expire got = e \<and> rs_addrs got = a \<and> rs_limit got = l"
    for got :: reservation and e a l by (cases got) auto
  have rec': "(\<lparr>rs_expire = e, rs_addrs = a, rs_limit = l\<rparr> = got) \<longleftrightarrow> rs_expire got = e \<and> rs_addrs got = a \<and> rs_limit got = l"
    for got :: reservation and e a l by (cases got) auto
  show ?thesis
  proof (cases "hm_type m = Some HopStatus \<and> hm_status m = Some StOK")
    case False
    then show ?thesis unfolding eq by (auto simp: reservation_of_def check_status_def split: option.split)
  next
    case True
    show ?thesis
    proof (cases "hm_reservation m")
      case None
      with True show ?thesis unfolding eq by (simp add: reservation_of_def check_status_def)
    next
      case (Some r)
      with True have of_r: "reservation_of k m =
          (case rf_expire r of None \<Rightarrow> Some (Inl ReservationExpire)
           | Some value \<Rightarrow> Option.bind (time_add value) (\<lambda>expire. Some (and_then (parse_addrs k (rf_addrs r)) (\<lambda>addrs.
               Inr \<lparr>rs_expire = expire, rs_addrs = addrs, rs_limit = map_option limit_of_proto (hm_limit m)\<rparr>))))"
        by (simp add: reservation_of_def check_status_def)
      show ?thesis
        using True Some unfolding eq of_r
        by (cases "rf_expire r"; cases "parse_addrs k (rf_addrs r)")
          (auto simp: time_add_def rec rec')
    qed
  qed
qed

text \<open>A codec that keeps the law, whose protobuf encodes the listed messages.\<close>

definition sample_codec :: "hop_message list \<Rightarrow> stop_message list \<Rightarrow> hole_punch list \<Rightarrow> circuit_codec" where
  "sample_codec hs ss ps =
     \<lparr>cc_enc = leb, cc_dec = unleb, cc_wr_hop = list_wr hs, cc_parse_hop = list_parse hs,
      cc_wr_stop = list_wr ss, cc_parse_stop = list_parse ss, cc_wr_punch = list_wr ps, cc_parse_punch = list_parse ps,
      cc_id_bytes = some_id_bytes, cc_addr_bytes = some_addr_bytes, cc_addr_parse = some_addr_parse,
      cc_show_status = (\<lambda>_. ''status'')\<rparr>"

lemma sample_codec_law: "circuit_law (sample_codec hs ss ps)"
  by (simp add: circuit_law_def sample_codec_def varint_law_leb)

definition far_reservation :: hop_message where
  "far_reservation = hop_new\<lparr>hm_type := Some HopStatus, hm_status := Some StOK,
     hm_reservation := Some \<lparr>rf_expire = Some (2 ^ 63), rf_addrs = [], rf_voucher = None\<rparr>\<rparr>"

theorem reserve_outcome_witness:
  "fst (circuit_v2_hop_reserve (sample_codec [hop_new\<lparr>hm_type := Some HopReserve\<rparr>, far_reservation] [] []) 100
     (quiet\<lparr>st_in := [1, 0]\<rparr>)) = None"
proof -
  let ?k = "sample_codec [hop_new\<lparr>hm_type := Some HopReserve\<rparr>, far_reservation] [] []"
  have ne: "hop_new\<lparr>hm_type := Some HopReserve\<rparr> \<noteq> far_reservation"
    by (simp add: far_reservation_def hop_new_def)
  have wr: "cc_wr_hop ?k (hop_new\<lparr>hm_type := Some HopReserve\<rparr>) = Inr []" "cc_wr_hop ?k far_reservation = Inr [0]"
    using ne by (simp_all add: sample_codec_def list_wr_def)
  have io: "st_in (quiet\<lparr>st_in := [1, 0]\<rparr>) = cc_enc ?k (length ([0] :: bytes)) @ [0] @ []"
    by (simp add: sample_codec_def leb.simps)
  have room: "st_room (quiet\<lparr>st_in := [1, 0]\<rparr>) = None" by (simp add: quiet_def)
  from conjunct1 [OF reserve_outcome [OF sample_codec_law room wr _ io, of 100]] show ?thesis
    by (simp add: far_reservation_def hop_new_def)
qed

section \<open>The stop protocol and hole punching, both sides\<close>

definition stop_request :: "circuit_codec \<Rightarrow> peer_id \<Rightarrow> stop_message" where
  "stop_request k peer = stop_new\<lparr>sm_type := Some StopConnect, sm_peer := Some \<lparr>pf_id = Some (cc_id_bytes k peer), pf_addrs = []\<rparr>\<rparr>"

definition stop_accepted :: stop_message where
  "stop_accepted = stop_new\<lparr>sm_type := Some StopStatus, sm_status := Some StOK\<rparr>"

lemma stop_connect_sends:
  "cc_wr_stop k (stop_request k peer) = Inr req \<Longrightarrow> st_room s = None \<Longrightarrow>
     st_out (snd (circuit_v2_stop_connect k peer n s)) = st_out s @ cc_enc k (length req) @ req"
  by (auto simp: circuit_v2_stop_connect_def stop_request_def [symmetric] act_bind_def stop_call_def xstack_call_sends
      split: sum.split prod.split)

lemma stop_accept_frame:
  assumes "circuit_law k" and "cc_wr_stop k m = Inr req" and "length req \<le> n" and "sm_type m = Some StopConnect"
    and "cc_wr_stop k stop_accepted = Inr rep" and "st_room s = None" and "st_in s = cc_enc k (length req) @ req @ rest"
  shows "circuit_v2_stop_connect_accept k n s =
    (Inr (map_option limit_of_proto (sm_limit m)), s\<lparr>st_in := rest, st_out := st_out s @ cc_enc k (length rep) @ rep\<rparr>)"
  using assms(4) xstack_recv_frame [OF circuit_lawD(1,3) [OF assms(1)] assms(2,3,7)]
    xstack_send_frame [where wr = "cc_wr_stop k" and m = stop_accepted and enc = "cc_enc k" and s = "s\<lparr>st_in := rest\<rparr>", OF assms(5)] assms(6)
  by (simp add: circuit_v2_stop_connect_accept_def stop_accepted_def act_bind_def)

text \<open>The stop protocol, both sides. When a relay calls \<open>circuit_v2_stop_connect\<close> and the node answers
  with \<open>circuit_v2_stop_connect_accept\<close>, each reading what the other writes, both succeed, and the node
  has learned no limit, because the relay's call sends none.\<close>

theorem stop_session:
  assumes "circuit_law k"
    and "cc_wr_stop k (stop_request k peer) = Inr req" and "length req \<le> n"
    and "cc_wr_stop k stop_accepted = Inr rep" and "length rep \<le> n"
    and "st_room relay = None" and "st_room node = None"
    and "st_in node = drop (length (st_out relay)) (st_out (snd (circuit_v2_stop_connect k peer n relay))) @ more1"
    and "st_in relay = drop (length (st_out node)) (st_out (snd (circuit_v2_stop_connect_accept k n node))) @ more2"
  shows "fst (circuit_v2_stop_connect k peer n relay) = Inr () \<and> fst (circuit_v2_stop_connect_accept k n node) = Inr None"
proof -
  have node: "st_in node = cc_enc k (length req) @ req @ more1"
    using assms(8) by (simp add: stop_connect_sends [OF assms(2,6)])
  have "sm_type (stop_request k peer) = Some StopConnect" by (simp add: stop_request_def)
  note accept = stop_accept_frame [OF assms(1-3) this assms(4,7) node]
  have relay: "st_in relay = cc_enc k (length rep) @ rep @ more2" using assms(9) by (simp add: accept)
  have "fst (circuit_v2_stop_connect k peer n relay) = Inr ()"
    using xstack_call_frame [OF circuit_lawD(1,3) [OF assms(1)] assms(2,6,4,5) relay]
    by (simp add: circuit_v2_stop_connect_def stop_request_def [symmetric] act_bind_def stop_call_def)
      (simp add: stop_accepted_def check_status_def)
  moreover have "sm_limit (stop_request k peer) = None" by (simp add: stop_request_def stop_new_def)
  ultimately show ?thesis by (simp add: accept)
qed

theorem stop_session_witness:
  "fst (circuit_v2_stop_connect (sample_codec [] [stop_accepted, stop_request (sample_codec [] [] []) (PeerId 2)] []) (PeerId 2) 9
     (quiet\<lparr>st_in := [0]\<rparr>)) = Inr ()"
proof -
  let ?r = "stop_request (sample_codec [] [] []) (PeerId 2)"
  let ?k = "sample_codec [] [stop_accepted, ?r] []"
  let ?relay = "quiet\<lparr>st_in := [0]\<rparr>" and ?node = "quiet\<lparr>st_in := [1, 0]\<rparr>"
  have req: "stop_request ?k (PeerId 2) = ?r" by (simp add: stop_request_def sample_codec_def)
  have ne: "stop_accepted \<noteq> ?r" by (simp add: stop_accepted_def stop_request_def stop_new_def)
  have wr: "cc_wr_stop ?k (stop_request ?k (PeerId 2)) = Inr [0]" "cc_wr_stop ?k stop_accepted = Inr []"
    unfolding req using ne by (simp_all add: sample_codec_def list_wr_def)
  have enc: "cc_enc ?k 0 = [0]" "cc_enc ?k (Suc 0) = [1]" by (simp_all add: sample_codec_def leb.simps)
  have room: "st_room ?relay = None" "st_room ?node = None" by (simp_all add: quiet_def)
  have out: "st_out ?relay = []" "st_out ?node = []" by (simp_all add: quiet_def)
  have n: "st_in ?node = drop (length (st_out ?relay)) (st_out (snd (circuit_v2_stop_connect ?k (PeerId 2) 9 ?relay))) @ []"
    by (simp add: stop_connect_sends [OF wr(1) room(1)] enc out)
  have node: "st_in ?node = cc_enc ?k (length ([0] :: bytes)) @ [0] @ []" by (simp add: enc)
  have t: "sm_type ?r = Some StopConnect" by (simp add: stop_request_def)
  have r: "st_in ?relay = drop (length (st_out ?node)) (st_out (snd (circuit_v2_stop_connect_accept ?k 9 ?node))) @ []"
    using stop_accept_frame [OF sample_codec_law wr(1) _ _ wr(2) room(2) node, of 9] t req
    by (simp add: enc out)
  show ?thesis
    using stop_session [OF sample_codec_law wr(1) _ wr(2) _ room n r] by simp
qed

text \<open>DCUtR. What one side sends with \<open>dcutr_send_connect\<close> and then \<open>dcutr_send_sync\<close>, the other receives:
  exactly the addresses, in order, then the sync. Received out of turn, either message is the error
  of the one that was expected.\<close>

theorem dcutr_roundtrip:
  assumes "circuit_law k"
    and "cc_wr_punch k (punch_new\<lparr>hp_type := Some PunchConnect, hp_obs_addrs := map (cc_addr_bytes k) addrs\<rparr>) = Inr c" and "length c \<le> n"
    and "cc_wr_punch k (punch_new\<lparr>hp_type := Some PunchSync\<rparr>) = Inr y" and "length y \<le> n"
    and "act_bind (dcutr_send_connect k addrs) (\<lambda>_. dcutr_send_sync k) out = (r, out')" and "st_room out = None"
    and "st_in io = drop (length (st_out out)) (st_out out') @ rest"
  shows "r = Inr () \<and>
    (\<exists>io'. dcutr_recv_connect k n io = (Inr addrs, io') \<and> dcutr_recv_sync k n io' = (Inr (), io'\<lparr>st_in := rest\<rparr>) \<and>
       fst (dcutr_recv_sync k n io) = Inl DCUtRSync \<and> fst (dcutr_recv_connect k n io') = Inl DCUtRConnect)"
proof -
  let ?conn = "punch_new\<lparr>hp_type := Some PunchConnect, hp_obs_addrs := map (cc_addr_bytes k) addrs\<rparr>"
  let ?sync = "punch_new\<lparr>hp_type := Some PunchSync\<rparr>"
  let ?o = "out\<lparr>st_out := st_out out @ cc_enc k (length c) @ c\<rparr>"
  have o: "r = Inr ()" "st_out out' = st_out out @ cc_enc k (length c) @ c @ cc_enc k (length y) @ y"
    using assms(6,7) xstack_send_frame [where wr = "cc_wr_punch k" and m = ?conn and enc = "cc_enc k", OF assms(2,7)]
      xstack_send_frame [where wr = "cc_wr_punch k" and m = ?sync and enc = "cc_enc k" and s = ?o, OF assms(4)]
    by (auto simp: dcutr_send_connect_def dcutr_send_sync_def act_bind_def)
  then have "st_in io = cc_enc k (length c) @ c @ (cc_enc k (length y) @ y @ rest)" using assms(8) by simp
  note rc = xstack_recv_frame [OF circuit_lawD(1,4) [OF assms(1)] assms(2,3) this]
  let ?io = "io\<lparr>st_in := cc_enc k (length y) @ y @ rest\<rparr>"
  have "st_in ?io = cc_enc k (length y) @ y @ rest" by simp
  note rs = xstack_recv_frame [OF circuit_lawD(1,4) [OF assms(1)] assms(4,5) this]
  have "dcutr_recv_connect k n io = (Inr addrs, ?io)"
    by (simp add: dcutr_recv_connect_def act_bind_def rc parse_addrs_bytes [OF assms(1)])
  moreover have "dcutr_recv_sync k n ?io = (Inr (), ?io\<lparr>st_in := rest\<rparr>)" "fst (dcutr_recv_connect k n ?io) = Inl DCUtRConnect"
    by (simp_all add: dcutr_recv_sync_def dcutr_recv_connect_def act_bind_def rs)
  moreover have "fst (dcutr_recv_sync k n io) = Inl DCUtRSync"
    by (simp add: dcutr_recv_sync_def act_bind_def rc)
  ultimately show ?thesis using o(1) by blast
qed

theorem dcutr_roundtrip_witness:
  "fst (dcutr_recv_connect (sample_codec [] [] [punch_new\<lparr>hp_type := Some PunchSync\<rparr>,
     punch_new\<lparr>hp_type := Some PunchConnect, hp_obs_addrs := []\<rparr>]) 9 (quiet\<lparr>st_in := [1, 0, 0]\<rparr>)) = Inr []"
proof -
  let ?s = "punch_new\<lparr>hp_type := Some PunchSync\<rparr>" and ?c = "punch_new\<lparr>hp_type := Some PunchConnect, hp_obs_addrs := []\<rparr>"
  let ?k = "sample_codec [] [] [?s, ?c]"
  have wr: "cc_wr_punch ?k (punch_new\<lparr>hp_type := Some PunchConnect, hp_obs_addrs := map (cc_addr_bytes ?k) []\<rparr>) = Inr [0]"
    "cc_wr_punch ?k ?s = Inr []"
    by (simp_all add: sample_codec_def list_wr_def punch_new_def)
  have out: "act_bind (dcutr_send_connect ?k []) (\<lambda>_. dcutr_send_sync ?k) quiet = (Inr (), quiet\<lparr>st_out := [1, 0, 0]\<rparr>)"
    using wr by (simp add: dcutr_send_connect_def dcutr_send_sync_def act_bind_def xstack_send_def write_all_def quiet_def)
      (simp add: sample_codec_def leb.simps)
  have room: "st_room quiet = None" by (simp add: quiet_def)
  have io: "st_in (quiet\<lparr>st_in := [1, 0, 0]\<rparr>) = drop (length (st_out quiet)) (st_out (quiet\<lparr>st_out := [1, 0, 0]\<rparr>)) @ []"
    by (simp add: quiet_def)
  show ?thesis
    using dcutr_roundtrip [OF sample_codec_law wr(1) _ wr(2) _ out room io, of 9] by auto
qed

end
