(* ===== verification/X509.thy ===== *)
theory X509
  imports Net_Types
begin

text \<open>
  \<open>x509/src/lib.rs\<close>: the certificates that carry a libp2p host key. \<open>generate\<close> makes a self-signed
  certificate whose extension binds the certificate's key to the host key; \<open>verify\<close> parses a received
  one, checks its time, its self-signature and its extensions, and returns the host key. Also the
  in-memory key store (\<open>xstack/src/keystore.rs\<close>).

  ASN.1, the signature algorithms and the host keys are other packages: they are the fields of an
  \<open>x509_env\<close>. Times are counted in nanoseconds. An error keeps the constant part of its message.
\<close>

section \<open>Errors and object identifiers\<close>

datatype x509_error =
    X509Io io_error
  | SpkiError string
  | X509BuilderError string
  | DerError string
  | Libp2pCert string
  | Pkcs1Error string
  | Pkcs8Error string
  | EllipticCurve string
  | EcdsaSig string
  | DecodingErr string

text \<open>\<open>display\<close> is the text of an error that \<open>io::Error::new(Other, err)\<close> wraps.\<close>

fun x509_error_to_io :: "(x509_error \<Rightarrow> string) \<Rightarrow> x509_error \<Rightarrow> io_error" where
  "x509_error_to_io display (X509Io err) = err"
| "x509_error_to_io display err = OsError (display err)"

type_synonym oid = "nat list"

definition P2P_OID :: oid where "P2P_OID = [1, 3, 6, 1, 4, 1, 53594, 1, 1]"

text \<open>\<open>const_oid::db::rfc5912\<close>.\<close>

definition ECDSA_WITH_SHA_256 :: oid where "ECDSA_WITH_SHA_256 = [1, 2, 840, 10045, 4, 3, 2]"
definition ECDSA_WITH_SHA_384 :: oid where "ECDSA_WITH_SHA_384 = [1, 2, 840, 10045, 4, 3, 3]"
definition ECDSA_WITH_SHA_512 :: oid where "ECDSA_WITH_SHA_512 = [1, 2, 840, 10045, 4, 3, 4]"
definition ID_RSASSA_PSS :: oid where "ID_RSASSA_PSS = [1, 2, 840, 113549, 1, 1, 10]"
definition SHA_256_WITH_RSA :: oid where "SHA_256_WITH_RSA = [1, 2, 840, 113549, 1, 1, 11]"
definition SHA_384_WITH_RSA :: oid where "SHA_384_WITH_RSA = [1, 2, 840, 113549, 1, 1, 12]"
definition SHA_512_WITH_RSA :: oid where "SHA_512_WITH_RSA = [1, 2, 840, 113549, 1, 1, 13]"
definition ID_SHA_256 :: oid where "ID_SHA_256 = [2, 16, 840, 1, 101, 3, 4, 2, 1]"
definition ID_SHA_384 :: oid where "ID_SHA_384 = [2, 16, 840, 1, 101, 3, 4, 2, 2]"
definition ID_SHA_512 :: oid where "ID_SHA_512 = [2, 16, 840, 1, 101, 3, 4, 2, 3]"

lemmas oid_defs =
  ECDSA_WITH_SHA_256_def ECDSA_WITH_SHA_384_def ECDSA_WITH_SHA_512_def ID_RSASSA_PSS_def
  SHA_256_WITH_RSA_def SHA_384_WITH_RSA_def SHA_512_WITH_RSA_def ID_SHA_256_def ID_SHA_384_def ID_SHA_512_def

section \<open>Certificates\<close>

text \<open>\<open>ASCII\<close> bytes of the signing prefix.\<close>

definition P2P_SIGNING_PREFIX :: bytes where
  "P2P_SIGNING_PREFIX = map (\<lambda>c. of_nat (of_char c)) ''libp2p-tls-handshake:''"

record libp2p_extension =
  le_public_key :: bytes
  le_signature :: bytes

record cert_extension =
  ce_id :: oid
  ce_critical :: bool
  ce_value :: bytes

record certificate =
  ct_sig_alg :: oid
  ct_sig_params :: "bytes option"
  ct_signature :: "bytes option"
  ct_spki :: nat
  ct_not_before :: nat
  ct_not_after :: nat
  ct_extensions :: "cert_extension list option"

text \<open>
  A signature scheme: decoding the key from the DER of the public key info, decoding the signature, and
  the check of a message. \<open>x5_pkcs1\<close> and \<open>x5_pss\<close> are the RSA schemes over a hash (its identifier),
  \<open>x5_ecdsa\<close> the curves P-256, P-384 and P-521 by their size.
\<close>

record sig_scheme =
  ss_key :: "bytes \<Rightarrow> x509_error + nat"
  ss_sig :: "bytes \<Rightarrow> x509_error + nat"
  ss_verify :: "nat \<Rightarrow> bytes \<Rightarrow> nat \<Rightarrow> x509_error + unit"

record x509_env =
  x5_cert_of_der :: "bytes \<Rightarrow> string + certificate"
  x5_cert_to_der :: "certificate \<Rightarrow> string + bytes"
  x5_tbs_der :: "certificate \<Rightarrow> string + bytes"
  x5_spki_der :: "nat \<Rightarrow> string + bytes"
  x5_ext_of_der :: "bytes \<Rightarrow> string + libp2p_extension"
  x5_ext_to_der :: "libp2p_extension \<Rightarrow> string + bytes"
  x5_octets :: "bytes \<Rightarrow> string + bytes"
  x5_pss_params :: "bytes \<Rightarrow> string + oid"
  x5_pkcs1 :: "oid \<Rightarrow> sig_scheme"
  x5_pss :: "oid \<Rightarrow> sig_scheme"
  x5_ecdsa :: "nat \<Rightarrow> sig_scheme"
  x5_key_bytes :: "public_key \<Rightarrow> bytes"
  x5_key_parse :: "bytes \<Rightarrow> string + public_key"
  x5_key_verify :: "public_key \<Rightarrow> bytes \<Rightarrow> bytes \<Rightarrow> bool"
  x5_trunc :: "nat \<Rightarrow> nat"
  x5_build :: "nat \<Rightarrow> nat \<Rightarrow> nat \<Rightarrow> cert_extension list \<Rightarrow> string + certificate"
  x5_sec1_der :: "nat \<Rightarrow> string + bytes"

section \<open>Key stores\<close>

record keystore =
  ks_public_key :: "io_error + public_key"
  ks_sign :: "bytes \<Rightarrow> io_error + bytes"

text \<open>\<open>MemoryKeyStore\<close> of a key pair, given by its public key and its signing function.\<close>

definition memory_keystore :: "public_key \<Rightarrow> (bytes \<Rightarrow> string + bytes) \<Rightarrow> keystore" where
  "memory_keystore public sign =
     \<lparr>ks_public_key = Inr public, ks_sign = (\<lambda>data. map_err OsError (sign data))\<rparr>"

section \<open>The libp2p extension\<close>

definition extension_new :: "x509_env \<Rightarrow> keystore \<Rightarrow> bytes \<Rightarrow> x509_error + libp2p_extension" where
  "extension_new v keypair cert_pub_key =
     and_then (map_err X509Io (ks_sign keypair (P2P_SIGNING_PREFIX @ cert_pub_key))) (\<lambda>signature.
     and_then (map_err X509Io (ks_public_key keypair)) (\<lambda>key.
     and_then (map_err DerError (x5_octets v (x5_key_bytes v key))) (\<lambda>public_key.
     and_then (map_err DerError (x5_octets v signature)) (\<lambda>signature.
     Inr \<lparr>le_public_key = public_key, le_signature = signature\<rparr>))))"

definition extension_verify :: "x509_env \<Rightarrow> libp2p_extension \<Rightarrow> bytes \<Rightarrow> x509_error + public_key" where
  "extension_verify v e cert_pub_key =
     and_then (map_err DecodingErr (x5_key_parse v (le_public_key e))) (\<lambda>pub_key.
       if \<not> x5_key_verify v pub_key (P2P_SIGNING_PREFIX @ cert_pub_key) (le_signature e)
       then Inl (Libp2pCert ''Verify libp2p public key extension failed.'')
       else Inr pub_key)"

section \<open>Generating a certificate\<close>

text \<open>
  \<open>signer\<close> is the random key of the certificate, \<open>now\<close> the clock. \<open>from_now\<close> keeps the granularity
  of certificate times (\<open>x5_trunc\<close>). With the manual profile the builder adds no extension of its own.
\<close>

definition five_seconds :: nat where
  "five_seconds = 5 * 10 ^ 9"

definition generate :: "x509_env \<Rightarrow> nat \<Rightarrow> nat \<Rightarrow> keystore \<Rightarrow> x509_error + bytes \<times> bytes" where
  "generate v signer now keypair =
     and_then (map_err DerError (x5_sec1_der v signer)) (\<lambda>cert_keypair.
     let not_before = x5_trunc v now; not_after = x5_trunc v (now + five_seconds) in
     and_then (map_err SpkiError (x5_spki_der v signer)) (\<lambda>spki.
     and_then (extension_new v keypair spki) (\<lambda>ext.
     and_then (map_err DerError (x5_ext_to_der v ext)) (\<lambda>ext_der.
     and_then (map_err X509BuilderError (x5_build v signer not_before not_after
       [\<lparr>ce_id = P2P_OID, ce_critical = True, ce_value = ext_der\<rparr>])) (\<lambda>cert.
     and_then (map_err DerError (x5_cert_to_der v cert)) (\<lambda>der.
     Inr (der, cert_keypair)))))))"

section \<open>Verifying a certificate\<close>

text \<open>The steps that the five signature functions share.\<close>

definition verify_with :: "x509_env \<Rightarrow> sig_scheme \<Rightarrow> certificate \<Rightarrow> x509_error + unit" where
  "verify_with v sch cert =
     and_then (map_err DerError (x5_tbs_der v cert)) (\<lambda>input.
     and_then (map_err DerError (x5_spki_der v (ct_spki cert))) (\<lambda>pub_key.
     and_then (ss_key sch pub_key) (\<lambda>verify_key.
     and_then (ss_sig sch (case ct_signature cert of Some b \<Rightarrow> b | None \<Rightarrow> [])) (\<lambda>signature.
     and_then (ss_verify sch verify_key input signature) (\<lambda>_.
     Inr ())))))"

definition verify_rsa_pkcs1_signature :: "x509_env \<Rightarrow> oid \<Rightarrow> certificate \<Rightarrow> x509_error + unit" where
  "verify_rsa_pkcs1_signature v d = verify_with v (x5_pkcs1 v d)"

definition verify_rsa_pss_signature :: "x509_env \<Rightarrow> oid \<Rightarrow> certificate \<Rightarrow> x509_error + unit" where
  "verify_rsa_pss_signature v d = verify_with v (x5_pss v d)"

definition verify_ecsda_with_sha256_signature :: "x509_env \<Rightarrow> certificate \<Rightarrow> x509_error + unit" where
  "verify_ecsda_with_sha256_signature v = verify_with v (x5_ecdsa v 256)"

definition verify_ecsda_with_sha384_signature :: "x509_env \<Rightarrow> certificate \<Rightarrow> x509_error + unit" where
  "verify_ecsda_with_sha384_signature v = verify_with v (x5_ecdsa v 384)"

definition verify_ecsda_with_sha521_signature :: "x509_env \<Rightarrow> certificate \<Rightarrow> x509_error + unit" where
  "verify_ecsda_with_sha521_signature v = verify_with v (x5_ecdsa v 521)"

definition verify_signature :: "x509_env \<Rightarrow> certificate \<Rightarrow> x509_error + unit" where
  "verify_signature v cert =
     (let alg = ct_sig_alg cert in
      if alg = ECDSA_WITH_SHA_256 then verify_ecsda_with_sha256_signature v cert
      else if alg = ECDSA_WITH_SHA_384 then verify_ecsda_with_sha384_signature v cert
      else if alg = ECDSA_WITH_SHA_512 then verify_ecsda_with_sha521_signature v cert
      else if alg = SHA_256_WITH_RSA then verify_rsa_pkcs1_signature v ID_SHA_256 cert
      else if alg = SHA_384_WITH_RSA then verify_rsa_pkcs1_signature v ID_SHA_384 cert
      else if alg = SHA_512_WITH_RSA then verify_rsa_pkcs1_signature v ID_SHA_512 cert
      else if alg = ID_RSASSA_PSS then
        and_then (ok_or (Libp2pCert ''Invalid signature algorithm parameters'') (ct_sig_params cert)) (\<lambda>raw.
        and_then (map_err DerError (x5_pss_params v raw)) (\<lambda>hash.
          if hash = ID_SHA_256 then verify_rsa_pss_signature v ID_SHA_256 cert
          else if hash = ID_SHA_384 then verify_rsa_pss_signature v ID_SHA_384 cert
          else if hash = ID_SHA_512 then verify_rsa_pss_signature v ID_SHA_512 cert
          else Inl (Libp2pCert ''forbidden signature parameter'')))
      else Inl (Libp2pCert ''forbidden signature''))"

definition validity :: "nat \<Rightarrow> certificate \<Rightarrow> x509_error + unit" where
  "validity now cert =
     (if ct_not_after cert < now \<or> now < ct_not_before cert then Inl (Libp2pCert ''Valid time error'')
      else Inr ())"

fun extension_loop ::
    "x509_env \<Rightarrow> cert_extension list \<Rightarrow> libp2p_extension option \<Rightarrow> x509_error + libp2p_extension option" where
  "extension_loop v [] found = Inr found"
| "extension_loop v (ext # rest) found =
     (if ce_id ext = P2P_OID then
        (if found \<noteq> None then Inl (Libp2pCert ''duplicate libp2p public key extension'')
         else and_then (map_err DerError (x5_ext_of_der v (ce_value ext))) (\<lambda>e. extension_loop v rest (Some e)))
      else if ce_critical ext then Inl (Libp2pCert ''Unknown critical'')
      else extension_loop v rest found)"

definition extract_libp2p_extension :: "x509_env \<Rightarrow> certificate \<Rightarrow> x509_error + libp2p_extension" where
  "extract_libp2p_extension v cert =
     (case ct_extensions cert of
        None \<Rightarrow> Inl (Libp2pCert ''libp2p public key extension not found'')
      | Some extensions \<Rightarrow>
          and_then (extension_loop v extensions None) (\<lambda>found.
          ok_or (Libp2pCert ''libp2p public key extension not found'') found))"

definition verify :: "x509_env \<Rightarrow> nat \<Rightarrow> bytes \<Rightarrow> x509_error + public_key" where
  "verify v now der =
     and_then (map_err DerError (x5_cert_of_der v der)) (\<lambda>cert.
     and_then (validity now cert) (\<lambda>_.
     and_then (verify_signature v cert) (\<lambda>_.
     and_then (extract_libp2p_extension v cert) (\<lambda>extension.
     and_then (map_err DerError (x5_spki_der v (ct_spki cert))) (\<lambda>cert_pub_key.
     extension_verify v extension cert_pub_key)))))"

section \<open>The algorithms that are accepted\<close>

text \<open>The specification of \<open>verify_signature\<close>: a table from algorithms to schemes.\<close>

definition pss_scheme :: "x509_env \<Rightarrow> oid \<Rightarrow> sig_scheme option" where
  "pss_scheme v hash = (if hash \<in> {ID_SHA_256, ID_SHA_384, ID_SHA_512} then Some (x5_pss v hash) else None)"

definition allowed_scheme :: "x509_env \<Rightarrow> certificate \<Rightarrow> sig_scheme option" where
  "allowed_scheme v cert =
     (if ct_sig_alg cert = ID_RSASSA_PSS then
        (case ct_sig_params cert of
           Some raw \<Rightarrow>
             (case x5_pss_params v raw of Inr hash \<Rightarrow> pss_scheme v hash | Inl _ \<Rightarrow> None)
         | None \<Rightarrow> None)
      else map_of
        [(ECDSA_WITH_SHA_256, x5_ecdsa v 256), (ECDSA_WITH_SHA_384, x5_ecdsa v 384), (ECDSA_WITH_SHA_512, x5_ecdsa v 521),
         (SHA_256_WITH_RSA, x5_pkcs1 v ID_SHA_256), (SHA_384_WITH_RSA, x5_pkcs1 v ID_SHA_384),
         (SHA_512_WITH_RSA, x5_pkcs1 v ID_SHA_512)] (ct_sig_alg cert))"

lemmas verify_signature_defs =
  verify_ecsda_with_sha256_signature_def verify_ecsda_with_sha384_signature_def
  verify_ecsda_with_sha521_signature_def verify_rsa_pkcs1_signature_def verify_rsa_pss_signature_def

lemma pss_distinct:
  "ID_RSASSA_PSS \<noteq> ECDSA_WITH_SHA_256" "ID_RSASSA_PSS \<noteq> ECDSA_WITH_SHA_384" "ID_RSASSA_PSS \<noteq> ECDSA_WITH_SHA_512"
  "ID_RSASSA_PSS \<noteq> SHA_256_WITH_RSA" "ID_RSASSA_PSS \<noteq> SHA_384_WITH_RSA" "ID_RSASSA_PSS \<noteq> SHA_512_WITH_RSA"
  by (simp_all add: oid_defs)

lemma verify_pss_allowed:
  "(if hash = ID_SHA_256 then verify_rsa_pss_signature v ID_SHA_256 cert
    else if hash = ID_SHA_384 then verify_rsa_pss_signature v ID_SHA_384 cert
    else if hash = ID_SHA_512 then verify_rsa_pss_signature v ID_SHA_512 cert
    else Inl (Libp2pCert msg)) = Inr () \<longleftrightarrow> (\<exists>sch. pss_scheme v hash = Some sch \<and> verify_with v sch cert = Inr ())"
  by (simp add: pss_scheme_def verify_rsa_pss_signature_def)

lemma verify_signature_allowed:
  "verify_signature v cert = Inr () \<longleftrightarrow> (\<exists>sch. allowed_scheme v cert = Some sch \<and> verify_with v sch cert = Inr ())"
proof (cases "ct_sig_alg cert = ID_RSASSA_PSS")
  case True
  have "verify_signature v cert = Inr () \<longleftrightarrow>
      (\<exists>raw hash. ct_sig_params cert = Some raw \<and> x5_pss_params v raw = Inr hash \<and>
         (\<exists>sch. pss_scheme v hash = Some sch \<and> verify_with v sch cert = Inr ()))"
    unfolding verify_signature_def Let_def True
    by (simp only: pss_distinct if_False if_True refl and_then_Inr_iff ok_or_Inr_iff map_err_Inr_iff verify_pss_allowed)
      blast
  moreover have "allowed_scheme v cert = Some sch \<longleftrightarrow>
      (\<exists>raw hash. ct_sig_params cert = Some raw \<and> x5_pss_params v raw = Inr hash \<and> pss_scheme v hash = Some sch)" for sch
    by (cases "ct_sig_params cert"; cases "x5_pss_params v (the (ct_sig_params cert))")
      (simp_all add: allowed_scheme_def pss_scheme_def True)
  ultimately show ?thesis by blast
next
  case False
  then show ?thesis
    unfolding verify_signature_def allowed_scheme_def verify_signature_defs Let_def by simp
qed

section \<open>The extension\<close>

abbreviation p2p_extensions :: "cert_extension list \<Rightarrow> cert_extension list" where
  "p2p_extensions \<equiv> filter (\<lambda>x. ce_id x = P2P_OID)"

definition no_unknown_critical :: "cert_extension list \<Rightarrow> bool" where
  "no_unknown_critical es = list_all (\<lambda>x. ce_id x = P2P_OID \<or> \<not> ce_critical x) es"

lemma extension_loop_Some:
  "extension_loop v es (Some f) = Inr r \<longleftrightarrow> r = Some f \<and> p2p_extensions es = [] \<and> (\<forall>x\<in>set es. \<not> ce_critical x)"
  by (induction es) auto

lemma extension_loop_None:
  "extension_loop v es None = Inr (Some e) \<longleftrightarrow>
     (\<exists>ext. p2p_extensions es = [ext] \<and> x5_ext_of_der v (ce_value ext) = Inr e) \<and>
     (\<forall>x\<in>set es. ce_critical x \<longrightarrow> ce_id x = P2P_OID)"
proof (induction es)
  case (Cons x es)
  show ?case
  proof (cases "ce_id x = P2P_OID")
    case True
    moreover have "(\<forall>y\<in>set es. ce_critical y \<longrightarrow> ce_id y = P2P_OID) \<longleftrightarrow> (\<forall>y\<in>set es. \<not> ce_critical y)"
      if "p2p_extensions es = []" using that by (auto simp: filter_empty_conv)
    ultimately show ?thesis
      by (auto simp: and_then_Inr_iff map_err_Inr_iff extension_loop_Some)
  next
    case False
    with Cons.IH show ?thesis by auto
  qed
qed simp

text \<open>C34: Verification. A certificate is accepted, with a host key, exactly when it parses, the clock is within
  its validity, its self-signature holds under one of the accepted algorithms, it has exactly one libp2p extension
  and no other critical one, and the host key in the extension decodes and verifies the extension's
  signature over the prefixed public key of the certificate; it is that host key that is returned.\<close>

theorem verify_exact:
  "verify v now der = Inr key \<longleftrightarrow>
     (\<exists>cert sch es ext e spki. x5_cert_of_der v der = Inr cert \<and>
        ct_not_before cert \<le> now \<and> now \<le> ct_not_after cert \<and>
        allowed_scheme v cert = Some sch \<and> verify_with v sch cert = Inr () \<and>
        ct_extensions cert = Some es \<and> p2p_extensions es = [ext] \<and> no_unknown_critical es \<and>
        x5_ext_of_der v (ce_value ext) = Inr e \<and> x5_spki_der v (ct_spki cert) = Inr spki \<and>
        x5_key_parse v (le_public_key e) = Inr key \<and>
        x5_key_verify v key (P2P_SIGNING_PREFIX @ spki) (le_signature e))" (is "_ \<longleftrightarrow> ?rhs")
proof -
  have valid: "validity now cert = Inr () \<longleftrightarrow> ct_not_before cert \<le> now \<and> now \<le> ct_not_after cert" for cert
    by (auto simp: validity_def)
  have extr: "extract_libp2p_extension v cert = Inr e \<longleftrightarrow>
      (\<exists>es ext. ct_extensions cert = Some es \<and> p2p_extensions es = [ext] \<and> x5_ext_of_der v (ce_value ext) = Inr e \<and>
         no_unknown_critical es)" for cert e
    by (auto simp: extract_libp2p_extension_def and_then_Inr_iff ok_or_Inr_iff extension_loop_None no_unknown_critical_def list_all_iff
        split: option.split)
  have host: "extension_verify v e spki = Inr key \<longleftrightarrow>
      x5_key_parse v (le_public_key e) = Inr key \<and> x5_key_verify v key (P2P_SIGNING_PREFIX @ spki) (le_signature e)" for e spki
    by (auto simp: extension_verify_def and_then_Inr_iff map_err_Inr_iff)
  have unit: "(\<exists>u. r = Inr u \<and> Q) \<longleftrightarrow> r = Inr () \<and> Q" for r :: "x509_error + unit" and Q by auto
  show ?thesis
    unfolding verify_def and_then_Inr_iff map_err_Inr_iff unit valid verify_signature_allowed extr host by blast
qed

section \<open>A generated certificate is accepted\<close>

definition x509_law :: "x509_env \<Rightarrow> bool" where
  "x509_law v \<longleftrightarrow> (\<forall>c der. x5_cert_to_der v c = Inr der \<longrightarrow> x5_cert_of_der v der = Inr c) \<and>
     (\<forall>e der. x5_ext_to_der v e = Inr der \<longrightarrow> x5_ext_of_der v der = Inr e) \<and>
     (\<forall>b w. x5_octets v b = Inr w \<longrightarrow> w = b) \<and> (\<forall>key. x5_key_parse v (x5_key_bytes v key) = Inr key) \<and>
     (\<forall>t. x5_trunc v t \<le> t \<and> t < x5_trunc v t + 10 ^ 9) \<and>
     (\<forall>signer nb na es cert. x5_build v signer nb na es = Inr cert \<longrightarrow>
        ct_sig_alg cert = ECDSA_WITH_SHA_256 \<and> ct_spki cert = signer \<and> ct_not_before cert = nb \<and> ct_not_after cert = na \<and>
        ct_extensions cert = Some es \<and> verify_with v (x5_ecdsa v 256) cert = Inr ())"

definition keystore_law :: "x509_env \<Rightarrow> keystore \<Rightarrow> public_key \<Rightarrow> bool" where
  "keystore_law v ks host \<longleftrightarrow> ks_public_key ks = Inr host \<and> (\<forall>m s. ks_sign ks m = Inr s \<longrightarrow> x5_key_verify v host m s)"

lemma generate_cert:
  assumes "x509_law v" and "keystore_law v ks host" and "generate v signer now ks = Inr (der, sk)"
  obtains cert e spki ext_der where "x5_cert_of_der v der = Inr cert" and "x5_spki_der v signer = Inr spki"
    and "x5_ext_of_der v ext_der = Inr e" and "le_public_key e = x5_key_bytes v host"
    and "x5_key_verify v host (P2P_SIGNING_PREFIX @ spki) (le_signature e)"
    and "ct_sig_alg cert = ECDSA_WITH_SHA_256" and "ct_spki cert = signer"
    and "ct_not_before cert = x5_trunc v now" and "ct_not_after cert = x5_trunc v (now + five_seconds)"
    and "ct_extensions cert = Some [\<lparr>ce_id = P2P_OID, ce_critical = True, ce_value = ext_der\<rparr>]"
    and "verify_with v (x5_ecdsa v 256) cert = Inr ()"
proof -
  from assms(3) obtain spki e ext_der cert where
    g: "x5_spki_der v signer = Inr spki" "extension_new v ks spki = Inr e" "x5_ext_to_der v e = Inr ext_der"
      "x5_build v signer (x5_trunc v now) (x5_trunc v (now + five_seconds))
         [\<lparr>ce_id = P2P_OID, ce_critical = True, ce_value = ext_der\<rparr>] = Inr cert" "x5_cert_to_der v cert = Inr der"
    by (auto simp: generate_def and_then_Inr_iff map_err_Inr_iff Let_def)
  from assms(1) have law: "\<And>b w. x5_octets v b = Inr w \<Longrightarrow> w = b"
    "x5_cert_of_der v der = Inr cert" "x5_ext_of_der v ext_der = Inr e"
    using g(3,5) by (simp_all add: x509_law_def)
  have build: "ct_sig_alg cert = ECDSA_WITH_SHA_256 \<and> ct_spki cert = signer \<and> ct_not_before cert = x5_trunc v now \<and>
      ct_not_after cert = x5_trunc v (now + five_seconds) \<and>
      ct_extensions cert = Some [\<lparr>ce_id = P2P_OID, ce_critical = True, ce_value = ext_der\<rparr>] \<and>
      verify_with v (x5_ecdsa v 256) cert = Inr ()"
    using assms(1) g(4) unfolding x509_law_def by blast
  from g(2) assms(2) obtain s o1 o2 where "ks_sign ks (P2P_SIGNING_PREFIX @ spki) = Inr s"
      "x5_octets v (x5_key_bytes v host) = Inr o1" "x5_octets v s = Inr o2" "e = \<lparr>le_public_key = o1, le_signature = o2\<rparr>"
    by (auto simp: extension_new_def and_then_Inr_iff map_err_Inr_iff keystore_law_def)
  then have s: "ks_sign ks (P2P_SIGNING_PREFIX @ spki) = Inr s" "le_signature e = s" "le_public_key e = x5_key_bytes v host"
    using law(1) by fastforce+
  then have "x5_key_verify v host (P2P_SIGNING_PREFIX @ spki) (le_signature e)"
    using assms(2) by (simp add: keystore_law_def)
  with that [OF law(2) g(1) law(3) s(3)] build show ?thesis by blast
qed

lemma generated_scheme: "ct_sig_alg cert = ECDSA_WITH_SHA_256 \<Longrightarrow> allowed_scheme v cert = Some (x5_ecdsa v 256)"
  using pss_distinct(1) by (simp add: allowed_scheme_def)

lemma validity_first: "x5_cert_of_der v der = Inr cert \<Longrightarrow> validity now cert = Inl e \<Longrightarrow> verify v now der = Inl e"
  by (simp add: verify_def)

lemma generated_accepted:
  assumes "x509_law v" and "keystore_law v ks host" and "generate v signer now ks = Inr (der, sk)"
  shows "(now \<le> later \<and> later \<le> now + 4 * 10 ^ 9 \<longrightarrow> verify v later der = Inr host) \<and>
    (now + 5 * 10 ^ 9 < later \<longrightarrow> verify v later der = Inl (Libp2pCert ''Valid time error''))"
proof -
  from generate_cert [OF assms] obtain cert e spki ext_der where
    c: "x5_cert_of_der v der = Inr cert" "x5_spki_der v signer = Inr spki" "x5_ext_of_der v ext_der = Inr e"
      "le_public_key e = x5_key_bytes v host" "x5_key_verify v host (P2P_SIGNING_PREFIX @ spki) (le_signature e)"
      "ct_sig_alg cert = ECDSA_WITH_SHA_256" "ct_spki cert = signer"
      "ct_not_before cert = x5_trunc v now" "ct_not_after cert = x5_trunc v (now + five_seconds)"
      "ct_extensions cert = Some [\<lparr>ce_id = P2P_OID, ce_critical = True, ce_value = ext_der\<rparr>]"
      "verify_with v (x5_ecdsa v 256) cert = Inr ()" .
  have trunc: "x5_trunc v now \<le> now" "x5_trunc v (now + five_seconds) \<le> now + five_seconds"
    "now + five_seconds < x5_trunc v (now + five_seconds) + 10 ^ 9"
    using assms(1) unfolding x509_law_def by blast+
  have five: "five_seconds = 5000000000" by (simp add: five_seconds_def)
  have parse: "x5_key_parse v (x5_key_bytes v host) = Inr host" using assms(1) by (simp add: x509_law_def)
  show ?thesis
  proof (intro conjI impI)
    assume "now \<le> later \<and> later \<le> now + 4 * 10 ^ 9"
    then have "validity later cert = Inr ()" using trunc by (simp add: validity_def c(8,9) five)
    moreover have "verify_signature v cert = Inr ()"
      using generated_scheme [OF c(6)] c(11) verify_signature_allowed by blast
    ultimately show "verify v later der = Inr host"
      using c(1-5,7,10) parse
      by (simp add: verify_def extract_libp2p_extension_def extension_verify_def)
  next
    assume "now + 5 * 10 ^ 9 < later"
    then have "validity later cert = Inl (Libp2pCert ''Valid time error'')"
      using trunc(2) by (simp add: validity_def c(9) five)
    with c(1) show "verify v later der = Inl (Libp2pCert ''Valid time error'')" by (rule validity_first)
  qed
qed

text \<open>Generate, then verify. A certificate that a node generates is accepted by every peer that sees it
  within the next four seconds, and what the peer gets is the node's host key; more than five seconds after
  it was made, every peer rejects it, so that it must be generated anew for every handshake.\<close>

theorem generate_verify:
  assumes "x509_law v" and "keystore_law v ks host" and "generate v signer now ks = Inr (der, sk)"
  shows "(now \<le> later \<and> later \<le> now + 4 * 10 ^ 9 \<longrightarrow> verify v later der = Inr host) \<and>
    (now + 5 * 10 ^ 9 < later \<longrightarrow> verify v later der = Inl (Libp2pCert ''Valid time error''))"
  by (rule generated_accepted [OF assms])

text \<open>An environment that keeps the law: signatures are the signed bytes, one certificate is encoded.\<close>

definition toy_extension :: libp2p_extension where
  "toy_extension = \<lparr>le_public_key = some_key_bytes (PublicKey 3), le_signature = P2P_SIGNING_PREFIX @ [7]\<rparr>"

definition toy_cert :: "nat \<Rightarrow> nat \<Rightarrow> nat \<Rightarrow> cert_extension list \<Rightarrow> certificate" where
  "toy_cert signer nb na es = \<lparr>ct_sig_alg = ECDSA_WITH_SHA_256, ct_sig_params = None, ct_signature = Some [], ct_spki = signer,
     ct_not_before = nb, ct_not_after = na, ct_extensions = Some es\<rparr>"

definition toy_scheme :: sig_scheme where
  "toy_scheme = \<lparr>ss_key = (\<lambda>_. Inr 0), ss_sig = (\<lambda>_. Inr 0), ss_verify = (\<lambda>_ _ _. Inr ())\<rparr>"

definition toy_env :: "certificate \<Rightarrow> x509_env" where
  "toy_env c =
     \<lparr>x5_cert_of_der = (\<lambda>_. Inr c), x5_cert_to_der = (\<lambda>x. if x = c then Inr [1] else Inl ''unknown''),
      x5_tbs_der = (\<lambda>_. Inr []), x5_spki_der = (\<lambda>_. Inr [7]),
      x5_ext_of_der = (\<lambda>_. Inr toy_extension), x5_ext_to_der = (\<lambda>x. if x = toy_extension then Inr [2] else Inl ''unknown''),
      x5_octets = Inr, x5_pss_params = (\<lambda>_. Inl ''none''), x5_pkcs1 = (\<lambda>_. toy_scheme), x5_pss = (\<lambda>_. toy_scheme),
      x5_ecdsa = (\<lambda>_. toy_scheme), x5_key_bytes = some_key_bytes, x5_key_parse = some_key_parse,
      x5_key_verify = (\<lambda>_ m s. m = s), x5_trunc = (\<lambda>t. t div 10 ^ 9 * 10 ^ 9),
      x5_build = (\<lambda>signer nb na es. Inr (toy_cert signer nb na es)), x5_sec1_der = (\<lambda>_. Inr [9])\<rparr>"

lemma toy_env_law: "x509_law (toy_env c)"
proof -
  have "t div 10 ^ 9 * 10 ^ 9 \<le> t \<and> t < t div 10 ^ 9 * 10 ^ 9 + 10 ^ 9" for t :: nat
  proof -
    have "t div 10 ^ 9 * 10 ^ 9 + t mod 10 ^ 9 = t" by (rule div_mult_mod_eq)
    moreover have "t mod 10 ^ 9 < (10 :: nat) ^ 9" by (rule mod_less_divisor) simp
    ultimately show ?thesis by linarith
  qed
  then show ?thesis
    by (simp add: x509_law_def toy_env_def toy_cert_def verify_with_def toy_scheme_def)
qed

definition toy_generated :: certificate where
  "toy_generated = toy_cert 0 0 (5 * 10 ^ 9) [\<lparr>ce_id = P2P_OID, ce_critical = True, ce_value = [2]\<rparr>]"

lemma toy_keystore: "keystore_law (toy_env c) (memory_keystore (PublicKey 3) Inr) (PublicKey 3)"
  by (simp add: keystore_law_def memory_keystore_def toy_env_def)

lemma toy_generate: "generate (toy_env toy_generated) 0 0 (memory_keystore (PublicKey 3) Inr) = Inr ([1], [9])"
proof -
  let ?v = "toy_env toy_generated" and ?ks = "memory_keystore (PublicKey 3) Inr"
  have "extension_new ?v ?ks [7] = Inr toy_extension"
    by (simp add: extension_new_def memory_keystore_def toy_env_def toy_extension_def)
  moreover have "x5_ext_to_der ?v toy_extension = Inr [2]" "x5_spki_der ?v 0 = Inr [7]" "x5_sec1_der ?v 0 = Inr [9]"
    "x5_cert_to_der ?v toy_generated = Inr [1]" "x5_trunc ?v 0 = 0" "x5_trunc ?v five_seconds = 5 * 10 ^ 9"
    "x5_build ?v 0 0 (5 * 10 ^ 9) [\<lparr>ce_id = P2P_OID, ce_critical = True, ce_value = [2]\<rparr>] = Inr toy_generated"
    by (simp_all add: toy_env_def five_seconds_def toy_generated_def)
  ultimately show ?thesis by (simp add: generate_def)
qed

theorem generate_verify_witness:
  "verify (toy_env toy_generated) (3 * 10 ^ 9) [1] = Inr (PublicKey 3) \<and>
   verify (toy_env toy_generated) (6 * 10 ^ 9) [1] = Inl (Libp2pCert ''Valid time error'')"
  using generate_verify [OF toy_env_law toy_keystore toy_generate, of "3 * 10 ^ 9"]
    generate_verify [OF toy_env_law toy_keystore toy_generate, of "6 * 10 ^ 9"] by simp

end
