(* ===== verification/SecureConn.thy ===== *)
theory SecureConn
  imports X509
begin

text \<open>
  The connections that the transports make: \<open>tls/src/lib.rs\<close> (TLS and yamux over any stream),
  \<open>tcp/src/lib.rs\<close> (TLS over TCP) and \<open>quic/src/lib.rs\<close>.

  The TLS library, yamux, multistream-select and QUIC are other packages: what a handshake or a
  negotiation yields is an argument. Of \<open>boring\<close> the code relies on the verify callback: with
  \<open>SslVerifyMode::PEER\<close> a handshake succeeds only when the callback accepted (\<open>handshake_law\<close>). Counters
  are 64-bit atomics whose \<open>fetch_add\<close> and \<open>fetch_sub\<close> wrap.
\<close>

section \<open>The verify callback\<close>

datatype ssl_alert = CERTIFICATE_REQUIRED | BAD_CERTIFICATE | ACCESS_DENIED

text \<open>The certificate that the peer presented: none, one that has no DER form, or its DER form.\<close>

type_synonym peer_cert = "(string + bytes) option"

definition tls_verify_callback :: "x509_env \<Rightarrow> nat \<Rightarrow> peer_cert \<Rightarrow> ssl_alert + unit" where
  "tls_verify_callback v now cert =
     and_then (ok_or CERTIFICATE_REQUIRED cert) (\<lambda>cert.
     and_then (map_err (\<lambda>_. BAD_CERTIFICATE) cert) (\<lambda>der.
     and_then (map_err (\<lambda>_. ACCESS_DENIED) (verify v now der)) (\<lambda>_. Inr ())))"

definition quic_verify_callback :: "x509_env \<Rightarrow> nat \<Rightarrow> peer_cert \<Rightarrow> ssl_alert + unit" where
  "quic_verify_callback v now cert =
     and_then (ok_or CERTIFICATE_REQUIRED cert) (\<lambda>cert.
     and_then (map_err (\<lambda>_. BAD_CERTIFICATE) cert) (\<lambda>der.
     and_then (map_err (\<lambda>_. BAD_CERTIFICATE) (verify v now der)) (\<lambda>_. Inr ())))"

section \<open>TLS connections\<close>

text \<open>A TLS configuration is the certificate it presents, with its private key, and the time at which it was made.\<close>

record tls_config =
  tl_cert :: bytes
  tl_key :: bytes

text \<open>
  What the packages answer in one set-up: the checks of the TLS library on the certificate and key
  (\<open>tn_config\<close>), the two negotiations, and the handshake, which gets the verify callback, the configuration and (as a
  client) the server name, and yields the peer's certificate.
\<close>

record tls_net =
  tn_config :: "bytes \<times> bytes \<Rightarrow> io_error + unit"
  tn_select_tls :: "io_error + unit"
  tn_handshake :: "(peer_cert \<Rightarrow> ssl_alert + unit) \<Rightarrow> tls_config \<Rightarrow> ip_addr option \<Rightarrow> string + peer_cert"
  tn_select_yamux :: "io_error + unit"

definition handshake_law :: "tls_net \<Rightarrow> bool" where
  "handshake_law net \<longleftrightarrow> (\<forall>cb cfg name cert. tn_handshake net cb cfg name = Inr cert \<longrightarrow> cb cert = Inr ())"

record tls_conn =
  tc_id :: string
  tc_public_key :: public_key
  tc_local_addr :: multiaddr
  tc_peer_addr :: multiaddr
  tc_is_relay :: bool

definition tls_p2p_conn :: "(public_key \<Rightarrow> peer_id) \<Rightarrow> tls_conn \<Rightarrow> p2p_conn" where
  "tls_p2p_conn key_peer c =
     \<lparr>conn_id = tc_id c, conn_peer = key_peer (tc_public_key c), conn_peer_addr = tc_peer_addr c,
      conn_local_addr = tc_local_addr c, conn_relay = tc_is_relay c\<rparr>"

text \<open>The state that is changed: the counter of active connections of the transport.\<close>

definition fetch_add :: "64 word \<Rightarrow> 64 word" where "fetch_add n = n + 1"

definition fetch_sub :: "64 word \<Rightarrow> 64 word" where "fetch_sub n = n - 1"

definition tls_conn_new ::
    "string \<Rightarrow> public_key \<Rightarrow> multiaddr \<Rightarrow> multiaddr \<Rightarrow> bool \<Rightarrow> 64 word \<Rightarrow> tls_conn \<times> 64 word" where
  "tls_conn_new uuid public_key local_addr peer_addr is_relay activities =
     (\<lparr>tc_id = uuid, tc_public_key = public_key, tc_local_addr = local_addr, tc_peer_addr = peer_addr,
       tc_is_relay = is_relay\<rparr>, fetch_add activities)"

definition create_ssl_config :: "(x509_error \<Rightarrow> string) \<Rightarrow> x509_env \<Rightarrow> nat \<Rightarrow> nat \<Rightarrow> keystore \<Rightarrow>
    (bytes \<times> bytes \<Rightarrow> io_error + unit) \<Rightarrow> io_error + tls_config" where
  "create_ssl_config display v signer now ks checks =
     and_then (map_err (x509_error_to_io display) (generate v signer now ks)) (\<lambda>(cert, pk).
     and_then (checks (cert, pk)) (\<lambda>_.
     Inr \<lparr>tl_cert = cert, tl_key = pk\<rparr>))"

text \<open>The peer's certificate after the handshake, verified once more for its public key.\<close>

definition peer_public_key :: "(x509_error \<Rightarrow> string) \<Rightarrow> x509_env \<Rightarrow> nat \<Rightarrow> peer_cert \<Rightarrow> io_error + public_key" where
  "peer_public_key display v now cert =
     and_then (ok_or (OsError ''Handshaking'') cert) (\<lambda>cert.
     and_then (map_err OsError cert) (\<lambda>der.
     map_err (x509_error_to_io display) (verify v now der)))"

text \<open>\<open>t1\<close>, \<open>t2\<close>, \<open>t3\<close>: the clock when the certificate is made, in the callback and after the handshake.\<close>

definition tls_connect ::
    "(x509_error \<Rightarrow> string) \<Rightarrow> x509_env \<Rightarrow> keystore \<Rightarrow> nat \<Rightarrow> nat \<times> nat \<times> nat \<Rightarrow> tls_net \<Rightarrow> string \<Rightarrow>
     multiaddr \<Rightarrow> multiaddr \<Rightarrow> bool \<Rightarrow> (64 word, io_error, tls_conn) act" where
  "tls_connect display v ks signer ts net uuid local_addr peer_addr is_relay =
     (case ts of (t1, t2, t3) \<Rightarrow>
     act_bind (act_lift (create_ssl_config display v signer t1 ks (tn_config net))) (\<lambda>config.
     act_bind (act_lift (tn_select_tls net)) (\<lambda>_.
     act_bind (act_lift (map_err error_to_io (to_sockaddr peer_addr))) (\<lambda>(server_name, _).
     act_bind (act_lift (map_err OsError (tn_handshake net (tls_verify_callback v t2) config (Some server_name)))) (\<lambda>cert.
     act_bind (act_lift (peer_public_key display v t3 cert)) (\<lambda>public_key.
     act_bind (act_lift (tn_select_yamux net)) (\<lambda>_ activities.
     case tls_conn_new uuid public_key local_addr peer_addr is_relay activities of
       (conn, activities) \<Rightarrow> (Inr conn, activities))))))))"

definition tls_accept ::
    "(x509_error \<Rightarrow> string) \<Rightarrow> x509_env \<Rightarrow> nat \<times> nat \<Rightarrow> tls_net \<Rightarrow> string \<Rightarrow> tls_config \<Rightarrow>
     multiaddr \<Rightarrow> multiaddr \<Rightarrow> bool \<Rightarrow> (64 word, io_error, tls_conn) act" where
  "tls_accept display v ts net uuid acceptor local_addr peer_addr is_relay =
     (case ts of (t2, t3) \<Rightarrow>
     act_bind (act_lift (tn_select_tls net)) (\<lambda>_.
     act_bind (act_lift (map_err OsError (tn_handshake net (tls_verify_callback v t2) acceptor None))) (\<lambda>cert.
     act_bind (act_lift (peer_public_key display v t3 cert)) (\<lambda>public_key.
     act_bind (act_lift (tn_select_yamux net)) (\<lambda>_ activities.
     case tls_conn_new uuid public_key local_addr peer_addr is_relay activities of
       (conn, activities) \<Rightarrow> (Inr conn, activities))))))"

text \<open>
  \<open>TlsListener::accept\<close>: \<open>incoming\<close> is what \<open>try_next\<close> yields, a stream being given by the remote address
  and what its set-up will answer. The acceptor, with a new certificate, is made for each connection.
\<close>

definition tls_listener_accept ::
    "(x509_error \<Rightarrow> string) \<Rightarrow> x509_env \<Rightarrow> keystore \<Rightarrow> nat \<Rightarrow> nat \<times> nat \<times> nat \<Rightarrow> string \<Rightarrow> multiaddr \<Rightarrow> bool \<Rightarrow>
     io_error + (tls_net \<times> multiaddr) option \<Rightarrow> (64 word, io_error, tls_conn) act" where
  "tls_listener_accept display v ks signer ts uuid local_addr is_relay incoming =
     (case ts of (t1, t2, t3) \<Rightarrow>
     act_bind (act_lift incoming) (\<lambda>next.
     case next of
       None \<Rightarrow> act_err (OsError ''TlsListener closed'')
     | Some (net, raddr) \<Rightarrow>
         act_bind (act_lift (create_ssl_config display v signer t1 ks (tn_config net))) (\<lambda>acceptor.
         tls_accept display v (t2, t3) net uuid acceptor local_addr raddr is_relay)))"

section \<open>TCP\<close>

definition ip_protocol :: "ip_addr \<Rightarrow> protocol" where
  "ip_protocol ip = (case ip of V4 a \<Rightarrow> Ip4 a | V6 a \<Rightarrow> Ip6 a)"

definition tcp_multiaddr :: "sock_addr \<Rightarrow> multiaddr" where
  "tcp_multiaddr a = [ip_protocol (fst a), Tcp (snd a), Tls]"

text \<open>
  \<open>listen\<close> is \<open>TcpListener::bind\<close> with the local address of the listener. The result is the address that
  the \<open>TlsListener\<close> reports.
\<close>

definition tcp_bind :: "(sock_addr \<Rightarrow> io_error + (io_error + sock_addr)) \<Rightarrow> multiaddr \<Rightarrow> io_error + multiaddr" where
  "tcp_bind listen laddr =
     and_then (map_err error_to_io (to_sockaddr laddr)) (\<lambda>a.
     and_then (listen a) (\<lambda>bound.
     and_then bound (\<lambda>local.
     Inr (tcp_multiaddr local))))"

text \<open>The filter on the incoming streams: one whose remote address is gone is skipped.\<close>

fun tcp_incoming :: "(io_error + 's \<times> (io_error + sock_addr)) list \<Rightarrow> (io_error + 's \<times> multiaddr) list" where
  "tcp_incoming [] = []"
| "tcp_incoming (Inl err # rest) = Inl err # tcp_incoming rest"
| "tcp_incoming (Inr (stream, Inr peer_addr) # rest) = Inr (stream, tcp_multiaddr peer_addr) # tcp_incoming rest"
| "tcp_incoming (Inr (stream, Inl _) # rest) = tcp_incoming rest"

text \<open>\<open>dial\<close> is \<open>TcpStream::connect\<close>, with the local address of the stream and what its set-up answers.\<close>

definition tcp_connect ::
    "(x509_error \<Rightarrow> string) \<Rightarrow> x509_env \<Rightarrow> keystore \<Rightarrow> nat \<Rightarrow> nat \<times> nat \<times> nat \<Rightarrow> string \<Rightarrow>
     (sock_addr \<Rightarrow> io_error + tls_net \<times> (io_error + sock_addr)) \<Rightarrow> multiaddr \<Rightarrow> (64 word, io_error, tls_conn) act" where
  "tcp_connect display v ks signer ts uuid dial raddr =
     act_bind (act_lift (map_err error_to_io (to_sockaddr raddr))) (\<lambda>a.
     act_bind (act_lift (dial a)) (\<lambda>(net, local).
     act_bind (act_lift local) (\<lambda>local.
     tls_connect display v ks signer ts net uuid (tcp_multiaddr local) raddr False)))"

section \<open>QUIC\<close>

record quic_config =
  qc_tls :: tls_config
  qc_initial_max_data :: nat
  qc_stream_data_bidi_local :: nat
  qc_stream_data_bidi_remote :: nat
  qc_max_streams_bidi :: nat
  qc_max_streams_uni :: nat
  qc_max_idle_timeout :: "64 word"
  qc_verify_peer :: bool
  qc_application_protos :: "string list"
  qc_disable_active_migration :: bool

text \<open>The timeout is in milliseconds.\<close>

definition create_quic_config ::
    "(x509_error \<Rightarrow> string) \<Rightarrow> x509_env \<Rightarrow> nat \<Rightarrow> nat \<Rightarrow> keystore \<Rightarrow> (bytes \<times> bytes \<Rightarrow> io_error + unit) \<Rightarrow> nat \<Rightarrow> io_error + quic_config" where
  "create_quic_config display v signer now host_key checks timeout =
     and_then (create_ssl_config display v signer now host_key checks) (\<lambda>tls.
     Inr \<lparr>qc_tls = tls, qc_initial_max_data = 10000000, qc_stream_data_bidi_local = 1024 * 1024,
          qc_stream_data_bidi_remote = 1024 * 1024, qc_max_streams_bidi = 100, qc_max_streams_uni = 100,
          qc_max_idle_timeout = of_nat timeout, qc_verify_peer = True, qc_application_protos = [''libp2p''],
          qc_disable_active_migration = False\<rparr>)"

definition quic_default_timeout :: nat where
  "quic_default_timeout = 5000"

definition quic_multiaddr :: "sock_addr \<Rightarrow> multiaddr" where
  "quic_multiaddr a = [ip_protocol (fst a), Udp (snd a), QuicV1]"

record quic_listener =
  ql_config :: quic_config
  ql_laddr :: sock_addr

record quic_conn =
  qp_id :: string
  qp_laddr :: multiaddr
  qp_raddr :: multiaddr
  qp_public_key :: public_key

definition quic_p2p_conn :: "(public_key \<Rightarrow> peer_id) \<Rightarrow> quic_conn \<Rightarrow> p2p_conn" where
  "quic_p2p_conn key_peer c =
     \<lparr>conn_id = qp_id c, conn_peer = key_peer (qp_public_key c), conn_peer_addr = qp_raddr c,
      conn_local_addr = qp_laddr c, conn_relay = False\<rparr>"

definition quic_conn_new :: "string \<Rightarrow> sock_addr \<Rightarrow> sock_addr \<Rightarrow> public_key \<Rightarrow> 64 word \<Rightarrow> quic_conn \<times> 64 word" where
  "quic_conn_new uuid laddr raddr public_key activities =
     (\<lparr>qp_id = uuid, qp_laddr = quic_multiaddr laddr, qp_raddr = quic_multiaddr raddr, qp_public_key = public_key\<rparr>,
      fetch_add activities)"

text \<open>\<open>listen\<close> is \<open>QuicListener::bind\<close> with the first of its local addresses; the \<open>unwrap\<close> of none panics.\<close>

definition quic_bind ::
    "(x509_error \<Rightarrow> string) \<Rightarrow> x509_env \<Rightarrow> nat \<Rightarrow> nat \<Rightarrow> keystore \<Rightarrow> (bytes \<times> bytes \<Rightarrow> io_error + unit) \<Rightarrow> nat \<Rightarrow>
     (sock_addr \<Rightarrow> io_error + sock_addr option) \<Rightarrow> multiaddr \<Rightarrow> (io_error + quic_listener) option" where
  "quic_bind display v signer now ks checks timeout listen laddr =
     (case and_then (create_quic_config display v signer now ks checks timeout) (\<lambda>config.
           and_then (map_err error_to_io (to_sockaddr laddr)) (\<lambda>a.
           and_then (listen a) (\<lambda>bound. Inr (config, bound)))) of
        Inl err \<Rightarrow> Some (Inl err)
      | Inr (_, None) \<Rightarrow> None
      | Inr (config, Some local) \<Rightarrow> Some (Inr \<lparr>ql_config = config, ql_laddr = local\<rparr>))"

definition quic_listener_local_addr :: "quic_listener \<Rightarrow> multiaddr" where
  "quic_listener_local_addr l = quic_multiaddr (ql_laddr l)"

definition quic_laddr_for :: "sock_addr \<Rightarrow> string" where
  "quic_laddr_for raddr = (case fst raddr of V4 _ \<Rightarrow> ''0.0.0.0:0'' | V6 _ \<Rightarrow> ''[::]:0'')"

text \<open>A QUIC connection that the package made: its path, the peer's certificate, and its remote address.\<close>

record raw_quic =
  rq_path :: "(sock_addr \<times> sock_addr) option"
  rq_peer_cert :: "bytes option"
  rq_peer_addr :: "sock_addr \<Rightarrow> sock_addr option"

definition quic_connect ::
    "(x509_error \<Rightarrow> string) \<Rightarrow> x509_env \<Rightarrow> nat \<Rightarrow> nat \<times> nat \<Rightarrow> keystore \<Rightarrow> (bytes \<times> bytes \<Rightarrow> io_error + unit) \<Rightarrow> nat \<Rightarrow>
     string \<Rightarrow> (string \<Rightarrow> sock_addr \<Rightarrow> quic_config \<Rightarrow> io_error + raw_quic) \<Rightarrow> multiaddr \<Rightarrow> (64 word, io_error, quic_conn) act" where
  "quic_connect display v signer ts ks checks timeout uuid dial raddr =
     (case ts of (t1, t2) \<Rightarrow>
     act_bind (act_lift (create_quic_config display v signer t1 ks checks timeout)) (\<lambda>config.
     act_bind (act_lift (map_err error_to_io (to_sockaddr raddr))) (\<lambda>a.
     act_bind (act_lift (dial (quic_laddr_for a) a config)) (\<lambda>conn.
     act_bind (act_lift (ok_or (OsError ''quic: no valid path'') (rq_path conn))) (\<lambda>(laddr, raddr).
     act_bind (act_lift (ok_or (OsError ''quic: peer cert not found'') (rq_peer_cert conn))) (\<lambda>cert.
     act_bind (act_lift (map_err (x509_error_to_io display) (verify v t2 cert))) (\<lambda>public_key activities.
     case quic_conn_new uuid laddr raddr public_key activities of
       (conn, activities) \<Rightarrow> (Inr conn, activities))))))))"

definition quic_accept ::
    "(x509_error \<Rightarrow> string) \<Rightarrow> x509_env \<Rightarrow> nat \<Rightarrow> string \<Rightarrow> io_error + raw_quic \<Rightarrow> quic_listener \<Rightarrow> (64 word, io_error, quic_conn) act" where
  "quic_accept display v now uuid accepted l =
     act_bind (act_lift accepted) (\<lambda>conn.
     act_bind (act_lift (ok_or (OsError ''quic: peer cert not found'') (rq_peer_cert conn))) (\<lambda>cert.
     act_bind (act_lift (map_err (x509_error_to_io display) (verify v now cert))) (\<lambda>public_key.
     act_bind (act_lift (ok_or (OsError ''quic: peer path not found'') (rq_peer_addr conn (ql_laddr l)))) (\<lambda>peer_addr activities.
     case quic_conn_new uuid (ql_laddr l) peer_addr public_key activities of
       (conn, activities) \<Rightarrow> (Inr conn, activities)))))"

section \<open>Counters of connections and streams\<close>

text \<open>
  Every handle of a connection counts as an activity of its transport, and every stream of a connection, shared
  by all its handles, counts for the connection. A handle or stream is given by its connection's id.
\<close>

record conn_counters =
  cn_activities :: "64 word"
  cn_streams :: "string \<Rightarrow> 64 word"

definition tls_handle_new :: "string \<Rightarrow> conn_counters \<Rightarrow> conn_counters" where
  "tls_handle_new c s = s\<lparr>cn_activities := fetch_add (cn_activities s), cn_streams := (cn_streams s)(c := 0)\<rparr>"

definition tls_handle_clone :: "string \<Rightarrow> conn_counters \<Rightarrow> conn_counters" where
  "tls_handle_clone c s = s\<lparr>cn_activities := fetch_add (cn_activities s)\<rparr>"

definition tls_handle_drop :: "string \<Rightarrow> conn_counters \<Rightarrow> conn_counters" where
  "tls_handle_drop c s = s\<lparr>cn_activities := fetch_sub (cn_activities s)\<rparr>"

definition tls_stream_new :: "string \<Rightarrow> conn_counters \<Rightarrow> conn_counters" where
  "tls_stream_new c s = s\<lparr>cn_streams := (cn_streams s)(c := fetch_add (cn_streams s c))\<rparr>"

definition tls_stream_drop :: "string \<Rightarrow> conn_counters \<Rightarrow> conn_counters" where
  "tls_stream_drop c s = s\<lparr>cn_streams := (cn_streams s)(c := fetch_sub (cn_streams s c))\<rparr>"

definition quic_handle_new :: "string \<Rightarrow> conn_counters \<Rightarrow> conn_counters" where
  "quic_handle_new c s = s\<lparr>cn_activities := fetch_add (cn_activities s), cn_streams := (cn_streams s)(c := 0)\<rparr>"

definition quic_handle_clone :: "string \<Rightarrow> conn_counters \<Rightarrow> conn_counters" where
  "quic_handle_clone c s = s\<lparr>cn_activities := fetch_add (cn_activities s)\<rparr>"

definition quic_handle_drop :: "string \<Rightarrow> conn_counters \<Rightarrow> conn_counters" where
  "quic_handle_drop c s = s\<lparr>cn_activities := fetch_sub (cn_activities s)\<rparr>"

definition quic_stream_new :: "string \<Rightarrow> conn_counters \<Rightarrow> conn_counters" where
  "quic_stream_new c s = s\<lparr>cn_streams := (cn_streams s)(c := fetch_add (cn_streams s c))\<rparr>"

definition quic_stream_drop :: "string \<Rightarrow> conn_counters \<Rightarrow> conn_counters" where
  "quic_stream_drop c s = s\<lparr>cn_streams := (cn_streams s)(c := fetch_sub (cn_streams s c))\<rparr>"

text \<open>\<open>activities()\<close> of a transport and \<open>actives()\<close> of a connection.\<close>

definition activities_of :: "conn_counters \<Rightarrow> 64 word" where
  "activities_of s = cn_activities s"

definition actives_of :: "conn_counters \<Rightarrow> string \<Rightarrow> 64 word" where
  "actives_of s c = cn_streams s c"

text \<open>What happens to handles and streams, and the run of a driver over it.\<close>

datatype conn_op = OpNew string | OpClone string | OpDrop string | OpStream string | OpStreamDrop string

fun run_op ::
    "(string \<Rightarrow> 's \<Rightarrow> 's) \<Rightarrow> (string \<Rightarrow> 's \<Rightarrow> 's) \<Rightarrow> (string \<Rightarrow> 's \<Rightarrow> 's) \<Rightarrow> (string \<Rightarrow> 's \<Rightarrow> 's) \<Rightarrow> (string \<Rightarrow> 's \<Rightarrow> 's) \<Rightarrow>
     conn_op \<Rightarrow> 's \<Rightarrow> 's" where
  "run_op new dup del str sdel (OpNew c) s = new c s"
| "run_op new dup del str sdel (OpClone c) s = dup c s"
| "run_op new dup del str sdel (OpDrop c) s = del c s"
| "run_op new dup del str sdel (OpStream c) s = str c s"
| "run_op new dup del str sdel (OpStreamDrop c) s = sdel c s"

text \<open>
  The live handles and streams. Only what the types of Rust allow happens: ids are not reused, only a live handle
  is cloned, dropped or asked for a stream, only a live stream is dropped; otherwise the result is \<open>None\<close>.
\<close>

fun live_op :: "conn_op \<Rightarrow> string list \<times> string list \<Rightarrow> (string list \<times> string list) option" where
  "live_op (OpNew c) (hs, ss) = (if c \<in> set hs \<union> set ss then None else Some (c # hs, ss))"
| "live_op (OpClone c) (hs, ss) = (if c \<in> set hs then Some (c # hs, ss) else None)"
| "live_op (OpDrop c) (hs, ss) = (if c \<in> set hs then Some (remove1 c hs, ss) else None)"
| "live_op (OpStream c) (hs, ss) = (if c \<in> set hs then Some (hs, c # ss) else None)"
| "live_op (OpStreamDrop c) (hs, ss) = (if c \<in> set ss then Some (hs, remove1 c ss) else None)"

fun live_ops :: "conn_op list \<Rightarrow> string list \<times> string list \<Rightarrow> (string list \<times> string list) option" where
  "live_ops [] l = Some l"
| "live_ops (x # xs) l = Option.bind (live_op x l) (live_ops xs)"

text \<open>The interface of a driver's counters.\<close>

locale conn_driver =
  fixes new :: "string \<Rightarrow> 's \<Rightarrow> 's" and dup :: "string \<Rightarrow> 's \<Rightarrow> 's" and del :: "string \<Rightarrow> 's \<Rightarrow> 's"
    and str :: "string \<Rightarrow> 's \<Rightarrow> 's" and sdel :: "string \<Rightarrow> 's \<Rightarrow> 's"
    and act :: "'s \<Rightarrow> 64 word" and cnt :: "'s \<Rightarrow> string \<Rightarrow> 64 word"
  assumes act_new: "act (new c s) = act s + 1" and act_dup: "act (dup c s) = act s + 1"
    and act_del: "act (del c s) = act s - 1" and act_str: "act (str c s) = act s" and act_sdel: "act (sdel c s) = act s"
    and cnt_new: "cnt (new c s) d = (if d = c then 0 else cnt s d)" and cnt_dup: "cnt (dup c s) d = cnt s d"
    and cnt_del: "cnt (del c s) d = cnt s d"
    and cnt_str: "cnt (str c s) d = (if d = c then cnt s d + 1 else cnt s d)"
    and cnt_sdel: "cnt (sdel c s) d = (if d = c then cnt s d - 1 else cnt s d)"
begin

definition counted :: "string list \<times> string list \<Rightarrow> 's \<Rightarrow> bool" where
  "counted l s \<longleftrightarrow> act s = of_nat (length (fst l)) \<and>
     (\<forall>c\<in>set (fst l) \<union> set (snd l). cnt s c = of_nat (count_list (snd l) c))"

lemma of_nat_remove1: "c \<in> set xs \<Longrightarrow> (of_nat (length (remove1 c xs)) :: 64 word) = of_nat (length xs) - 1"
proof -
  assume c: "c \<in> set xs"
  then obtain n where "length xs = Suc n" by (cases xs) auto
  with c show ?thesis by (simp add: length_remove1)
qed

lemma in_remove1: "d \<in> set (remove1 c xs) \<Longrightarrow> d \<in> set xs"
  using set_remove1_subset by fastforce

lemma count_remove1:
  "count_list (remove1 c xs) d = (if d = c then count_list xs d - 1 else count_list xs d)"
  by (induction xs) auto

lemma count_pos: "c \<in> set xs \<Longrightarrow> \<exists>n. count_list xs c = Suc n"
  by (metis count_list_0_iff not0_implies_Suc)

lemma counted_op:
  assumes "counted l s" and "live_op x l = Some l'"
  shows "counted l' (run_op new dup del str sdel x s)"
proof (cases l)
  case (Pair hs ss)
  show ?thesis
  proof (cases x)
    case (OpNew c)
    with assms Pair show ?thesis
      by (auto simp: counted_def act_new cnt_new split: if_splits)
  next
    case (OpClone c)
    with assms Pair show ?thesis by (auto simp: counted_def act_dup cnt_dup split: if_splits)
  next
    case (OpDrop c)
    with assms(2) Pair have c: "c \<in> set hs" "l' = (remove1 c hs, ss)" by (auto split: if_splits)
    from assms(1) Pair have s: "act s = of_nat (length hs)" "\<And>d. d \<in> set hs \<union> set ss \<Longrightarrow> cnt s d = of_nat (count_list ss d)"
      by (simp_all add: counted_def)
    have "cnt s d = of_nat (count_list ss d)" if "d \<in> set (remove1 c hs) \<union> set ss" for d
      using s(2) [of d] that in_remove1 [of d c hs] by blast
    then show ?thesis using s(1) c OpDrop by (simp add: counted_def act_del cnt_del of_nat_remove1)
  next
    case (OpStream c)
    with assms Pair show ?thesis by (auto simp: counted_def act_str cnt_str split: if_splits)
  next
    case (OpStreamDrop c)
    with assms(2) Pair have c: "c \<in> set ss" "l' = (hs, remove1 c ss)" by (auto split: if_splits)
    from count_pos [OF c(1)] obtain n where "count_list ss c = Suc n" by blast
    with assms(1) c OpStreamDrop Pair show ?thesis
      by (auto simp: counted_def act_sdel cnt_sdel count_remove1 dest: in_remove1)
  qed
qed

lemma counted_run:
  "counted l s \<Longrightarrow> live_ops xs l = Some l' \<Longrightarrow> counted l' (fold (run_op new dup del str sdel) xs s)"
proof (induction xs arbitrary: l s)
  case (Cons x xs)
  then obtain l1 where "live_op x l = Some l1" "live_ops xs l1 = Some l'" by (auto simp: bind_eq_Some_conv)
  from Cons.IH [OF counted_op [OF Cons.prems(1) this(1)] this(2)] show ?case by simp
qed simp

lemma counts_live:
  assumes "act s = 0" and "live_ops xs ([], []) = Some (hs, ss)"
  shows "act (fold (run_op new dup del str sdel) xs s) = of_nat (length hs)"
    and "c \<in> set hs \<union> set ss \<Longrightarrow> cnt (fold (run_op new dup del str sdel) xs s) c = of_nat (count_list ss c)"
proof -
  have "counted ([], []) s" using assms(1) by (simp add: counted_def)
  from counted_run [OF this assms(2)] show "act (fold (run_op new dup del str sdel) xs s) = of_nat (length hs)"
    and "c \<in> set hs \<union> set ss \<Longrightarrow> cnt (fold (run_op new dup del str sdel) xs s) c = of_nat (count_list ss c)"
    by (auto simp: counted_def)
qed

end

lemmas counter_defs = fetch_add_def fetch_sub_def activities_of_def actives_of_def
  tls_handle_new_def tls_handle_clone_def tls_handle_drop_def tls_stream_new_def tls_stream_drop_def
  quic_handle_new_def quic_handle_clone_def quic_handle_drop_def quic_stream_new_def quic_stream_drop_def

interpretation tls: conn_driver tls_handle_new tls_handle_clone tls_handle_drop tls_stream_new tls_stream_drop
    activities_of actives_of
  by unfold_locales (simp_all add: counter_defs)

interpretation quic: conn_driver quic_handle_new quic_handle_clone quic_handle_drop quic_stream_new quic_stream_drop
    activities_of actives_of
  by unfold_locales (simp_all add: counter_defs)

abbreviation tls_run :: "conn_op list \<Rightarrow> conn_counters \<Rightarrow> conn_counters" where
  "tls_run \<equiv> fold (run_op tls_handle_new tls_handle_clone tls_handle_drop tls_stream_new tls_stream_drop)"

abbreviation quic_run :: "conn_op list \<Rightarrow> conn_counters \<Rightarrow> conn_counters" where
  "quic_run \<equiv> fold (run_op quic_handle_new quic_handle_clone quic_handle_drop quic_stream_new quic_stream_drop)"

text \<open>The counters of both transports are exact. Whatever handles and streams are made, cloned and dropped, the
  activities of the transport are the number of live handles, and the actives of a connection with a live handle or
  stream the number of its live streams (as 64-bit values); in particular nothing stays counted when all is dropped.\<close>

theorem counters_exact:
  assumes "activities_of s = 0" and "live_ops xs ([], []) = Some (hs, ss)"
  shows "activities_of (tls_run xs s) = of_nat (length hs) \<and> activities_of (quic_run xs s) = of_nat (length hs) \<and>
    (c \<in> set hs \<union> set ss \<longrightarrow>
       actives_of (tls_run xs s) c = of_nat (count_list ss c) \<and> actives_of (quic_run xs s) c = of_nat (count_list ss c))"
  using tls.counts_live [OF assms] quic.counts_live [OF assms] by blast

theorem counters_exact_witness:
  "actives_of (tls_run [OpNew ''a'', OpStream ''a'', OpClone ''a'', OpDrop ''a'', OpStream ''a'', OpStreamDrop ''a'']
     \<lparr>cn_activities = 0, cn_streams = (\<lambda>_. 7)\<rparr>) ''a'' = 1"
  using counters_exact [of "\<lparr>cn_activities = 0, cn_streams = (\<lambda>_. 7)\<rparr>"
      "[OpNew ''a'', OpStream ''a'', OpClone ''a'', OpDrop ''a'', OpStream ''a'', OpStreamDrop ''a'']" "[''a'']" "[''a'']" "''a''"]
  by (simp add: activities_of_def)

section \<open>Listen addresses\<close>

text \<open>The address of a listener can be dialed. The address that a TCP or a QUIC listener reports is one that its own
  transport accepts and the other does not, and it converts back to the socket address the listener is bound to.\<close>

theorem listener_addr_dialable:
  assumes "tag_law tag"
  shows "to_sockaddr (tcp_multiaddr a) = Inr a \<and> is_tcp_transport tag (tcp_multiaddr a) \<and> \<not> is_quic_transport tag (tcp_multiaddr a) \<and>
    to_sockaddr (quic_multiaddr a) = Inr a \<and> is_quic_transport tag (quic_multiaddr a) \<and> \<not> is_tcp_transport tag (quic_multiaddr a) \<and>
    (tcp_bind listen laddr = Inr bound \<longrightarrow>
       (\<exists>want local. to_sockaddr laddr = Inr want \<and> listen want = Inr (Inr local) \<and> to_sockaddr bound = Inr local))"
proof -
  obtain ip port where a: "a = (ip, port)" by (cases a)
  have tcp: "to_sockaddr (tcp_multiaddr b) = Inr b" for b by (cases b; cases "fst b") (simp_all add: tcp_multiaddr_def ip_protocol_def)
  moreover have "to_sockaddr [ip_protocol ip, Tcp port, Tls] = Inr (ip, port)"
    using tcp [of "(ip, port)"] by (simp add: tcp_multiaddr_def)
  moreover have "to_sockaddr (quic_multiaddr a) = Inr a" by (cases "fst a") (simp_all add: a quic_multiaddr_def ip_protocol_def)
  moreover have "P2pCircuit \<noteq> ip_protocol ip" by (cases ip) (simp_all add: ip_protocol_def)
  ultimately show ?thesis
    by (auto simp: a tcp_multiaddr_def [of "(ip, port)"] quic_multiaddr_def tcp_stack_shape [OF assms] quic_stack_shape [OF assms]
        tcp_bind_def and_then_Inr_iff map_err_Inr_iff)
qed

theorem listener_addr_dialable_witness:
  "to_sockaddr (quic_multiaddr (V4 127, 4001)) = Inr (V4 127, 4001) \<and> is_quic_transport std_tag (quic_multiaddr (V4 127, 4001))"
  using listener_addr_dialable [OF tag_law_std, of "(V4 127, 4001)"] by blast

section \<open>Who is at the other end\<close>

lemma peer_public_key_Inr:
  "peer_public_key display v now cert = Inr key \<longleftrightarrow> (\<exists>der. cert = Some (Inr der) \<and> verify v now der = Inr key)"
  by (auto simp: peer_public_key_def and_then_Inr_iff ok_or_Inr_iff map_err_Inr_iff)

lemma act_lift_bind: "act_bind (act_lift r) f s = (case r of Inl e \<Rightarrow> (Inl e, s) | Inr a \<Rightarrow> f a s)"
  by (simp add: act_bind_def split: sum.split)

lemma tls_connect_cases:
  "tls_connect display v ks signer (t1, t2, t3) net uuid local_addr peer_addr is_relay n =
     (case and_then (create_ssl_config display v signer t1 ks (tn_config net)) (\<lambda>config.
           and_then (tn_select_tls net) (\<lambda>_.
           and_then (map_err error_to_io (to_sockaddr peer_addr)) (\<lambda>(server_name, _).
           and_then (map_err OsError (tn_handshake net (tls_verify_callback v t2) config (Some server_name))) (\<lambda>cert.
           and_then (peer_public_key display v t3 cert) (\<lambda>public_key.
           and_then (tn_select_yamux net) (\<lambda>_. Inr public_key)))))) of
        Inl e \<Rightarrow> (Inl e, n)
      | Inr public_key \<Rightarrow> (Inr (fst (tls_conn_new uuid public_key local_addr peer_addr is_relay n)), n + 1))"
  by (simp add: tls_connect_def act_lift_bind and_then_def tls_conn_new_def fetch_add_def split: sum.split prod.split)

lemma tls_accept_cases:
  "tls_accept display v (t2, t3) net uuid acceptor local_addr peer_addr is_relay n =
     (case and_then (tn_select_tls net) (\<lambda>_.
           and_then (map_err OsError (tn_handshake net (tls_verify_callback v t2) acceptor None)) (\<lambda>cert.
           and_then (peer_public_key display v t3 cert) (\<lambda>public_key.
           and_then (tn_select_yamux net) (\<lambda>_. Inr public_key)))) of
        Inl e \<Rightarrow> (Inl e, n)
      | Inr public_key \<Rightarrow> (Inr (fst (tls_conn_new uuid public_key local_addr peer_addr is_relay n)), n + 1))"
  by (simp add: tls_accept_def act_lift_bind and_then_def tls_conn_new_def fetch_add_def split: sum.split prod.split)

text \<open>A TLS connection is authenticated. When the client or the server side of the set-up succeeds, the peer presented
  a certificate that \<open>verify\<close> accepts, and the connection's key is the host key of that certificate; it has the
  addresses and the relay flag it was made for, and one activity more is counted. The client side succeeds
  only for an address that starts with an IP address and a port. A set-up that fails counts nothing.\<close>

theorem tls_authenticated:
  "(case tls_connect display v ks signer (t1, t2, t3) net uuid local_addr peer_addr is_relay n of
      (Inl e, n') \<Rightarrow> n' = n
    | (Inr conn, n') \<Rightarrow> n' = n + 1 \<and> tc_local_addr conn = local_addr \<and> tc_peer_addr conn = peer_addr \<and> tc_is_relay conn = is_relay \<and>
        (\<exists>config ip port der. to_sockaddr peer_addr = Inr (ip, port) \<and>
           tn_handshake net (tls_verify_callback v t2) config (Some ip) = Inr (Some (Inr der)) \<and> verify v t3 der = Inr (tc_public_key conn))) \<and>
   (case tls_accept display v (t2, t3) net uuid acceptor local_addr peer_addr is_relay n of
      (Inl e, n') \<Rightarrow> n' = n
    | (Inr conn, n') \<Rightarrow> n' = n + 1 \<and> tc_local_addr conn = local_addr \<and> tc_peer_addr conn = peer_addr \<and> tc_is_relay conn = is_relay \<and>
        (\<exists>der. tn_handshake net (tls_verify_callback v t2) acceptor None = Inr (Some (Inr der)) \<and> verify v t3 der = Inr (tc_public_key conn)))"
proof -
  define r1 where "r1 = and_then (create_ssl_config display v signer t1 ks (tn_config net)) (\<lambda>config.
           and_then (tn_select_tls net) (\<lambda>_.
           and_then (map_err error_to_io (to_sockaddr peer_addr)) (\<lambda>(server_name, _).
           and_then (map_err OsError (tn_handshake net (tls_verify_callback v t2) config (Some server_name))) (\<lambda>cert.
           and_then (peer_public_key display v t3 cert) (\<lambda>public_key.
           and_then (tn_select_yamux net) (\<lambda>_. Inr public_key))))))"
  define r2 where "r2 = and_then (tn_select_tls net) (\<lambda>_.
           and_then (map_err OsError (tn_handshake net (tls_verify_callback v t2) acceptor None)) (\<lambda>cert.
           and_then (peer_public_key display v t3 cert) (\<lambda>public_key.
           and_then (tn_select_yamux net) (\<lambda>_. Inr public_key))))"
  have k1: "\<exists>config ip port der. to_sockaddr peer_addr = Inr (ip, port) \<and>
      tn_handshake net (tls_verify_callback v t2) config (Some ip) = Inr (Some (Inr der)) \<and> verify v t3 der = Inr key" if "r1 = Inr key" for key
    using that unfolding r1_def and_then_Inr_iff map_err_Inr_iff peer_public_key_Inr by (auto simp: and_then_Inr_iff map_err_Inr_iff peer_public_key_Inr)
  have k2: "\<exists>der. tn_handshake net (tls_verify_callback v t2) acceptor None = Inr (Some (Inr der)) \<and> verify v t3 der = Inr key" if "r2 = Inr key" for key
    using that unfolding r2_def and_then_Inr_iff map_err_Inr_iff peer_public_key_Inr by auto
  show ?thesis
    unfolding tls_connect_cases tls_accept_cases r1_def [symmetric] r2_def [symmetric]
  proof (intro conjI, goal_cases)
    case 1
    show ?case
    proof (cases r1)
      case (Inr key)
      from k1 [OF this] Inr show ?thesis by (simp only: sum.case prod.case tls_conn_new_def fst_conv tls_conn.simps simp_thms)
    qed simp
  next
    case 2
    show ?case
    proof (cases r2)
      case (Inr key)
      from k2 [OF this] Inr show ?thesis by (simp only: sum.case prod.case tls_conn_new_def fst_conv tls_conn.simps simp_thms)
    qed simp
  qed
qed

section \<open>Two nodes, and the life of a certificate\<close>

text \<open>A set-up in which nothing but the verification can fail: the peer presents the certificate of its configuration.\<close>

definition honest_net :: "tls_config \<Rightarrow> tls_net" where
  "honest_net peer =
     \<lparr>tn_config = (\<lambda>_. Inr ()), tn_select_tls = Inr (),
      tn_handshake = (\<lambda>cb cfg name. case cb (Some (Inr (tl_cert peer))) of
                        Inr _ \<Rightarrow> Inr (Some (Inr (tl_cert peer))) | Inl _ \<Rightarrow> Inl ''handshake''),
      tn_select_yamux = Inr ()\<rparr>"

lemma honest_net_law: "handshake_law (honest_net peer)"
  by (auto simp: handshake_law_def honest_net_def split: sum.splits)

lemma config_cert:
  assumes "x509_law v" and "keystore_law v ks host" and "create_ssl_config display v signer now ks checks = Inr cfg"
  shows "(now \<le> later \<and> later \<le> now + 4 * 10 ^ 9 \<longrightarrow> verify v later (tl_cert cfg) = Inr host) \<and>
    (now + 5 * 10 ^ 9 < later \<longrightarrow> verify v later (tl_cert cfg) = Inl (Libp2pCert ''Valid time error''))"
proof -
  from assms(3) obtain cert pk where g: "generate v signer now ks = Inr (cert, pk)" "cfg = \<lparr>tl_cert = cert, tl_key = pk\<rparr>"
    by (auto simp: create_ssl_config_def and_then_Inr_iff map_err_Inr_iff)
  from generated_accepted [OF assms(1,2) g(1)] show ?thesis by (simp add: g(2))
qed

lemma tls_connect_honest:
  assumes "verify v t2 (tl_cert peer) = Inr k" and "verify v t3 (tl_cert peer) = Inr k"
    and "create_ssl_config display v sg t1 ks (\<lambda>_. Inr ()) = Inr cfg" and "to_sockaddr raddr = Inr a"
  shows "tls_connect display v ks sg (t1, t2, t3) (honest_net peer) uuid laddr raddr relay n =
      (Inr (fst (tls_conn_new uuid k laddr raddr relay n)), n + 1)"
  using assms
  by (cases a) (simp add: tls_connect_cases honest_net_def tls_verify_callback_def peer_public_key_def)

lemma tls_accept_honest:
  assumes "verify v u2 (tl_cert peer) = Inr k" and "verify v u3 (tl_cert peer) = Inr k"
  shows "tls_accept display v (u2, u3) (honest_net peer) uuid acceptor laddr raddr relay n =
      (Inr (fst (tls_conn_new uuid k laddr raddr relay n)), n + 1)"
  using assms by (simp add: tls_accept_cases honest_net_def tls_verify_callback_def peer_public_key_def)

text \<open>Mutual authentication. When two nodes connect over TLS, each presenting a certificate that it made within the last
  four seconds, both ends of the set-up succeed, and each end's connection carries the host key of the other node.\<close>

theorem tls_session:
  assumes "x509_law v" and "keystore_law v ks_c client" and "keystore_law v ks_s server"
    and "create_ssl_config display v sg_c t1 ks_c (\<lambda>_. Inr ()) = Inr cfg_c" and "create_ssl_config display v sg_s u1 ks_s checks = Inr cfg_s"
    and "u1 \<le> t2 \<and> t2 \<le> u1 + 4 * 10 ^ 9" and "u1 \<le> t3 \<and> t3 \<le> u1 + 4 * 10 ^ 9"
    and "t1 \<le> u2 \<and> u2 \<le> t1 + 4 * 10 ^ 9" and "t1 \<le> u3 \<and> u3 \<le> t1 + 4 * 10 ^ 9"
    and "to_sockaddr raddr = Inr a"
  shows "(\<exists>c. tls_connect display v ks_c sg_c (t1, t2, t3) (honest_net cfg_s) id1 laddr raddr relay n = (Inr c, n + 1) \<and>
        tc_public_key c = server) \<and>
    (\<exists>c. tls_accept display v (u2, u3) (honest_net cfg_c) id2 cfg_s laddr2 raddr2 relay2 m = (Inr c, m + 1) \<and>
        tc_public_key c = client)"
proof -
  have s: "verify v t2 (tl_cert cfg_s) = Inr server" "verify v t3 (tl_cert cfg_s) = Inr server"
    using config_cert [OF assms(1,3,5)] assms(6,7) by blast+
  have c: "verify v u2 (tl_cert cfg_c) = Inr client" "verify v u3 (tl_cert cfg_c) = Inr client"
    using config_cert [OF assms(1,2,4)] assms(8,9) by blast+
  show ?thesis
    using tls_connect_honest [OF s assms(4,10)] tls_accept_honest [OF c] by (simp add: tls_conn_new_def)
qed

lemma toy_config: "create_ssl_config display (toy_env toy_generated) 0 0 (memory_keystore (PublicKey 3) Inr) (\<lambda>_. Inr ()) =
    Inr \<lparr>tl_cert = [1], tl_key = [9]\<rparr>"
  by (simp add: create_ssl_config_def toy_generate)

theorem tls_session_witness:
  "\<exists>c. tls_connect (\<lambda>_. []) (toy_env toy_generated) (memory_keystore (PublicKey 3) Inr) 0 (0, 1, 2)
     (honest_net \<lparr>tl_cert = [1], tl_key = [9]\<rparr>) ''c'' [] [Ip4 1, Tcp 2] False 0 = (Inr c, 1) \<and> tc_public_key c = PublicKey 3"
proof -
  have a: "to_sockaddr [Ip4 1, Tcp 2] = Inr (V4 1, 2)" by simp
  show ?thesis
    using tls_session [OF toy_env_law toy_keystore toy_keystore toy_config toy_config _ _ _ _ a, where ?t2.0 = 1 and ?t3.0 = 2 and
        ?u2.0 = 1 and ?u3.0 = 2 and ?id1.0 = "''c''" and laddr = "[]" and relay = False and n = 0] by auto
qed

text \<open>C40: A QUIC listener makes its certificate once, when it is bound. Within four seconds of that a dial that reaches it
  succeeds and gets the listener's host key; but every dial that reaches it more than five seconds after
  the bind fails, because the certificate it is presented has expired.\<close>

theorem quic_listener_lifetime:
  assumes "x509_law v" and "keystore_law v ks host"
    and "quic_bind display v signer now ks checks timeout listen laddr = Some (Inr l)"
    and "create_quic_config display v sg t1 ks2 checks2 timeout2 = Inr cfg" and "to_sockaddr raddr = Inr a"
    and "dial (quic_laddr_for a) a cfg = Inr conn" and "rq_path conn = Some (la, ra)"
    and "rq_peer_cert conn = Some (tl_cert (qc_tls (ql_config l)))"
  shows "(now \<le> t2 \<and> t2 \<le> now + 4 * 10 ^ 9 \<longrightarrow>
        (\<exists>c. quic_connect display v sg (t1, t2) ks2 checks2 timeout2 uuid dial raddr n = (Inr c, n + 1) \<and> qp_public_key c = host)) \<and>
    (now + 5 * 10 ^ 9 < t2 \<longrightarrow>
        quic_connect display v sg (t1, t2) ks2 checks2 timeout2 uuid dial raddr n =
          (Inl (x509_error_to_io display (Libp2pCert ''Valid time error'')), n))"
proof -
  from assms(3) have "\<exists>tls. create_ssl_config display v signer now ks checks = Inr tls \<and> qc_tls (ql_config l) = tls"
    by (auto simp: quic_bind_def create_quic_config_def and_then_Inr_iff map_err_Inr_iff split: sum.splits option.splits prod.splits)
  then obtain tls where tls: "create_ssl_config display v signer now ks checks = Inr tls" "qc_tls (ql_config l) = tls" by blast
  show ?thesis
    using config_cert [OF assms(1,2) tls(1), of t2] assms(4-8)
    by (auto simp: quic_connect_def act_lift_bind tls(2) quic_conn_new_def fetch_add_def)
qed

theorem quic_listener_lifetime_witness:
  "\<exists>l. quic_bind (\<lambda>_. []) (toy_env toy_generated) 0 0 (memory_keystore (PublicKey 3) Inr) (\<lambda>_. Inr ()) 5000
       (\<lambda>_. Inr (Some (V4 1, 2))) [Ip4 1, Udp 2, QuicV1] = Some (Inr l) \<and>
     quic_connect (\<lambda>_. []) (toy_env toy_generated) 0 (0, 6 * 10 ^ 9) (memory_keystore (PublicKey 3) Inr) (\<lambda>_. Inr ()) 5000 ''c''
       (\<lambda>_ _ _. Inr \<lparr>rq_path = Some ((V4 1, 3), (V4 1, 2)), rq_peer_cert = Some (tl_cert (qc_tls (ql_config l))),
          rq_peer_addr = (\<lambda>_. None)\<rparr>) [Ip4 1, Udp 2, QuicV1] 0 = (Inl (OsError []), 0)"
proof -
  let ?ks = "memory_keystore (PublicKey 3) Inr" and ?v = "toy_env toy_generated"
  obtain cfg where cfg: "create_quic_config (\<lambda>_. []) ?v 0 0 ?ks (\<lambda>_. Inr ()) 5000 = Inr cfg"
    by (simp add: create_quic_config_def toy_config)
  let ?l = "\<lparr>ql_config = cfg, ql_laddr = (V4 1, 2)\<rparr>"
  have bind: "quic_bind (\<lambda>_. []) ?v 0 0 ?ks (\<lambda>_. Inr ()) 5000 (\<lambda>_. Inr (Some (V4 1, 2))) [Ip4 1, Udp 2, QuicV1] = Some (Inr ?l)"
    by (simp add: quic_bind_def cfg)
  have a: "to_sockaddr [Ip4 1, Udp 2, QuicV1] = Inr (V4 1, 2)" by simp
  let ?conn = "\<lparr>rq_path = Some ((V4 1, 3), (V4 1, 2)), rq_peer_cert = Some (tl_cert (qc_tls (ql_config ?l))), rq_peer_addr = (\<lambda>_. None)\<rparr>"
  have "quic_connect (\<lambda>_. []) ?v 0 (0, 6 * 10 ^ 9) ?ks (\<lambda>_. Inr ()) 5000 ''c'' (\<lambda>_ _ _. Inr ?conn) [Ip4 1, Udp 2, QuicV1] 0 = (Inl (OsError []), 0)"
    using quic_listener_lifetime [OF toy_env_law toy_keystore bind cfg a, of "\<lambda>_ _ _. Inr ?conn" ?conn "(V4 1, 3)" "(V4 1, 2)" "6 * 10 ^ 9" "''c''" 0]
    by simp
  with bind show ?thesis by blast
qed

end
