(* ===== verification/DnsAddr.thy ===== *)
theory DnsAddr
  imports Net_Types "HOL-Library.Multiset"
begin

text \<open>
  \<open>dnsaddr/src/lib.rs\<close>: the transport that resolves name-based addresses and dials what they resolve to.
  \<open>dns_lookup\<close> expands the names of one address, \<open>lookup\<close> repeats that for addresses that resolve to further
  names, \<open>connect\<close> tries the results in a random order.

  The DNS client and the parser of addresses are the fields of a \<open>dns_net\<close>. It has its answers for each round
  of \<open>lookup\<close>, and says which address is not answered within the five seconds.
\<close>

record dns_net =
  dn_lookup_ip :: "string \<Rightarrow> io_error + ip_addr list"
  dn_lookup_txt :: "string \<Rightarrow> io_error + string list"
  dn_parse :: "string \<Rightarrow> string + multiaddr"
  dn_slow :: "multiaddr \<Rightarrow> bool"

section \<open>Expanding one address\<close>

definition ip_component :: "ip_addr \<Rightarrow> protocol" where
  "ip_component ip = (case ip of V4 a \<Rightarrow> Ip4 a | V6 a \<Rightarrow> Ip6 a)"

definition dnsaddr_prefix :: string where
  "dnsaddr_prefix = ''dnsaddr=''"

text \<open>The loop over the addresses of a name, and the loop over the lines of a TXT record.\<close>

definition extend_stacks :: "multiaddr list \<Rightarrow> ip_addr list \<Rightarrow> multiaddr list" where
  "extend_stacks stacks addrs =
     concat (map (\<lambda>addr. if stacks = [] then [[ip_component addr]]
                         else map (\<lambda>stack. addr_with stack (ip_component addr)) stacks) addrs)"

fun txt_lines :: "(string \<Rightarrow> string + multiaddr) \<Rightarrow> string list \<Rightarrow> multiaddr list \<Rightarrow> io_error + multiaddr list" where
  "txt_lines parse [] stacks = Inr stacks"
| "txt_lines parse (addr # rest) stacks =
     (if take (length dnsaddr_prefix) addr = dnsaddr_prefix then
        (case parse (drop (length dnsaddr_prefix) addr) of
           Inl err \<Rightarrow> Inl (OsError err)
         | Inr a \<Rightarrow> txt_lines parse rest (stacks @ [a]))
      else txt_lines parse rest stacks)"

fun expand_names :: "dns_net \<Rightarrow> multiaddr \<Rightarrow> multiaddr list \<Rightarrow> io_error + multiaddr list" where
  "expand_names net [] stacks = Inr stacks"
| "expand_names net (proto # rest) stacks =
     (case proto of
        Dns name \<Rightarrow> and_then (dn_lookup_ip net name) (\<lambda>addrs. expand_names net rest (extend_stacks stacks addrs))
      | Dns4 name \<Rightarrow> and_then (dn_lookup_ip net name) (\<lambda>addrs. expand_names net rest (extend_stacks stacks addrs))
      | Dns6 name \<Rightarrow> and_then (dn_lookup_ip net name) (\<lambda>addrs. expand_names net rest (extend_stacks stacks addrs))
      | Dnsaddr name \<Rightarrow> and_then (dn_lookup_txt net (''_dnsaddr.'' @ name)) (\<lambda>txt. txt_lines (dn_parse net) txt stacks)
      | _ \<Rightarrow> expand_names net rest (map (\<lambda>stack. addr_with stack proto) stacks))"

definition dns_lookup :: "dns_net \<Rightarrow> multiaddr \<Rightarrow> io_error + multiaddr list" where
  "dns_lookup net addr = expand_names net addr []"

section \<open>\<open>lookup\<close>\<close>

text \<open>\<open>dns_hint\<close> is the \<open>multiaddr_hint\<close> of the transport; a lookup that is too slow is a timeout.\<close>

definition dns_hint :: "multiaddr \<Rightarrow> bool" where
  "dns_hint addr = is_dnsaddr_transport addr"

definition timed_lookup :: "dns_net \<Rightarrow> multiaddr \<Rightarrow> io_error + multiaddr list" where
  "timed_lookup net addr = (if dn_slow net addr then Inl (error_to_io Timeout) else dns_lookup net addr)"

function lookup_loop ::
    "(nat \<Rightarrow> dns_net) \<Rightarrow> nat \<Rightarrow> nat \<Rightarrow> multiaddr list \<Rightarrow> multiaddr list \<Rightarrow> io_error + multiaddr list" where
  "lookup_loop net limit depth parsed dnsaddrs =
     (if dnsaddrs = [] then Inr parsed
      else if depth > limit then Inr parsed
      else case try_map (timed_lookup (net depth)) dnsaddrs of
             Inl err \<Rightarrow> Inl err
           | Inr found \<Rightarrow>
               (let cached = concat found in
                lookup_loop net limit (depth + 1) (parsed @ filter (\<lambda>a. \<not> dns_hint a) cached) (filter dns_hint cached)))"
  by pat_completeness auto

termination lookup_loop
  by (relation "measure (\<lambda>(net, limit, depth, parsed, dnsaddrs). Suc limit - depth)") auto

declare lookup_loop.simps [simp del]

text \<open>\<open>DnsAddr::new\<close> sets the limit.\<close>

definition dns_depth :: nat where
  "dns_depth = 10"

definition lookup :: "(nat \<Rightarrow> dns_net) \<Rightarrow> nat \<Rightarrow> multiaddr \<Rightarrow> io_error + multiaddr list" where
  "lookup net limit raddr = lookup_loop net limit 0 [] [raddr]"

section \<open>\<open>connect\<close>\<close>

text \<open>\<open>dial\<close> is \<open>switch.transport_connect\<close>; \<open>None\<close> is the panic of the final \<open>unwrap\<close>.\<close>

fun dial_each ::
    "(multiaddr \<Rightarrow> ('s, xs_error, 'c) act) \<Rightarrow> multiaddr list \<Rightarrow> xs_error option \<Rightarrow> 's \<Rightarrow> ((io_error + 'c) option \<times> 's)" where
  "dial_each dial [] last_error s = (case last_error of None \<Rightarrow> None | Some err \<Rightarrow> Some (Inl (error_to_io err)), s)"
| "dial_each dial (raddr # rest) last_error s =
     (case dial raddr s of
        (Inr conn, s) \<Rightarrow> (Some (Inr conn), s)
      | (Inl err, s) \<Rightarrow> dial_each dial rest (Some err) s)"

definition dns_connect ::
    "(nat \<Rightarrow> dns_net) \<Rightarrow> nat \<Rightarrow> (multiaddr list \<Rightarrow> multiaddr list) \<Rightarrow> (multiaddr \<Rightarrow> ('s, xs_error, 'c) act) \<Rightarrow> multiaddr \<Rightarrow> 's \<Rightarrow>
     ((io_error + 'c) option \<times> 's)" where
  "dns_connect net limit shuffle dial raddr s =
     (case lookup net limit raddr of
        Inl err \<Rightarrow> (Some (Inl err), s)
      | Inr raddrs \<Rightarrow>
          (if raddrs = [] then (Some (Inl (OsError ''Can't resolve raddr'')), s)
           else dial_each dial (shuffle raddrs) None s))"

section \<open>What an address expands to\<close>

abbreviation no_names :: "multiaddr \<Rightarrow> bool" where
  "no_names addr \<equiv> \<not> is_dnsaddr_transport addr"

lemma expand_plain:
  "no_names addr \<Longrightarrow> expand_names net addr stacks = Inr (map (\<lambda>stack. stack @ addr) stacks)"
  by (induction addr arbitrary: stacks) (auto split: protocol.splits simp: comp_def)

lemma expand_plain_append:
  "no_names pre \<Longrightarrow> expand_names net (pre @ addr) stacks = expand_names net addr (map (\<lambda>stack. stack @ pre) stacks)"
  by (induction pre arbitrary: stacks) (auto split: protocol.splits simp: comp_def)

lemma dns_lookup_plain: "no_names addr \<Longrightarrow> dns_lookup net addr = Inr []"
  by (simp add: dns_lookup_def expand_plain)

lemma extend_stacks_Nil [simp]: "extend_stacks [] addrs = map (\<lambda>a. [ip_component a]) addrs"
  by (induction addrs) (simp_all add: extend_stacks_def)

text \<open>One name. An address with a \<open>dns\<close>, \<open>dns4\<close> or \<open>dns6\<close> name as its only name resolves to one address for each
  IP address of the name, of either family whichever of the three it is: the IP address followed by
  what came after the name. What came before the name is dropped. A \<open>dnsaddr\<close> name resolves to the parsed
  entries of its TXT record, and what came after it, such as the id of the wanted peer, is ignored.\<close>

theorem dns_expands:
  assumes "no_names pre" and "no_names rest" and "proto \<in> {Dns name, Dns4 name, Dns6 name}"
  shows "(dn_lookup_ip net name = Inr ips \<longrightarrow>
       dns_lookup net (pre @ proto # rest) = Inr (map (\<lambda>ip. ip_component ip # rest) ips)) \<and>
    (\<forall>e. dn_lookup_ip net name = Inl e \<longrightarrow> dns_lookup net (pre @ proto # rest) = Inl e) \<and>
    (\<forall>txt. dn_lookup_txt net (''_dnsaddr.'' @ name) = Inr txt \<longrightarrow>
       dns_lookup net (pre @ Dnsaddr name # rest) = txt_lines (dn_parse net) txt [])"
  using assms(3)
  by (auto simp: dns_lookup_def expand_plain_append [OF assms(1)] expand_plain [OF assms(2)] comp_def)

definition sample_dns :: dns_net where
  "sample_dns = \<lparr>dn_lookup_ip = (\<lambda>name. if name = ''x.org'' then Inr [V4 1, V6 2] else Inl (OsError ''nxdomain'')),
     dn_lookup_txt = (\<lambda>name. if name = ''_dnsaddr.b.org'' then Inr [''dnsaddr=a'', ''other''] else Inl (OsError ''nxdomain'')),
     dn_parse = (\<lambda>s. if s = ''a'' then Inr [Dns4 ''x.org'', Tcp 80] else Inl ''parse''), dn_slow = (\<lambda>_. False)\<rparr>"

theorem dns_expands_witness:
  "dns_lookup sample_dns [Dns4 ''x.org'', Tcp 80] = Inr [[Ip4 1, Tcp 80], [Ip6 2, Tcp 80]] \<and>
   dns_lookup sample_dns [Dnsaddr ''b.org'', P2p (PeerId 3)] = Inr [[Dns4 ''x.org'', Tcp 80]]"
  using dns_expands [of "[]" "[Tcp 80]" "Dns4 ''x.org''" "''x.org''" sample_dns "[V4 1, V6 2]"]
    dns_expands [of "[]" "[P2p (PeerId 3)]" "Dns ''b.org''" "''b.org''" sample_dns "[]"]
  by (simp add: sample_dns_def ip_component_def dnsaddr_prefix_def)

section \<open>What \<open>lookup\<close> finds\<close>

definition expands :: "dns_net \<Rightarrow> (multiaddr \<times> multiaddr) set" where
  "expands net = {(a, b). \<exists>bs. dns_lookup net a = Inr bs \<and> b \<in> set bs}"

lemma expands_named: "(a, b) \<in> expands net \<Longrightarrow> dns_hint a"
  using dns_lookup_plain [of a net] by (cases "is_dnsaddr_transport a") (auto simp: expands_def dns_hint_def)

lemma try_map_expands:
  "try_map (timed_lookup net) as = Inr found \<Longrightarrow> set (concat found) = {b. \<exists>a\<in>set as. (a, b) \<in> expands net}"
  by (auto simp: try_map_Inr_iff expands_def timed_lookup_def list_all2_conv_all_nth in_set_conv_nth split: if_splits)
    (fastforce simp: in_set_conv_nth)+

lemma lookup_loop_stop: "as = [] \<or> limit < depth \<Longrightarrow> lookup_loop net limit depth parsed as = Inr parsed"
  by (subst lookup_loop.simps) auto

lemma lookup_loop_go:
  "as \<noteq> [] \<Longrightarrow> \<not> limit < depth \<Longrightarrow> lookup_loop net limit depth parsed as =
     and_then (try_map (timed_lookup (net depth)) as) (\<lambda>found.
       lookup_loop net limit (depth + 1) (parsed @ filter (\<lambda>a. \<not> dns_hint a) (concat found)) (filter dns_hint (concat found)))"
  by (subst lookup_loop.simps; cases "try_map (timed_lookup (net depth)) as") (simp_all add: Let_def)

lemma lookup_loop_set:
  assumes "\<And>i. net i = nt" and "lookup_loop net limit depth parsed as = Inr addrs" and "depth \<le> Suc limit"
  shows "set addrs = set parsed \<union>
    {b. \<not> dns_hint b \<and> (\<exists>a\<in>set as. \<exists>k. k + depth \<le> limit \<and> (a, b) \<in> expands nt ^^ Suc k)}"
  using assms
proof (induction net limit depth parsed as rule: lookup_loop.induct)
  case (1 net limit depth parsed as)
  show ?case
  proof (cases "as = [] \<or> limit < depth")
    case True
    with 1(3) lookup_loop_stop [OF True, of net parsed] show ?thesis by auto
  next
    case False
    then have go: "as \<noteq> []" "\<not> limit < depth" by auto
    with 1(3) obtain found where found: "try_map (timed_lookup (net depth)) as = Inr found"
      and rest: "lookup_loop net limit (depth + 1) (parsed @ filter (\<lambda>a. \<not> dns_hint a) (concat found))
        (filter dns_hint (concat found)) = Inr addrs"
      by (auto simp: lookup_loop_go [OF go] and_then_Inr_iff)
    have cached: "b \<in> set (concat found) \<longleftrightarrow> (\<exists>a\<in>set as. (a, b) \<in> expands nt)" for b
      using try_map_expands [OF found] 1(2) by simp
    have ih: "set addrs = set (parsed @ filter (\<lambda>a. \<not> dns_hint a) (concat found)) \<union>
        {b. \<not> dns_hint b \<and> (\<exists>a\<in>set (filter dns_hint (concat found)). \<exists>k. k + (depth + 1) \<le> limit \<and> (a, b) \<in> expands nt ^^ Suc k)}"
      using 1(1) [OF go found refl 1(2) rest] go(2) by simp
    show ?thesis
    proof (intro set_eqI)
      fix b
      have "(\<exists>c\<in>set (filter dns_hint (concat found)). \<exists>k. k + (depth + 1) \<le> limit \<and> (c, b) \<in> expands nt ^^ Suc k) \<longleftrightarrow>
          (\<exists>a\<in>set as. \<exists>k. k \<noteq> 0 \<and> k + depth \<le> limit \<and> (a, b) \<in> expands nt ^^ Suc k)" (is "?l \<longleftrightarrow> ?r")
      proof
        assume ?l
        then obtain c k where c: "c \<in> set (concat found)" "k + (depth + 1) \<le> limit" "(c, b) \<in> expands nt ^^ Suc k" by auto
        with cached obtain a where "a \<in> set as" "(a, c) \<in> expands nt" by blast
        moreover have "(a, b) \<in> expands nt ^^ Suc (Suc k)" by (rule relpow_Suc_I2 [OF calculation(2) c(3)])
        ultimately show ?r using c(2) by (intro bexI [of _ a] exI [of _ "Suc k"] conjI) simp_all
      next
        assume ?r
        then obtain a k where a: "a \<in> set as" "Suc k + depth \<le> limit" "(a, b) \<in> expands nt ^^ Suc (Suc k)"
          by (metis not0_implies_Suc)
        from relpow_Suc_D2 [OF a(3)] obtain c where c: "(a, c) \<in> expands nt" "(c, b) \<in> expands nt ^^ Suc k" by blast
        from relpow_Suc_D2 [OF c(2)] have "dns_hint c" using expands_named by blast
        with a(1,2) c cached show ?l by (intro bexI [of _ c] exI [of _ k]) auto
      qed
      moreover have split0: "(\<exists>a\<in>set as. \<exists>k. k + depth \<le> limit \<and> (a, b) \<in> expands nt ^^ Suc k) \<longleftrightarrow>
          (\<exists>a\<in>set as. (a, b) \<in> expands nt) \<or> (\<exists>a\<in>set as. \<exists>k. k \<noteq> 0 \<and> k + depth \<le> limit \<and> (a, b) \<in> expands nt ^^ Suc k)" (is "?x \<longleftrightarrow> ?y \<or> ?z")
      proof
        assume ?x
        then obtain a k where a: "a \<in> set as" "k + depth \<le> limit" "(a, b) \<in> expands nt ^^ Suc k" by blast
        show "?y \<or> ?z"
        proof (cases "k = 0")
          case True
          with a(1,3) have ?y by auto
          then show ?thesis ..
        next
          case False
          with a have ?z by blast
          then show ?thesis ..
        qed
      next
        assume "?y \<or> ?z"
        then show ?x
        proof
          assume ?y
          then obtain a where a: "a \<in> set as" "(a, b) \<in> expands nt" by blast
          have "0 + depth \<le> limit" using go(2) by simp
          moreover have "(a, b) \<in> expands nt ^^ Suc 0" using a(2) by simp
          ultimately show ?x using a(1) by blast
        next
          assume ?z
          then show ?x by blast
        qed
      qed
      ultimately show "b \<in> set addrs \<longleftrightarrow> b \<in> set parsed \<union>
          {b. \<not> dns_hint b \<and> (\<exists>a\<in>set as. \<exists>k. k + depth \<le> limit \<and> (a, b) \<in> expands nt ^^ Suc k)}"
        unfolding ih using cached [of b] by (simp del: relpow.simps(2)) blast
    qed
  qed
qed

text \<open>C38: What a successful lookup returns, when the answers do not change meanwhile: the addresses without a
  name that the expansion of names reaches from the given address in at most \<open>limit + 1\<close> steps, all of
  them, and no address that still has a name.\<close>

theorem lookup_complete:
  assumes "\<And>i. net i = nt" and "lookup net limit raddr = Inr addrs"
  shows "set addrs = {b. \<not> dns_hint b \<and> (\<exists>k. k \<le> limit \<and> (raddr, b) \<in> expands nt ^^ Suc k)}"
  using lookup_loop_set [OF assms(1) assms(2) [unfolded lookup_def]] by simp

theorem lookup_complete_witness:
  "[Ip6 2, Tcp 80] \<in> {b. \<not> dns_hint b \<and> (\<exists>k. k \<le> 10 \<and> ([Dnsaddr ''b.org''], b) \<in> expands sample_dns ^^ Suc k)}"
proof -
  have e: "lookup (\<lambda>_. sample_dns) 10 [Dnsaddr ''b.org''] = Inr [[Ip4 1, Tcp 80], [Ip6 2, Tcp 80]]"
    by (simp add: lookup_def lookup_loop_go lookup_loop_stop timed_lookup_def sample_dns_def dns_lookup_def
        dns_hint_def extend_stacks_def ip_component_def dnsaddr_prefix_def)
  show ?thesis
    by (subst lookup_complete [OF refl e, symmetric]) simp
qed

section \<open>What \<open>connect\<close> returns\<close>

text \<open>\<open>dials dial as s c t\<close>: dialing \<open>as\<close> in this order, all fail up to one that gives \<open>c\<close>.\<close>

inductive dials :: "(multiaddr \<Rightarrow> ('s, xs_error, 'c) act) \<Rightarrow> multiaddr list \<Rightarrow> 's \<Rightarrow> 'c \<Rightarrow> 's \<Rightarrow> bool"
  for dial where
  dials_now: "dial a s = (Inr c, t) \<Longrightarrow> dials dial (a # as) s c t"
| dials_later: "dial a s = (Inl e, s') \<Longrightarrow> dials dial as s' c t \<Longrightarrow> dials dial (a # as) s c t"

inductive_cases dials_ConsE: "dials dial (a # as) s c t"
inductive_simps dials_Nil [simp]: "dials dial [] s c t"

lemma dial_each_Inr: "dial_each dial as le s = (Some (Inr c), t) \<longleftrightarrow> dials dial as s c t"
proof (induction dial as le s rule: dial_each.induct)
  case (1 dial le s)
  show ?case by (auto split: option.splits)
next
  case (2 dial a as le s)
  obtain r s' where r: "dial a s = (r, s')" by fastforce
  show ?case
  proof (cases r)
    case (Inl e)
    with r 2 show ?thesis by (auto intro: dials_later elim!: dials_ConsE)
  next
    case (Inr c')
    with r show ?thesis by (auto intro: dials_now elim!: dials_ConsE)
  qed
qed

lemma dial_each_panic: "fst (dial_each dial as le s) = None \<longleftrightarrow> as = [] \<and> le = None"
  by (induction dial as le s rule: dial_each.induct) (auto split: option.splits prod.splits sum.splits)

text \<open>\<open>connect\<close> never panics on its \<open>unwrap\<close>, and it returns a connection exactly when the lookup succeeds and
  one of the resolved addresses, taken in the shuffled order, can be dialed: then it is the first of
  them that can, the later ones are not dialed.\<close>

theorem dns_connect_exact:
  assumes "\<And>as. mset (shuffle as) = mset as"
  shows "fst (dns_connect net limit shuffle dial raddr s) \<noteq> None \<and>
    (dns_connect net limit shuffle dial raddr s = (Some (Inr c), t) \<longleftrightarrow>
       (\<exists>as. lookup net limit raddr = Inr as \<and> dials dial (shuffle as) s c t))"
proof -
  have ne: "shuffle as = [] \<longleftrightarrow> as = []" for as
    using assms [of as] by (metis mset_zero_iff)
  have nil: "shuffle [] = []" using ne [of "[]"] by simp
  show ?thesis
  proof (cases "lookup net limit raddr")
    case (Inl e)
    then show ?thesis by (simp add: dns_connect_def)
  next
    case (Inr as)
    have "as \<noteq> [] \<Longrightarrow> fst (dial_each dial (shuffle as) None s) \<noteq> None"
      using dial_each_panic [of dial "shuffle as" None s] ne [of as] by simp
    with Inr nil show ?thesis by (cases "as = []") (simp_all add: dns_connect_def dial_each_Inr)
  qed
qed

definition dns_sample_dial :: "multiaddr \<Rightarrow> (nat, xs_error, nat) act" where
  "dns_sample_dial a n = (if a = [Ip4 1, Tcp 80] then Inr n else Inl Timeout, Suc n)"

theorem dns_connect_exact_witness:
  "dns_connect (\<lambda>_. sample_dns) 10 rev dns_sample_dial [Dns ''x.org'', Tcp 80] 0 = (Some (Inr 1), 2)"
proof -
  have e: "lookup (\<lambda>_. sample_dns) 10 [Dns ''x.org'', Tcp 80] = Inr [[Ip4 1, Tcp 80], [Ip6 2, Tcp 80]]"
    by (simp add: lookup_def lookup_loop_go lookup_loop_stop timed_lookup_def sample_dns_def dns_lookup_def
        dns_hint_def extend_stacks_def ip_component_def)
  have d: "dials dns_sample_dial [[Ip6 2, Tcp 80], [Ip4 1, Tcp 80]] 0 1 2"
    by (rule dials_later [of _ _ _ Timeout 1], simp add: dns_sample_dial_def, rule dials_now, simp add: dns_sample_dial_def)
  show ?thesis
    using dns_connect_exact [where shuffle = rev and net = "\<lambda>_. sample_dns" and limit = 10 and dial = dns_sample_dial
        and raddr = "[Dns ''x.org'', Tcp 80]" and s = 0 and c = 1 and t = 2] e d by simp
qed

end
