(* ===== verification/CircuitNode.thy ===== *)
theory CircuitNode
  imports CircuitRpc SecureConn ConnPool
begin

text \<open>
  A node behind a relay: \<open>circuit/src/transport.rs\<close> (the transport that dials through a relay),
  the acceptance of relayed connections in \<open>circuit/src/protocols/stop.rs\<close>, and the
  hole punching of \<open>circuit/src/protocols/dcutr.rs\<close>.

  The stream to the relay is a \<open>stream\<close> of the theory Rpc while the circuit is opened; then the two ends speak TLS
  over it, and what TLS answers is a \<open>tls_net\<close> that may depend on the stream.
\<close>

section \<open>Circuit addresses\<close>

definition circuit_hint :: "multiaddr \<Rightarrow> bool" where
  "circuit_hint addr =
     (case addr_pop addr of
        Some (P2p _, addr) \<Rightarrow> addr_ends_with addr [P2pCircuit]
      | _ \<Rightarrow> False)"

text \<open>The relay's address and the wanted peer.\<close>

definition circuit_target :: "multiaddr \<Rightarrow> circuit_error + multiaddr \<times> peer_id" where
  "circuit_target raddr =
     (case addr_pop raddr of
        Some (P2p i, raddr) \<Rightarrow>
          (case addr_pop raddr of
             Some (P2pCircuit, raddr) \<Rightarrow> Inr (raddr, i)
           | _ \<Rightarrow> Inl ConnectAddr)
      | _ \<Rightarrow> Inl ConnectAddr)"

lemma circuit_hint_iff: "circuit_hint addr \<longleftrightarrow> (\<exists>hop i. addr = hop @ [P2pCircuit, P2p i])"
proof (cases addr rule: rev_cases)
  case Nil
  then show ?thesis by (simp add: circuit_hint_def addr_pop_def)
next
  case (snoc xs p)
  then show ?thesis by (cases p) (auto simp: circuit_hint_def suffix_def)
qed

lemma circuit_target_snoc:
  "circuit_target (ys @ [q, p]) =
     (case p of P2p i \<Rightarrow> (case q of P2pCircuit \<Rightarrow> Inr (ys, i) | _ \<Rightarrow> Inl ConnectAddr) | _ \<Rightarrow> Inl ConnectAddr)"
  using addr_pop_with [of "addr_with ys q" p] by (simp add: circuit_target_def split: protocol.split)

lemma circuit_target_iff: "circuit_target addr = Inr (hop, i) \<longleftrightarrow> addr = hop @ [P2pCircuit, P2p i]"
proof (cases addr rule: rev_cases)
  case Nil
  then show ?thesis by (simp add: circuit_target_def addr_pop_def)
next
  case (snoc xs p)
  show ?thesis
  proof (cases xs rule: rev_cases)
    case Nil
    with snoc show ?thesis by (cases p) (auto simp: circuit_target_def addr_pop_def)
  next
    case (snoc ys q)
    with \<open>addr = xs @ [p]\<close> have "addr = ys @ [q, p]" by simp
    then show ?thesis by (auto simp: circuit_target_snoc split: protocol.splits)
  qed
qed

section \<open>\<open>connect\<close>\<close>

text \<open>
  \<open>opened\<close> is \<open>switch.connect\<close> to the relay with the hop protocol: the stream and its local address. The first
  \<open>circuit_error\<close> text is that of circuit errors, the second that of certificate errors.
\<close>

definition circuit_connect ::
    "circuit_codec \<Rightarrow> nat \<Rightarrow> (circuit_error \<Rightarrow> string) \<Rightarrow> (x509_error \<Rightarrow> string) \<Rightarrow> x509_env \<Rightarrow> keystore \<Rightarrow> nat \<Rightarrow> nat \<times> nat \<times> nat \<Rightarrow> string \<Rightarrow>
     (multiaddr \<Rightarrow> xs_error + stream \<times> multiaddr) \<Rightarrow> (stream \<Rightarrow> tls_net) \<Rightarrow> multiaddr \<Rightarrow> (64 word, io_error, tls_conn) act" where
  "circuit_connect k max_packet_size cdisplay display v ks signer ts uuid opened tls peer_addr =
     act_bind (act_lift (map_err (circuit_error_to_io cdisplay) (circuit_target peer_addr))) (\<lambda>(hop, peer).
     act_bind (act_lift (map_err error_to_io (opened hop))) (\<lambda>(stream, local_addr).
     case circuit_v2_hop_connect k peer max_packet_size stream of
       (Inl err, _) \<Rightarrow> act_err (circuit_error_to_io cdisplay err)
     | (Inr limits, stream) \<Rightarrow> tls_connect display v ks signer ts (tls stream) uuid local_addr peer_addr True))"

section \<open>The stop side\<close>

text \<open>
  The channel between the accepting task and the listener: the connections in it, and whether the receiver and
  a sender still exist.
\<close>

record stop_channel =
  sc_queue :: "tls_conn list"
  sc_receiver :: bool
  sc_senders :: bool

text \<open>A send to a channel whose receiver is gone drops the connection.\<close>

definition channel_send :: "tls_conn \<Rightarrow> 64 word \<times> stop_channel \<Rightarrow> (io_error + unit) \<times> 64 word \<times> stop_channel" where
  "channel_send conn s =
     (if sc_receiver (snd s) then (Inr (), fst s, (snd s)\<lparr>sc_queue := sc_queue (snd s) @ [conn]\<rparr>)
      else (Inl (OsError ''''), fetch_sub (fst s), snd s))"

text \<open>\<open>CircuitStopListener::accept\<close>; \<open>None\<close> while it has to wait.\<close>

definition stop_listener_accept :: "stop_channel \<Rightarrow> ((io_error + tls_conn) \<times> stop_channel) option" where
  "stop_listener_accept ch =
     (case sc_queue ch of
        conn # rest \<Rightarrow> Some (Inr conn, ch\<lparr>sc_queue := rest\<rparr>)
      | [] \<Rightarrow> (if sc_senders ch then None else Some (Inl (OsError ''CircuitStopListener broken.''), ch)))"

definition stop_listener_local_addr :: multiaddr where
  "stop_listener_local_addr = addr_with [] P2pCircuit"

definition handle_stop_incoming ::
    "circuit_codec \<Rightarrow> nat \<Rightarrow> (circuit_error \<Rightarrow> string) \<Rightarrow> (x509_error \<Rightarrow> string) \<Rightarrow> x509_env \<Rightarrow> keystore \<Rightarrow> nat \<Rightarrow> nat \<times> nat \<times> nat \<Rightarrow> string \<Rightarrow>
     (bytes \<times> bytes \<Rightarrow> io_error + unit) \<Rightarrow> (stream \<Rightarrow> tls_net) \<Rightarrow> stream \<Rightarrow> multiaddr \<Rightarrow> multiaddr \<Rightarrow>
     (64 word \<times> stop_channel, io_error, unit) act" where
  "handle_stop_incoming k max_packet_size cdisplay display v ks signer ts uuid checks tls stream local_addr peer_addr s =
     (case ts of (t1, t2, t3) \<Rightarrow>
      case circuit_v2_stop_connect_accept k max_packet_size stream of
        (Inl err, _) \<Rightarrow> (Inl (circuit_error_to_io cdisplay err), s)
      | (Inr limits, stream) \<Rightarrow>
          (case create_ssl_config display v signer t1 ks checks of
             Inl err \<Rightarrow> (Inl err, s)
           | Inr acceptor \<Rightarrow>
               (case tls_accept display v (t2, t3) (tls stream) uuid acceptor local_addr peer_addr True (fst s) of
                  (Inl err, activities) \<Rightarrow> (Inl err, activities, snd s)
                | (Inr conn, activities) \<Rightarrow> channel_send conn (activities, snd s))))"

section \<open>DCUtR\<close>

text \<open>The addresses to answer with and the addresses to dial.\<close>

fun punch_addrs ::
    "(protocol \<Rightarrow> string) \<Rightarrow> multiaddr list \<Rightarrow> multiaddr list \<Rightarrow> multiaddr list \<Rightarrow> multiaddr list \<Rightarrow> multiaddr list \<times> multiaddr list" where
  "punch_addrs tag observed [] laddrs sync = (laddrs, sync)"
| "punch_addrs tag observed (addr # rest) laddrs sync =
     (if is_quic_transport tag addr then
        (case find (is_quic_transport tag) observed of
           Some laddr \<Rightarrow> punch_addrs tag observed rest (laddrs @ [laddr]) (sync @ [addr])
         | None \<Rightarrow> punch_addrs tag observed rest laddrs sync)
      else punch_addrs tag observed rest laddrs sync)"

text \<open>Dialing; \<open>None\<close> is a panic: the last \<open>unwrap\<close>, or the pool's.\<close>

fun punch_each ::
    "(multiaddr \<Rightarrow> xs_error + p2p_conn) \<Rightarrow> conn_obs \<Rightarrow> string \<Rightarrow> multiaddr list \<Rightarrow> xs_error option \<Rightarrow> conn_pool \<Rightarrow>
     (circuit_error + unit) option \<times> conn_pool" where
  "punch_each dial obs cid [] last_error pool = (map_option (\<lambda>err. Inl (XStackError err)) last_error, pool)"
| "punch_each dial obs cid (addr # rest) last_error pool =
     (case dial addr of
        Inr conn \<Rightarrow>
          (case pool_replace obs conn cid False pool of
             None \<Rightarrow> (None, pool)
           | Some pool \<Rightarrow> (Some (Inr ()), pool))
      | Inl err \<Rightarrow> punch_each dial obs cid rest (Some err) pool)"

definition upgrade ::
    "circuit_codec \<Rightarrow> nat \<Rightarrow> (protocol \<Rightarrow> string) \<Rightarrow> multiaddr list \<Rightarrow> (multiaddr \<Rightarrow> xs_error + p2p_conn) \<Rightarrow> conn_obs \<Rightarrow> string \<Rightarrow>
     stream \<times> conn_pool \<Rightarrow> (circuit_error + unit) option \<times> stream \<times> conn_pool" where
  "upgrade k max_packet_size tag observed dial obs cid s =
     (case dcutr_recv_connect k max_packet_size (fst s) of
        (Inl err, stream) \<Rightarrow> (Some (Inl err), stream, snd s)
      | (Inr remote, stream) \<Rightarrow>
          (case punch_addrs tag observed remote [] [] of (laddrs, sync) \<Rightarrow>
           if sync = [] then (Some (Inr ()), stream, snd s)
           else (case dcutr_send_connect k laddrs stream of
                   (Inl err, stream) \<Rightarrow> (Some (Inl err), stream, snd s)
                 | (Inr _, stream) \<Rightarrow>
                     (case dcutr_recv_sync k max_packet_size stream of
                        (Inl err, stream) \<Rightarrow> (Some (Inl err), stream, snd s)
                      | (Inr _, stream) \<Rightarrow>
                          (case punch_each dial obs cid sync None (snd s) of
                             (r, pool) \<Rightarrow> (r, stream, pool))))))"


section \<open>Dialing through a relay\<close>

lemma act_lift_bind_Inr:
  "act_bind (act_lift r) f s = (Inr b, t) \<longleftrightarrow> (\<exists>a. r = Inr a \<and> f a s = (Inr b, t))"
  by (simp add: act_lift_bind split: sum.split)

lemma circuit_connect_Inr:
  "circuit_connect k mx cd d v ks signer ts uuid opened tls addr n = (Inr conn, n') \<longleftrightarrow>
     (\<exists>hop i stream local_addr limits stream'. addr = hop @ [P2pCircuit, P2p i] \<and> opened hop = Inr (stream, local_addr) \<and>
        circuit_v2_hop_connect k i mx stream = (Inr limits, stream') \<and>
        tls_connect d v ks signer ts (tls stream') uuid local_addr addr True n = (Inr conn, n'))"
  (is "?l \<longleftrightarrow> ?r")
proof
  assume ?l
  then obtain hop i stream local_addr where 1: "circuit_target addr = Inr (hop, i)" "opened hop = Inr (stream, local_addr)"
    by (auto simp: circuit_connect_def act_lift_bind_Inr map_err_Inr_iff)
  obtain r stream' where 2: "circuit_v2_hop_connect k i mx stream = (r, stream')" by fastforce
  from \<open>?l\<close> show ?r by (cases r) (auto simp: circuit_connect_def act_lift_bind 1 2 circuit_target_iff [symmetric])
next
  assume ?r
  then show ?l by (auto simp: circuit_connect_def act_lift_bind circuit_target_iff [symmetric])
qed

lemma tls_connect_Inl: "tls_connect d v ks signer ts net uuid la pa relay n = (Inl e, n') \<Longrightarrow> n' = n"
  by (cases ts) (auto simp: tls_connect_cases split: sum.splits)

lemma circuit_connect_Inl:
  "circuit_connect k mx cd d v ks signer ts uuid opened tls addr n = (Inl e, n') \<Longrightarrow> n' = n"
  by (auto simp: circuit_connect_def act_lift_bind dest: tls_connect_Inl split: prod.splits sum.splits)

lemma tls_connect_facts:
  assumes "tls_connect d v ks signer (t1, t2, t3) net uuid la pa relay n = (Inr conn, n')"
  shows "n' = n + 1 \<and> tc_local_addr conn = la \<and> tc_peer_addr conn = pa \<and> tc_is_relay conn = relay \<and>
    (\<exists>ip port. to_sockaddr pa = Inr (ip, port)) \<and>
    (\<exists>config ip der. tn_handshake net (tls_verify_callback v t2) config (Some ip) = Inr (Some (Inr der)) \<and>
       verify v t3 der = Inr (tc_public_key conn))"
  using assms
  by (auto simp: tls_connect_cases tls_conn_new_def and_then_Inr_iff map_err_Inr_iff peer_public_key_Inr split: sum.splits)
    blast+

text \<open>The transport accepts exactly the addresses that end in \<open>/p2p-circuit/p2p/<id>\<close>, which neither the
  TCP nor the QUIC transport takes. Its \<open>connect\<close> can only succeed for such an address. The
  relay, dialed by what stands before, was asked for exactly that id and confirmed; the connection is a relayed one with
  the full address, its key is the host key of a certificate presented over the circuit, and one activity
  is counted. It fails, after the relay has been asked, unless the relay's address starts with an IP address
  and a port. A failure counts nothing.\<close>

theorem circuit_dial:
  assumes "tag_law tag"
  shows "(circuit_hint addr \<longleftrightarrow> (\<exists>t. circuit_target addr = Inr t)) \<and>
    (circuit_hint addr \<longrightarrow> \<not> is_tcp_transport tag addr \<and> \<not> is_quic_transport tag addr) \<and>
    (case circuit_connect k mx cd d v ks signer (t1, t2, t3) uuid opened tls addr n of
       (Inl e, n') \<Rightarrow> n' = n
     | (Inr conn, n') \<Rightarrow>
         n' = n + 1 \<and> tc_is_relay conn \<and> tc_peer_addr conn = addr \<and> circuit_hint addr \<and> (\<exists>a. to_sockaddr addr = Inr a) \<and>
         (\<exists>hop i stream limits stream'. addr = hop @ [P2pCircuit, P2p i] \<and> opened hop = Inr (stream, tc_local_addr conn) \<and>
            circuit_v2_hop_connect k i mx stream = (Inr limits, stream') \<and>
            (\<exists>config ip der. tn_handshake (tls stream') (tls_verify_callback v t2) config (Some ip) = Inr (Some (Inr der)) \<and>
               verify v t3 der = Inr (tc_public_key conn))))"
proof (intro conjI impI, goal_cases)
  case 1
  show ?case by (auto simp: circuit_hint_iff circuit_target_iff)
next
  case 2
  then have "P2pCircuit \<in> set addr" by (auto simp: circuit_hint_iff)
  then show ?case by (simp add: tcp_stack_shape [OF assms])
next
  case 3
  then have "P2pCircuit \<in> set addr" by (auto simp: circuit_hint_iff)
  then show ?case by (simp add: quic_stack_shape [OF assms])
next
  case 4
  obtain r n' where r: "circuit_connect k mx cd d v ks signer (t1, t2, t3) uuid opened tls addr n = (r, n')" by fastforce
  show ?case
  proof (cases r)
    case (Inl e)
    with r circuit_connect_Inl show ?thesis by fastforce
  next
    case (Inr conn)
    with r obtain hop i stream local_addr limits stream' where c: "addr = hop @ [P2pCircuit, P2p i]"
      "opened hop = Inr (stream, local_addr)" "circuit_v2_hop_connect k i mx stream = (Inr limits, stream')"
      and t: "tls_connect d v ks signer (t1, t2, t3) (tls stream') uuid local_addr addr True n = (Inr conn, n')"
      by (auto simp: circuit_connect_Inr)
    from tls_connect_facts [OF t] c have "n' = n + 1 \<and> tc_is_relay conn \<and> tc_peer_addr conn = addr \<and> circuit_hint addr \<and>
      (\<exists>a. to_sockaddr addr = Inr a) \<and>
         (\<exists>hop i stream limits stream'. addr = hop @ [P2pCircuit, P2p i] \<and> opened hop = Inr (stream, tc_local_addr conn) \<and>
            circuit_v2_hop_connect k i mx stream = (Inr limits, stream') \<and>
            (\<exists>config ip der. tn_handshake (tls stream') (tls_verify_callback v t2) config (Some ip) = Inr (Some (Inr der)) \<and>
               verify v t3 der = Inr (tc_public_key conn)))"
      by (simp add: circuit_hint_iff)
    with Inr r show ?thesis by simp
  qed
qed

theorem circuit_dial_witness:
  "circuit_hint [Ip4 1, Tcp 2, P2pCircuit, P2p (PeerId 3)] \<and> \<not> is_tcp_transport std_tag [Ip4 1, Tcp 2, P2pCircuit, P2p (PeerId 3)]"
  using circuit_dial [OF tag_law_std, of "[Ip4 1, Tcp 2, P2pCircuit, P2p (PeerId 3)]"]
  by (simp add: circuit_hint_iff)

section \<open>The two ends of a circuit\<close>

definition hop_request :: "circuit_codec \<Rightarrow> peer_id \<Rightarrow> hop_message" where
  "hop_request k i = hop_new\<lparr>hm_type := Some HopConnect, hm_peer := Some \<lparr>pf_id = Some (cc_id_bytes k i), pf_addrs = []\<rparr>\<rparr>"

lemma hop_connect_frame:
  assumes "circuit_law k" and "cc_wr_hop k (hop_request k i) = Inr req" and "st_room s = None"
    and "cc_wr_hop k m = Inr buf" and "length buf \<le> n" and "st_in s = cc_enc k (length buf) @ buf @ rest"
    and "hm_type m = Some HopStatus" and "hm_status m = Some StOK"
  shows "circuit_v2_hop_connect k i n s =
    (Inr (map_option limit_of_proto (hm_limit m)), s\<lparr>st_out := st_out s @ cc_enc k (length req) @ req, st_in := rest\<rparr>)"
  using xstack_call_frame [OF circuit_lawD(1,2) [OF assms(1)] assms(2,3,4-6)] assms(7,8)
  by (simp add: circuit_v2_hop_connect_def hop_request_def [symmetric] act_bind_def hop_call_def check_status_def)

lemma tls_accept_facts:
  assumes "tls_accept d v (t2, t3) net uuid acceptor la pa relay n = (r, n')"
  shows "case r of Inl e \<Rightarrow> n' = n
    | Inr conn \<Rightarrow> n' = n + 1 \<and> tc_is_relay conn = relay \<and>
        (\<exists>der. tn_handshake net (tls_verify_callback v t2) acceptor None = Inr (Some (Inr der)) \<and> verify v t3 der = Inr (tc_public_key conn))"
  using assms
  by (auto simp: tls_accept_cases tls_conn_new_def and_then_Inr_iff map_err_Inr_iff peer_public_key_Inr split: sum.splits)

lemma tls_accept_addrs:
  assumes "tls_accept d v (t2, t3) net uuid acceptor la pa relay n = (Inr conn, n')"
  shows "tc_local_addr conn = la" "tc_peer_addr conn = pa" "tc_id conn = uuid"
  using assms by (auto simp: tls_accept_cases tls_conn_new_def split: sum.splits)

lemma stop_incoming_cases:
  "handle_stop_incoming k mx cd d v ks signer (t1, t2, t3) uuid checks tls stream la pa (n, ch) =
     (case circuit_v2_stop_connect_accept k mx stream of
        (Inl err, _) \<Rightarrow> (Inl (circuit_error_to_io cd err), n, ch)
      | (Inr limits, stream) \<Rightarrow>
          (case create_ssl_config d v signer t1 ks checks of
             Inl err \<Rightarrow> (Inl err, n, ch)
           | Inr acceptor \<Rightarrow>
               (case tls_accept d v (t2, t3) (tls stream) uuid acceptor la pa True n of
                  (Inl err, n') \<Rightarrow> (Inl err, n', ch)
                | (Inr conn, n') \<Rightarrow> channel_send conn (n', ch))))"
  by (simp add: handle_stop_incoming_def split: prod.split sum.split)

text \<open>C35: A circuit, end to end. The dialer is given the relay by an address that starts with its IP address and port (\<open>to_sockaddr\<close>
  takes it, as the TLS connection needs a server name), then \<open>/p2p-circuit\<close> and a peer id. It opens a stream to the relay, the relay
  confirms, and it has opened a stream to the node
  with the stop protocol; then the bytes pass between the two. When both present certificates that they made within the
  last four seconds, the messages fit in the packet limit and the node's listener still takes connections, the dialer gets a relayed connection with the host key of the node, and the node's listener gets one more
  relayed connection, with the host key of the dialer. This holds whatever peer id the dialer asked
  for: it does not compare the key of its connection with that id.\<close>

theorem circuit_session:
  assumes "circuit_law k" and "x509_law v" and "keystore_law v ks_c client" and "keystore_law v ks_s server"
    and "create_ssl_config d v sg_c t1 ks_c (\<lambda>_. Inr ()) = Inr cfg_c" and "create_ssl_config d v sg_s u1 ks_s checks = Inr cfg_s"
    and "u1 \<le> t2 \<and> t2 \<le> u1 + 4 * 10 ^ 9" and "u1 \<le> t3 \<and> t3 \<le> u1 + 4 * 10 ^ 9"
    and "t1 \<le> u2 \<and> u2 \<le> t1 + 4 * 10 ^ 9" and "t1 \<le> u3 \<and> u3 \<le> t1 + 4 * 10 ^ 9"
    and "to_sockaddr (hop @ [P2pCircuit, P2p i]) = Inr a" and "opened hop = Inr (sc, la)" and "st_room sc = None"
    and "cc_wr_hop k (hop_request k i) = Inr req" and "cc_wr_hop k ok = Inr okbuf" and "length okbuf \<le> mx"
    and "hm_type ok = Some HopStatus" and "hm_status ok = Some StOK" and "st_in sc = cc_enc k (length okbuf) @ okbuf @ rest"
    and "cc_wr_stop k stop = Inr sbuf" and "length sbuf \<le> mx" and "sm_type stop = Some StopConnect"
    and "cc_wr_stop k stop_accepted = Inr rep" and "st_room ss = None" and "st_in ss = cc_enc k (length sbuf) @ sbuf @ rest2"
    and "sc_receiver ch"
  shows "(\<exists>c. circuit_connect k mx cd d v ks_c sg_c (t1, t2, t3) id1 opened (\<lambda>_. honest_net cfg_s) (hop @ [P2pCircuit, P2p i]) n = (Inr c, n + 1) \<and>
        tc_public_key c = server \<and> tc_is_relay c) \<and>
    (\<exists>c. handle_stop_incoming k mx cd d v ks_s sg_s (u1, u2, u3) id2 checks (\<lambda>_. honest_net cfg_c) ss la2 pa2 (m, ch) =
          (Inr (), m + 1, ch\<lparr>sc_queue := sc_queue ch @ [c]\<rparr>) \<and>
        tc_public_key c = client \<and> tc_is_relay c)"
proof
  have s: "verify v t2 (tl_cert cfg_s) = Inr server" "verify v t3 (tl_cert cfg_s) = Inr server"
    using config_cert [OF assms(2,4,6)] assms(7,8) by blast+
  have c: "verify v u2 (tl_cert cfg_c) = Inr client" "verify v u3 (tl_cert cfg_c) = Inr client"
    using config_cert [OF assms(2,3,5)] assms(9,10) by blast+
  note hop = hop_connect_frame [OF assms(1,14,13,15,16,19,17,18)]
  have "circuit_connect k mx cd d v ks_c sg_c (t1, t2, t3) id1 opened (\<lambda>_. honest_net cfg_s) (hop @ [P2pCircuit, P2p i]) n =
      (Inr (fst (tls_conn_new id1 server la (hop @ [P2pCircuit, P2p i]) True n)), n + 1)"
    unfolding circuit_connect_Inr using hop assms(12) tls_connect_honest [OF s assms(5,11)] by blast
  then show "\<exists>c. circuit_connect k mx cd d v ks_c sg_c (t1, t2, t3) id1 opened (\<lambda>_. honest_net cfg_s) (hop @ [P2pCircuit, P2p i]) n = (Inr c, n + 1) \<and>
        tc_public_key c = server \<and> tc_is_relay c"
    by (simp add: tls_conn_new_def)
  note stop = stop_accept_frame [OF assms(1,20,21,22,23,24,25)]
  show "\<exists>c. handle_stop_incoming k mx cd d v ks_s sg_s (u1, u2, u3) id2 checks (\<lambda>_. honest_net cfg_c) ss la2 pa2 (m, ch) =
          (Inr (), m + 1, ch\<lparr>sc_queue := sc_queue ch @ [c]\<rparr>) \<and> tc_public_key c = client \<and> tc_is_relay c"
    using assms(6,26)
    by (intro exI [of _ "fst (tls_conn_new id2 client la2 pa2 True m)"])
      (simp add: stop_incoming_cases stop tls_accept_honest [OF c] channel_send_def tls_conn_new_def)
qed

definition hop_ok :: hop_message where
  "hop_ok = hop_new\<lparr>hm_type := Some HopStatus, hm_status := Some StOK\<rparr>"

theorem circuit_session_witness:
  "\<exists>c. circuit_connect (sample_codec [hop_request (sample_codec [] [] []) (PeerId 8), hop_ok]
         [stop_accepted, stop_request (sample_codec [] [] []) (PeerId 2)] []) 9 (\<lambda>_. []) (\<lambda>_. [])
       (toy_env toy_generated) (memory_keystore (PublicKey 3) Inr) 0 (0, 1, 2) ''c'' (\<lambda>_. Inr (quiet\<lparr>st_in := [1, 0]\<rparr>, []))
       (\<lambda>_. honest_net \<lparr>tl_cert = [1], tl_key = [9]\<rparr>) [Ip4 1, Tcp 2, P2pCircuit, P2p (PeerId 8)] 0 = (Inr c, 1) \<and>
     some_key_peer (tc_public_key c) \<noteq> PeerId 8"
proof -
  let ?req = "hop_request (sample_codec [] [] []) (PeerId 8)" and ?stop = "stop_request (sample_codec [] [] []) (PeerId 2)"
  let ?k = "sample_codec [?req, hop_ok] [stop_accepted, ?stop] []"
  let ?sc = "quiet\<lparr>st_in := [1, 0]\<rparr>"
  have a: "to_sockaddr ([Ip4 1, Tcp 2] @ [P2pCircuit, P2p (PeerId 8)]) = Inr (V4 1, 2)" by simp
  have req: "hop_request ?k (PeerId 8) = ?req" by (simp add: hop_request_def sample_codec_def)
  have ne: "?req \<noteq> hop_ok" "stop_accepted \<noteq> ?stop"
    by (simp_all add: hop_request_def hop_ok_def hop_new_def stop_request_def stop_accepted_def stop_new_def)
  have wr: "cc_wr_hop ?k (hop_request ?k (PeerId 8)) = Inr []" "cc_wr_hop ?k hop_ok = Inr [0]"
      "cc_wr_stop ?k ?stop = Inr [0]" "cc_wr_stop ?k stop_accepted = Inr []"
    unfolding req using ne by (simp_all add: sample_codec_def list_wr_def)
  have enc: "cc_enc ?k (Suc 0) = [1]" by (simp add: sample_codec_def leb.simps)
  have io: "st_in ?sc = cc_enc ?k (length ([0] :: bytes)) @ [0] @ []" by (simp add: enc)
  have room: "st_room ?sc = None" by (simp add: quiet_def)
  have t: "hm_type hop_ok = Some HopStatus" "hm_status hop_ok = Some StOK" "sm_type ?stop = Some StopConnect"
    by (simp_all add: hop_ok_def stop_request_def)
  show ?thesis
    using conjunct1 [OF circuit_session [OF sample_codec_law toy_env_law toy_keystore toy_keystore toy_config toy_config _ _ _ _ a _ room
      wr(1,2) _ t(1,2) io wr(3) _ t(3) wr(4) room io, where ?t2.0 = 1 and ?t3.0 = 2 and ?u2.0 = 1 and ?u3.0 = 2 and ?mx = 9 and
        opened = "\<lambda>_. Inr (?sc, [])" and la = "[]" and n = 0 and ?id1.0 = "''c''" and ch = "\<lparr>sc_queue = [], sc_receiver = True, sc_senders = True\<rparr>" and cd = "\<lambda>_. []" and d = "\<lambda>_. []"]]
    by fastforce
qed

text \<open>What the node accepts. Handling a stop stream either fails and leaves the counter of active connections and the queue as
  they are, or puts one connection at the end of the queue of the listener: one that asked with a stop
  CONNECT message, that is marked as relayed, and whose key is the host key of a certificate presented over the circuit.\<close>

theorem stop_incoming_exact:
  "case handle_stop_incoming k mx cd d v ks signer (t1, t2, t3) uuid checks tls stream la pa (n, ch) of
     (Inl e, n', ch') \<Rightarrow> n' = n \<and> ch' = ch
   | (Inr _, n', ch') \<Rightarrow> n' = n + 1 \<and> sc_receiver ch \<and>
       (\<exists>conn limits stream' config der. ch' = ch\<lparr>sc_queue := sc_queue ch @ [conn]\<rparr> \<and>
          circuit_v2_stop_connect_accept k mx stream = (Inr limits, stream') \<and> tc_is_relay conn \<and>
          tn_handshake (tls stream') (tls_verify_callback v t2) config None = Inr (Some (Inr der)) \<and>
          verify v t3 der = Inr (tc_public_key conn))"
proof -
  obtain r1 stream' where 1: "circuit_v2_stop_connect_accept k mx stream = (r1, stream')" by fastforce
  show ?thesis
  proof (cases r1)
    case (Inl e)
    then show ?thesis by (simp add: stop_incoming_cases 1)
  next
    case r1: (Inr limits)
    show ?thesis
    proof (cases "create_ssl_config d v signer t1 ks checks")
      case (Inl e)
      then show ?thesis by (simp add: stop_incoming_cases 1 r1)
    next
      case config: (Inr acceptor)
      obtain r2 n' where 2: "tls_accept d v (t2, t3) (tls stream') uuid acceptor la pa True n = (r2, n')" by fastforce
      show ?thesis
      proof (cases r2)
        case (Inl e)
        with 2 tls_accept_facts [OF 2] show ?thesis by (simp add: stop_incoming_cases 1 r1 config)
      next
        case (Inr conn)
        with tls_accept_facts [OF 2] have f: "n' = n + 1" "tc_is_relay conn"
          "\<exists>der. tn_handshake (tls stream') (tls_verify_callback v t2) acceptor None = Inr (Some (Inr der)) \<and> verify v t3 der = Inr (tc_public_key conn)"
          by simp_all
        show ?thesis
          using f(2,3)
          by (simp add: stop_incoming_cases 1 r1 config 2 Inr channel_send_def fetch_sub_def f(1)) blast
      qed
    qed
  qed
qed

section \<open>Hole punching\<close>

lemma punch_addrs_eq:
  "punch_addrs tag observed remote laddrs sync =
     (case find (is_quic_transport tag) observed of
        None \<Rightarrow> (laddrs, sync)
      | Some own \<Rightarrow> (laddrs @ replicate (length (filter (is_quic_transport tag) remote)) own, sync @ filter (is_quic_transport tag) remote))"
  by (induction tag observed remote laddrs sync rule: punch_addrs.induct) (auto split: option.splits)

lemma punch_each_fail:
  "\<forall>a\<in>set as. \<exists>e. dial a = Inl e \<Longrightarrow>
     punch_each dial obs cid (as @ [a]) le pool = punch_each dial obs cid [a] le pool"
proof (induction as arbitrary: le)
  case (Cons b as)
  then obtain e where "dial b = Inl e" by auto
  with Cons.IH [of "Some e"] Cons.prems show ?case by (cases "dial a") simp_all
qed simp

lemma punch_each_first:
  "\<forall>a\<in>set as. \<exists>e. dial a = Inl e \<Longrightarrow> dial a = Inr conn \<Longrightarrow>
     punch_each dial obs cid (as @ a # bs) le pool =
       (case pool_replace obs conn cid False pool of None \<Rightarrow> (None, pool) | Some pool \<Rightarrow> (Some (Inr ()), pool))"
  by (induction as arbitrary: le) auto

lemma pool_replace_good:
  assumes "pool_good C pool" and "conn \<in> C"
  shows "\<exists>pool'. pool_replace obs conn cid inbound pool = Some pool' \<and> pool_good C pool' \<and> holds_conn pool' conn \<and>
    (\<forall>c. holds_conn pool' c \<longrightarrow> conn_id c \<noteq> cid \<or> c = conn)"
proof -
  from assms(1) have ok: "pool_ok C pool" "inj_on conn_id C" by (simp_all add: pool_good_def)
  from pool_remove_ok [OF ok(1), of obs cid] obtain s1 where
    s1: "pool_remove obs cid pool = Some s1" "pool_ok C s1" "conns s1 = (conns pool)(cid := None)" by blast
  from pool_add_ok [OF s1(2) assms(2) ok(2), of obs inbound] obtain s2 where
    s2: "pool_add obs conn inbound s1 = Some s2" "pool_ok C s2" "conns s2 = ((conns s1) |` (- dropped obs s1))(conn_id conn \<mapsto> conn)" by blast
  from s1 s2 ok(2) have "pool_replace obs conn cid inbound pool = Some s2" "pool_good C s2" by (simp_all add: pool_replace_def pool_good_def)
  moreover have "holds_conn s2 conn" by (simp add: holds_conn_def s2(3))
  moreover have "holds_conn s2 c \<Longrightarrow> conn_id c \<noteq> cid \<or> c = conn" for c
    by (auto simp: holds_conn_def s2(3) s1(3) restrict_map_def split: if_splits)
  ultimately show ?thesis by blast
qed

text \<open>C39: The hole punching of a node. It offers one address for each QUIC address of the peer, always the first QUIC address that
  peers observed of it; without any on either side it sends nothing and leaves the connections as they are. After the
  peer's SYNC it dials the QUIC addresses in their order. The first connection takes the place
  of the relayed one in the pool, which stays consistent; when every dial fails the pool is unchanged and
  the error is the last one.\<close>

theorem dcutr_upgrade:
  assumes "dcutr_recv_connect k mx s = (Inr remote, s1)"
    and "quics = filter (is_quic_transport tag) remote" and "own = find (is_quic_transport tag) observed"
  shows "(quics = [] \<or> own = None \<longrightarrow> upgrade k mx tag observed dial obs cid (s, pool) = (Some (Inr ()), s1, pool)) \<and>
    (\<forall>a s2 s3. own = Some a \<and> quics \<noteq> [] \<and> dcutr_send_connect k (replicate (length quics) a) s1 = (Inr (), s2) \<and>
        dcutr_recv_sync k mx s2 = (Inr (), s3) \<longrightarrow>
      (\<forall>pre b post conn C. quics = pre @ b # post \<and> (\<forall>p\<in>set pre. \<exists>e. dial p = Inl e) \<and> dial b = Inr conn \<and>
          pool_good C pool \<and> conn \<in> C \<longrightarrow>
        (\<exists>pool'. upgrade k mx tag observed dial obs cid (s, pool) = (Some (Inr ()), s3, pool') \<and> pool_good C pool' \<and>
           holds_conn pool' conn \<and> (\<forall>c. holds_conn pool' c \<longrightarrow> conn_id c \<noteq> cid \<or> c = conn))) \<and>
      (\<forall>e. (\<forall>p\<in>set quics. \<exists>e. dial p = Inl e) \<and> dial (last quics) = Inl e \<longrightarrow>
        upgrade k mx tag observed dial obs cid (s, pool) = (Some (Inl (XStackError e)), s3, pool)))"
proof (intro conjI allI impI, goal_cases)
  case 1
  then show ?case by (auto simp: upgrade_def assms punch_addrs_eq split: option.split)
next
  case (2 a s2 s3 pre b post conn C)
  have up: "upgrade k mx tag observed dial obs cid (s, pool) =
      (case punch_each dial obs cid quics None pool of (r, pool) \<Rightarrow> (r, s3, pool))"
    using 2(1) by (simp add: upgrade_def assms(1) punch_addrs_eq assms(3) [symmetric]) (simp add: assms(2) [symmetric])
  have "pool_good C pool" "conn \<in> C" using 2(2) by simp_all
  from pool_replace_good [OF this, of obs cid False] obtain pool' where
    "pool_replace obs conn cid False pool = Some pool'" "pool_good C pool'" "holds_conn pool' conn"
    "\<forall>c. holds_conn pool' c \<longrightarrow> conn_id c \<noteq> cid \<or> c = conn" by blast
  with 2(2) show ?case by (simp add: up punch_each_first)
next
  case (3 a s2 s3 e)
  have up: "upgrade k mx tag observed dial obs cid (s, pool) =
      (case punch_each dial obs cid quics None pool of (r, pool) \<Rightarrow> (r, s3, pool))"
    using 3(1) by (simp add: upgrade_def assms(1) punch_addrs_eq assms(3) [symmetric]) (simp add: assms(2) [symmetric])
  from 3(1) obtain xs b where q: "quics = xs @ [b]" by (metis rev_exhaust)
  with 3(2) have "punch_each dial obs cid quics None pool = (Some (Inl (XStackError e)), pool)"
    by (simp add: punch_each_fail)
  then show ?case by (simp add: up)
qed

theorem dcutr_upgrade_witness:
  "upgrade (sample_codec [] [] [punch_new\<lparr>hp_type := Some PunchSync\<rparr>, punch_new\<lparr>hp_type := Some PunchConnect, hp_obs_addrs := []\<rparr>]) 9
     std_tag [[Ip4 1, Udp 2, QuicV1]] (\<lambda>_. Inl Timeout) all_idle ''c'' (quiet\<lparr>st_in := [1, 0]\<rparr>, pool_default) =
   (Some (Inr ()), quiet, pool_default)"
proof -
  let ?c = "punch_new\<lparr>hp_type := Some PunchConnect, hp_obs_addrs := []\<rparr>"
  let ?k = "sample_codec [] [] [punch_new\<lparr>hp_type := Some PunchSync\<rparr>, ?c]"
  have wr: "cc_wr_punch ?k ?c = Inr [0]" by (simp add: sample_codec_def list_wr_def punch_new_def)
  have io: "st_in (quiet\<lparr>st_in := [1, 0]\<rparr>) = cc_enc ?k (length ([0] :: bytes)) @ [0] @ []"
    by (simp add: sample_codec_def leb.simps)
  have "dcutr_recv_connect ?k 9 (quiet\<lparr>st_in := [1, 0]\<rparr>) = (Inr [], quiet)"
    using xstack_recv_frame [OF circuit_lawD(1,4) [OF sample_codec_law] wr _ io, of 9]
    by (simp add: dcutr_recv_connect_def act_bind_def parse_addrs_def quiet_def)
  from conjunct1 [OF dcutr_upgrade [OF this refl refl, of std_tag "[[Ip4 1, Udp 2, QuicV1]]" "\<lambda>_. Inl Timeout" all_idle "''c''" pool_default]]
  show ?thesis by simp
qed

end
