(* ===== verification/CircuitStop.thy ===== *)
theory CircuitStop
  imports CircuitRpc SwitchCore
begin

text \<open>
  \<open>circuit/src/protocols/stop.rs\<close>: the server that keeps reservations at relays while the node is behind a NAT. Up to
  \<open>channel_limits\<close> tasks run \<open>reservation_client_loop\<close>; each chooses a relay, reserves, and pings the relay until the
  reservation expires, the ping fails or the node is no longer behind a NAT. When a task ends,
  \<open>run_reservation_client\<close> fills the free slots.

  The tasks share the counter of reservations and the NAT addresses of the switch. A step is what one task does between
  two of its waits for the network or the clock; the locks of the switch are taken without waiting. The clock is in
  seconds, as the expiry of a reservation is.
\<close>

section \<open>The server's configuration\<close>

record stop_config =
  sc_incoming_buffer :: nat
  sc_channel_limits :: nat
  sc_ping_secs :: nat

definition stop_bind_with :: stop_config where
  "stop_bind_with = \<lparr>sc_incoming_buffer = 100, sc_channel_limits = 1, sc_ping_secs = 5\<rparr>"

definition set_incoming_buffer :: "nat \<Rightarrow> stop_config \<Rightarrow> stop_config" where
  "set_incoming_buffer value b = b\<lparr>sc_incoming_buffer := value\<rparr>"

text \<open>The value is a \<open>NonZeroUsize\<close>.\<close>

definition set_channel_limits :: "nat \<Rightarrow> stop_config \<Rightarrow> stop_config" where
  "set_channel_limits value b = b\<lparr>sc_channel_limits := value\<rparr>"

section \<open>Tasks\<close>

text \<open>What a task waits for.\<close>

datatype task_wait =
    WChoose
  | WSleep
  | WHopConnect peer_id
  | WReserve peer_id
  | WPingOpen reservation
  | WPing reservation
  | WPingSleep reservation

record hop_client =
  hc_reservations :: "64 word"
  hc_switch :: mutable_switch
  hc_tasks :: "(nat \<times> task_wait) list"
  hc_next :: nat

text \<open>What happens: the answer that a task gets, or a change of the NAT state.\<close>

datatype hop_event =
    Chosen nat "io_error + peer_id list"
  | Slept nat
  | HopConnected nat "io_error + unit"
  | Reserved nat "io_error + reservation"
  | PingOpened nat "io_error + nat"
  | Pinged nat "io_error + unit"
  | Woke nat nat
  | NatChanged auto_nat
  | Restart

definition circuit_addrs :: "reservation \<Rightarrow> multiaddr list" where
  "circuit_addrs r = map (\<lambda>addr. addr_with addr P2pCircuit) (rs_addrs r)"

definition task_set :: "nat \<Rightarrow> task_wait \<Rightarrow> hop_client \<Rightarrow> hop_client" where
  "task_set i w s = s\<lparr>hc_tasks := map (\<lambda>(j, v). if j = i then (j, w) else (j, v)) (hc_tasks s)\<rparr>"

text \<open>\<open>run_reservation_client\<close>: the first tasks, and what it does when a task has ended.\<close>

definition client_start :: "nat \<Rightarrow> hop_client \<Rightarrow> hop_client" where
  "client_start limit s = s\<lparr>hc_tasks := map (\<lambda>i. (i, WChoose)) [0..<limit], hc_next := limit\<rparr>"

definition refill :: "nat \<Rightarrow> hop_client \<Rightarrow> hop_client" where
  "refill limit s =
     (let free = limit - length (hc_tasks s) in
      s\<lparr>hc_tasks := hc_tasks s @ map (\<lambda>i. (i, WChoose)) [hc_next s..<hc_next s + free], hc_next := hc_next s + free\<rparr>)"

definition task_end :: "nat \<Rightarrow> nat \<Rightarrow> hop_client \<Rightarrow> hop_client" where
  "task_end limit i s =
     (let s = s\<lparr>hc_tasks := filter (\<lambda>(j, _). j \<noteq> i) (hc_tasks s)\<rparr>
      in if ms_nat (hc_switch s) = NAT then refill limit s else s)"

definition count_up :: "hop_client \<Rightarrow> hop_client" where
  "count_up s = s\<lparr>hc_reservations := hc_reservations s + 1\<rparr>"

definition count_down :: "hop_client \<Rightarrow> hop_client" where
  "count_down s = s\<lparr>hc_reservations := hc_reservations s - 1\<rparr>"

definition switch_do :: "(mutable_switch \<Rightarrow> mutable_switch) \<Rightarrow> hop_client \<Rightarrow> hop_client" where
  "switch_do f s = s\<lparr>hc_switch := f (hc_switch s)\<rparr>"

text \<open>The test of the ping loop, and the end of a reservation that has expired.\<close>

definition ping_head :: "nat \<Rightarrow> nat \<Rightarrow> nat \<Rightarrow> reservation \<Rightarrow> hop_client \<Rightarrow> hop_client" where
  "ping_head limit i now r s =
     (if now < rs_expire r then task_set i (WPing r) s
      else task_end limit i (switch_do (remove_net_addrs (circuit_addrs r)) s))"

fun hop_do :: "nat \<Rightarrow> hop_event \<Rightarrow> hop_client \<Rightarrow> hop_client option" where
  "hop_do limit (Chosen i peers) s =
     (case map_of (hc_tasks s) i of
        Some WChoose \<Rightarrow>
          Some (case peers of
                  Inl _ \<Rightarrow> task_end limit i s
                | Inr [] \<Rightarrow> task_set i WSleep s
                | Inr (peer # _) \<Rightarrow> task_set i (WHopConnect peer) s)
      | _ \<Rightarrow> None)"
| "hop_do limit (Slept i) s =
     (case map_of (hc_tasks s) i of Some WSleep \<Rightarrow> Some (task_end limit i s) | _ \<Rightarrow> None)"
| "hop_do limit (HopConnected i res) s =
     (case map_of (hc_tasks s) i of
        Some (WHopConnect peer) \<Rightarrow>
          Some (case res of Inl _ \<Rightarrow> task_end limit i s | Inr _ \<Rightarrow> task_set i (WReserve peer) s)
      | _ \<Rightarrow> None)"
| "hop_do limit (Reserved i res) s =
     (case map_of (hc_tasks s) i of
        Some (WReserve peer) \<Rightarrow>
          Some (case res of Inl _ \<Rightarrow> task_end limit i s | Inr r \<Rightarrow> task_set i (WPingOpen r) (count_up s))
      | _ \<Rightarrow> None)"
| "hop_do limit (PingOpened i res) s =
     (case map_of (hc_tasks s) i of
        Some (WPingOpen r) \<Rightarrow>
          Some (case res of
                  Inl _ \<Rightarrow> task_end limit i (count_down s)
                | Inr now \<Rightarrow> ping_head limit i now r (switch_do (set_net_addrs (circuit_addrs r)) s))
      | _ \<Rightarrow> None)"
| "hop_do limit (Pinged i res) s =
     (case map_of (hc_tasks s) i of
        Some (WPing r) \<Rightarrow>
          Some (case res of
                  Inl _ \<Rightarrow> task_end limit i (switch_do (remove_net_addrs (circuit_addrs r)) (count_down s))
                | Inr _ \<Rightarrow>
                    (if ms_nat (hc_switch s) \<noteq> NAT then task_end limit i (count_down s)
                     else task_set i (WPingSleep r) s))
      | _ \<Rightarrow> None)"
| "hop_do limit (Woke i now) s =
     (case map_of (hc_tasks s) i of
        Some (WPingSleep r) \<Rightarrow> Some (ping_head limit i now r s)
      | _ \<Rightarrow> None)"
| "hop_do limit (NatChanged state) s = Some (switch_do (set_nat state) s)"
| "hop_do limit Restart s =
     (if hc_tasks s = [] \<and> ms_nat (hc_switch s) = NAT then Some (client_start limit s) else None)"

fun hop_run :: "nat \<Rightarrow> hop_event list \<Rightarrow> hop_client \<Rightarrow> hop_client option" where
  "hop_run limit [] s = Some s"
| "hop_run limit (e # es) s = Option.bind (hop_do limit e s) (hop_run limit es)"

section \<open>Accounting\<close>

fun holding :: "task_wait \<Rightarrow> bool" where
  "holding (WPingOpen _) = True"
| "holding (WPing _) = True"
| "holding (WPingSleep _) = True"
| "holding _ = False"

definition held :: "hop_client \<Rightarrow> nat" where
  "held s = length (filter (holding \<circ> snd) (hc_tasks s))"

text \<open>Is this the step at which a reservation expires? And how many do in a run.\<close>

fun expires :: "hop_event \<Rightarrow> hop_client \<Rightarrow> bool" where
  "expires (PingOpened i (Inr now)) s =
     (case map_of (hc_tasks s) i of Some (WPingOpen r) \<Rightarrow> rs_expire r \<le> now | _ \<Rightarrow> False)"
| "expires (Woke i now) s =
     (case map_of (hc_tasks s) i of Some (WPingSleep r) \<Rightarrow> rs_expire r \<le> now | _ \<Rightarrow> False)"
| "expires _ _ = False"

fun expired :: "nat \<Rightarrow> hop_event list \<Rightarrow> hop_client \<Rightarrow> nat" where
  "expired limit [] s = 0"
| "expired limit (e # es) s =
     (if expires e s then 1 else 0) + (case hop_do limit e s of None \<Rightarrow> 0 | Some s \<Rightarrow> expired limit es s)"

definition tasks_ok :: "nat \<Rightarrow> hop_client \<Rightarrow> bool" where
  "tasks_ok limit s \<longleftrightarrow> distinct (map fst (hc_tasks s)) \<and> (\<forall>t\<in>set (hc_tasks s). fst t < hc_next s) \<and> length (hc_tasks s) \<le> limit"

definition client_new :: "mutable_switch \<Rightarrow> hop_client" where
  "client_new m = \<lparr>hc_reservations = 0, hc_switch = m, hc_tasks = [], hc_next = 0\<rparr>"

lemma task_split:
  assumes "distinct (map fst ts)" and "map_of ts i = Some v"
  obtains pre post where "ts = pre @ (i, v) # post" "i \<notin> fst ` set pre" "i \<notin> fst ` set post"
proof -
  from assms(2) have "(i, v) \<in> set ts" by (rule map_of_SomeD)
  then obtain pre post where ts: "ts = pre @ (i, v) # post" by (meson split_list)
  with assms(1) that show thesis by simp
qed

lemma map_other: "i \<notin> fst ` set ts \<Longrightarrow> map (\<lambda>(j, v). if j = i then (j, w) else (j, v)) ts = ts"
  by (rule map_idI) (auto simp: rev_image_eqI)

lemma filter_other: "i \<notin> fst ` set ts \<Longrightarrow> filter (\<lambda>(j, _). j \<noteq> i) ts = ts"
  by (rule filter_True) (auto simp: rev_image_eqI)

abbreviation holds :: "task_wait \<Rightarrow> nat" where
  "holds w \<equiv> (if holding w then 1 else 0)"

lemma tasks_okD: "tasks_ok limit s \<Longrightarrow> distinct (map fst (hc_tasks s))"
  by (simp add: tasks_ok_def)

lemma task_set_held:
  assumes "tasks_ok limit s" and "map_of (hc_tasks s) i = Some v"
  shows "held (task_set i w s) + holds v = held s + holds w" "tasks_ok limit (task_set i w s)"
    "hc_reservations (task_set i w s) = hc_reservations s" "hc_switch (task_set i w s) = hc_switch s"
proof -
  from task_split [OF tasks_okD [OF assms(1)] assms(2)] obtain pre post where
    ts: "hc_tasks s = pre @ (i, v) # post" "i \<notin> fst ` set pre" "i \<notin> fst ` set post" .
  then have new: "hc_tasks (task_set i w s) = pre @ (i, w) # post" "hc_next (task_set i w s) = hc_next s"
    by (simp_all add: task_set_def map_other)
  from ts new show "held (task_set i w s) + holds v = held s + holds w" by (simp add: held_def)
  from ts new assms(1) show "tasks_ok limit (task_set i w s)" by (simp add: tasks_ok_def)
qed (simp_all add: task_set_def)

lemma refill_held:
  assumes "tasks_ok limit s"
  shows "held (refill limit s) = held s" "tasks_ok limit (refill limit s)" "length (hc_tasks (refill limit s)) = limit"
    "hc_reservations (refill limit s) = hc_reservations s" "hc_switch (refill limit s) = hc_switch s"
proof -
  have "filter (holding \<circ> snd) (map (\<lambda>i. (i, WChoose)) ns) = []" for ns :: "nat list" by (induction ns) simp_all
  then show "held (refill limit s) = held s" by (simp add: held_def refill_def Let_def)
  from assms show "tasks_ok limit (refill limit s)"
    by (auto simp: tasks_ok_def refill_def Let_def comp_def distinct_map inj_on_def)
  from assms show "length (hc_tasks (refill limit s)) = limit" by (simp add: tasks_ok_def refill_def Let_def)
qed (simp_all add: refill_def Let_def)

lemma task_end_held:
  assumes "tasks_ok limit s" and "map_of (hc_tasks s) i = Some v"
  shows "held (task_end limit i s) + holds v = held s" "tasks_ok limit (task_end limit i s)"
    "ms_nat (hc_switch s) = NAT \<Longrightarrow> length (hc_tasks (task_end limit i s)) = limit"
    "hc_reservations (task_end limit i s) = hc_reservations s" "hc_switch (task_end limit i s) = hc_switch s"
proof -
  from task_split [OF tasks_okD [OF assms(1)] assms(2)] obtain pre post where
    ts: "hc_tasks s = pre @ (i, v) # post" "i \<notin> fst ` set pre" "i \<notin> fst ` set post" .
  let ?s = "s\<lparr>hc_tasks := filter (\<lambda>(j, _). j \<noteq> i) (hc_tasks s)\<rparr>"
  have new: "hc_tasks ?s = pre @ post" using ts by (simp add: filter_other)
  then have held: "held ?s + holds v = held s" using ts by (simp add: held_def)
  have ok: "tasks_ok limit ?s" using assms(1) ts new by (auto simp: tasks_ok_def)
  note r = refill_held [OF ok]
  show "held (task_end limit i s) + holds v = held s" "tasks_ok limit (task_end limit i s)"
    "ms_nat (hc_switch s) = NAT \<Longrightarrow> length (hc_tasks (task_end limit i s)) = limit"
    "hc_reservations (task_end limit i s) = hc_reservations s" "hc_switch (task_end limit i s) = hc_switch s"
    using held ok r by (simp_all add: task_end_def Let_def split del: if_split) (simp_all split: if_splits)
qed

lemma frame_simps [simp]:
  "hc_tasks (count_up s) = hc_tasks s" "hc_tasks (count_down s) = hc_tasks s" "hc_tasks (switch_do f s) = hc_tasks s"
  "held (count_up s) = held s" "held (count_down s) = held s" "held (switch_do f s) = held s"
  "tasks_ok limit (count_up s) = tasks_ok limit s" "tasks_ok limit (count_down s) = tasks_ok limit s"
  "tasks_ok limit (switch_do f s) = tasks_ok limit s"
  "hc_reservations (count_up s) = hc_reservations s + 1" "hc_reservations (count_down s) = hc_reservations s - 1"
  "hc_reservations (switch_do f s) = hc_reservations s"
  by (simp_all add: count_up_def count_down_def switch_do_def held_def tasks_ok_def)

text \<open>The balance of one step: what the counter counts beyond the reservations that are held.\<close>

definition uncounted :: "hop_client \<Rightarrow> 64 word" where
  "uncounted s = hc_reservations s - of_nat (held s)"

definition balanced :: "nat \<Rightarrow> hop_client \<Rightarrow> bool \<Rightarrow> hop_client \<Rightarrow> bool" where
  "balanced limit s leak s' \<longleftrightarrow> tasks_ok limit s' \<and> uncounted s' = uncounted s + (if leak then 1 else 0)"

lemma uncounted_move:
  fixes v w :: nat
  assumes "held s' + v = held t + w" and "hc_reservations s' = hc_reservations t"
  shows "uncounted s' = uncounted t + of_nat v - of_nat w"
proof -
  have "(of_nat (held s') :: 64 word) + of_nat v = of_nat (held t) + of_nat w" by (metis assms(1) of_nat_add)
  then have "(of_nat (held s') :: 64 word) = of_nat (held t) + of_nat w - of_nat v" by (simp add: eq_diff_eq)
  then show ?thesis by (simp add: uncounted_def assms(2))
qed

lemma uncounted_frame [simp]:
  "uncounted (count_up s) = uncounted s + 1" "uncounted (count_down s) = uncounted s - 1" "uncounted (switch_do f s) = uncounted s"
  by (simp_all add: uncounted_def)

lemma set_uncounted:
  assumes "tasks_ok limit s" and "map_of (hc_tasks s) i = Some v"
  shows "uncounted (task_set i w s) = uncounted s + of_nat (holds v) - of_nat (holds w)"
  by (rule uncounted_move [OF task_set_held(1,3) [OF assms]])

lemma end_uncounted:
  assumes "tasks_ok limit s" and "map_of (hc_tasks s) i = Some v"
  shows "uncounted (task_end limit i s) = uncounted s + of_nat (holds v)"
  using uncounted_move [of "task_end limit i s" "holds v" s 0] task_end_held(1,4) [OF assms] by simp

lemmas task_balance = set_uncounted end_uncounted task_set_held(2) task_end_held(2)

lemma ping_head_balanced:
  assumes "tasks_ok limit s" and "map_of (hc_tasks s) i = Some v" and "holding v"
  shows "balanced limit s (rs_expire r \<le> now) (ping_head limit i now r s)"
  using assms
  by (cases "now < rs_expire r") (simp_all add: ping_head_def balanced_def task_balance)

lemma hop_do_balanced:
  assumes "tasks_ok limit s" and "hop_do limit e s = Some s'"
  shows "balanced limit s (expires e s) s'"
proof (cases e)
  case (PingOpened i res)
  with assms(2) obtain r where r: "map_of (hc_tasks s) i = Some (WPingOpen r)"
    by (auto split: option.splits task_wait.splits)
  show ?thesis
  proof (cases res)
    case (Inl err)
    with r PingOpened assms show ?thesis by (auto simp: balanced_def task_balance)
  next
    case (Inr now)
    have "balanced limit (switch_do (set_net_addrs (circuit_addrs r)) s) (rs_expire r \<le> now) s'"
      using ping_head_balanced [of limit "switch_do (set_net_addrs (circuit_addrs r)) s" i "WPingOpen r" r now]
        r PingOpened Inr assms by auto
    then show ?thesis using r PingOpened Inr by (simp add: balanced_def)
  qed
next
  case (Woke i now)
  with assms(2) obtain r where r: "map_of (hc_tasks s) i = Some (WPingSleep r)"
    by (auto split: option.splits task_wait.splits)
  with Woke assms ping_head_balanced [OF assms(1) r, of r now] show ?thesis by auto
next
  case (Chosen i peers)
  with assms(2) have r: "map_of (hc_tasks s) i = Some WChoose" by (auto split: option.splits task_wait.splits)
  with Chosen assms show ?thesis by (auto simp: balanced_def task_balance split: sum.splits list.splits)
next
  case (Slept i)
  with assms(2) have r: "map_of (hc_tasks s) i = Some WSleep" by (auto split: option.splits task_wait.splits)
  with Slept assms show ?thesis by (auto simp: balanced_def task_balance)
next
  case (HopConnected i res)
  with assms(2) obtain p where r: "map_of (hc_tasks s) i = Some (WHopConnect p)" by (auto split: option.splits task_wait.splits)
  with HopConnected assms show ?thesis by (auto simp: balanced_def task_balance split: sum.splits)
next
  case (Reserved i res)
  with assms(2) obtain p where r: "map_of (hc_tasks s) i = Some (WReserve p)" by (auto split: option.splits task_wait.splits)
  with Reserved assms show ?thesis by (auto simp: balanced_def task_balance split: sum.splits)
next
  case (Pinged i res)
  with assms(2) obtain p where r: "map_of (hc_tasks s) i = Some (WPing p)" by (auto split: option.splits task_wait.splits)
  with Pinged assms show ?thesis by (auto simp: balanced_def task_balance split: sum.splits if_splits)
next
  case (NatChanged st)
  with assms show ?thesis by (auto simp: balanced_def)
next
  case Restart
  have none: "filter (holding \<circ> snd) (map (\<lambda>i. (i, WChoose)) ns) = []" for ns :: "nat list" by (induction ns) simp_all
  from Restart assms have s': "hc_tasks s = []" "s' = client_start limit s" by (auto split: if_splits)
  then have "held s = 0" "held s' = 0" by (simp_all add: held_def client_start_def none)
  moreover have "tasks_ok limit s'" by (auto simp: s' tasks_ok_def client_start_def comp_def distinct_map inj_on_def)
  ultimately show ?thesis by (simp add: balanced_def uncounted_def s' client_start_def Restart)
qed

lemma hop_run_balanced:
  assumes "tasks_ok limit s" and "hop_run limit es s = Some s'"
  shows "tasks_ok limit s' \<and> uncounted s' = uncounted s + of_nat (expired limit es s)"
  using assms
proof (induction es arbitrary: s)
  case (Cons e es)
  then obtain t where t: "hop_do limit e s = Some t" "hop_run limit es t = Some s'" by (auto simp: bind_eq_Some_conv)
  from hop_do_balanced [OF Cons.prems(1) t(1)] Cons.IH [OF _ t(2)] show ?case
    by (auto simp: balanced_def t(1))
qed simp

text \<open>C36: The count of reservations. At every moment at most \<open>channel_limits\<close> tasks run, and \<open>reservations()\<close> is the number of
  reservations that are held plus the number of those that have ever expired: every other end of
  a reservation takes it off the count, expiry does not.\<close>

theorem reservations_counted:
  assumes "hop_run limit es (client_new m) = Some s"
  shows "length (hc_tasks s) \<le> limit \<and> hc_reservations s = of_nat (held s + expired limit es (client_new m))"
proof -
  have "tasks_ok limit (client_new m)" by (simp add: tasks_ok_def client_new_def)
  from hop_run_balanced [OF this assms] have "tasks_ok limit s"
    "uncounted s = uncounted (client_new m) + of_nat (expired limit es (client_new m))" by simp_all
  moreover have "uncounted (client_new m) = 0" by (simp add: uncounted_def client_new_def held_def)
  ultimately show ?thesis by (simp add: tasks_ok_def uncounted_def eq_diff_eq diff_eq_eq)
qed

definition short_reservation :: reservation where
  "short_reservation = \<lparr>rs_expire = 60, rs_addrs = [[Ip4 1, Tcp 2]], rs_limit = None\<rparr>"

text \<open>One reservation that is kept until it expires.\<close>

definition expiry_run :: "hop_event list" where
  "expiry_run = [NatChanged NAT, Restart, Chosen 0 (Inr [PeerId 5]), HopConnected 0 (Inr ()), Reserved 0 (Inr short_reservation),
     PingOpened 0 (Inr 10), Pinged 0 (Inr ()), Woke 0 60]"

lemmas hop_steps = client_new_def client_start_def task_set_def task_end_def refill_def count_up_def count_down_def switch_do_def
  ping_head_def set_nat_def set_net_addrs_def remove_net_addrs_def circuit_addrs_def mutable_new_def short_reservation_def

theorem reservations_counted_witness:
  "map_option (\<lambda>s. (hc_reservations s, held s, hc_tasks s)) (hop_run 1 expiry_run (client_new (mutable_new 5))) =
     Some (1, 0, [(1, WChoose)])"
proof -
  obtain s where s: "hop_run 1 expiry_run (client_new (mutable_new 5)) = Some s" "hc_tasks s = [(1, WChoose)]"
    by (simp add: expiry_run_def hop_steps upt_rec)
  have "expired 1 expiry_run (client_new (mutable_new 5)) = 1"
    by (simp add: expiry_run_def hop_steps upt_rec)
  with reservations_counted [OF s(1)] s show ?thesis by (simp add: held_def)
qed

section \<open>How a reservation ends\<close>

lemma ping_head_switch:
  assumes "tasks_ok limit s" and "map_of (hc_tasks s) i = Some v" and "rs_expire r \<le> now"
  shows "hc_switch (ping_head limit i now r s) = remove_net_addrs (circuit_addrs r) (hc_switch s)"
    "ms_nat (hc_switch s) = NAT \<Longrightarrow> length (hc_tasks (ping_head limit i now r s)) = limit"
proof -
  let ?t = "switch_do (remove_net_addrs (circuit_addrs r)) s"
  have t: "tasks_ok limit ?t" "map_of (hc_tasks ?t) i = Some v" using assms(1,2) by simp_all
  have eq: "ping_head limit i now r s = task_end limit i ?t" using assms(3) by (simp add: ping_head_def)
  show "hc_switch (ping_head limit i now r s) = remove_net_addrs (circuit_addrs r) (hc_switch s)"
    by (simp add: eq task_end_held(5) [OF t]) (simp add: switch_do_def)
  show "ms_nat (hc_switch s) = NAT \<Longrightarrow> length (hc_tasks (ping_head limit i now r s)) = limit"
    unfolding eq by (rule task_end_held(3) [OF t]) (simp add: switch_do_def remove_net_addrs_def)
qed

text \<open>The addresses of a reservation that ends. When a ping fails, or the reservation has expired, its circuit addresses are taken
  from the NAT addresses of the switch (also those that another reservation has too), and, as long as the node
  is behind a NAT, the free slot is filled at once. When it ends because the node is no longer behind a NAT, its addresses
  stay among the NAT addresses, and the slot stays free.\<close>

theorem reservation_ends:
  assumes "tasks_ok limit s" and "map_of (hc_tasks s) i = Some (WPing r)" and "map_of (hc_tasks s) j = Some (WPingSleep q)"
    and "rs_expire q \<le> now"
  shows "(\<exists>s'. hop_do limit (Pinged i (Inl err)) s = Some s' \<and>
      ms_nat_addrs (hc_switch s') = ms_nat_addrs (hc_switch s) - set (circuit_addrs r) \<and>
      (ms_nat (hc_switch s) = NAT \<longrightarrow> length (hc_tasks s') = limit)) \<and>
    (\<exists>s'. hop_do limit (Woke j now) s = Some s' \<and>
      ms_nat_addrs (hc_switch s') = ms_nat_addrs (hc_switch s) - set (circuit_addrs q) \<and>
      (ms_nat (hc_switch s) = NAT \<longrightarrow> length (hc_tasks s') = limit)) \<and>
    (ms_nat (hc_switch s) \<noteq> NAT \<longrightarrow>
      (\<exists>s'. hop_do limit (Pinged i (Inr ())) s = Some s' \<and> hc_switch s' = hc_switch s \<and>
        length (hc_tasks s') < length (hc_tasks s)))"
proof (intro conjI impI, goal_cases)
  case 1
  let ?t = "switch_do (remove_net_addrs (circuit_addrs r)) (count_down s)"
  have t: "tasks_ok limit ?t" "map_of (hc_tasks ?t) i = Some (WPing r)" using assms by simp_all
  have "hop_do limit (Pinged i (Inl err)) s = Some (task_end limit i ?t)" using assms(2) by simp
  moreover have "hc_switch (task_end limit i ?t) = remove_net_addrs (circuit_addrs r) (hc_switch s)"
    by (simp add: task_end_held(5) [OF t]) (simp add: switch_do_def count_down_def)
  moreover have "ms_nat (hc_switch s) = NAT \<Longrightarrow> length (hc_tasks (task_end limit i ?t)) = limit"
    by (rule task_end_held(3) [OF t]) (simp add: switch_do_def count_down_def remove_net_addrs_def)
  ultimately show ?case by (simp add: remove_net_addrs_def)
next
  case 2
  from ping_head_switch [OF assms(1,3,4)] assms(3) show ?case by (simp add: remove_net_addrs_def)
next
  case 3
  have t: "tasks_ok limit (count_down s)" "map_of (hc_tasks (count_down s)) i = Some (WPing r)" using assms by simp_all
  have do: "hop_do limit (Pinged i (Inr ())) s = Some (task_end limit i (count_down s))" using assms(2) 3 by simp
  have sw: "hc_switch (task_end limit i (count_down s)) = hc_switch s" by (simp add: task_end_held(5) [OF t]) (simp add: count_down_def)
  from task_split [OF tasks_okD [OF assms(1)] assms(2)] obtain pre post where
    "hc_tasks s = pre @ (i, WPing r) # post" "i \<notin> fst ` set pre" "i \<notin> fst ` set post" .
  then have "length (hc_tasks (task_end limit i (count_down s))) < length (hc_tasks s)"
    using 3 by (simp add: task_end_def count_down_def filter_other)
  with do sw show ?case by blast
qed

theorem reservation_ends_witness:
  "\<exists>s. hop_do 2 (Pinged 0 (Inr ())) \<lparr>hc_reservations = 2, hc_switch = (mutable_new 5)\<lparr>ms_nat_addrs := {[Ip4 1, Tcp 2, P2pCircuit]}\<rparr>,
       hc_tasks = [(0, WPing short_reservation), (1, WPingSleep short_reservation)], hc_next = 2\<rparr> = Some s \<and>
     ms_nat_addrs (hc_switch s) = {[Ip4 1, Tcp 2, P2pCircuit]} \<and> ms_nat (hc_switch s) = Unknown"
proof -
  let ?s = "\<lparr>hc_reservations = 2, hc_switch = (mutable_new 5)\<lparr>ms_nat_addrs := {[Ip4 1, Tcp 2, P2pCircuit]}\<rparr>,
       hc_tasks = [(0, WPing short_reservation), (1, WPingSleep short_reservation)], hc_next = 2\<rparr>"
  have "tasks_ok 2 ?s" by (simp add: tasks_ok_def)
  from conjunct2 [OF conjunct2 [OF reservation_ends [OF this, of 0 short_reservation 1 short_reservation 60]]] show ?thesis
    by (auto simp: short_reservation_def mutable_new_def auto_nat_default_def)
qed

end
