(* ===== verification/StopServer.thy ===== *)
theory StopServer
  imports CircuitNode CircuitStop
begin

text \<open>
  The two tasks that \<open>CircuitStopServerBuilder::start\<close> of \<open>circuit/src/protocols/stop.rs\<close> spawns, put together from the theories
  CircuitNode (one stop stream) and CircuitStop (the tasks that hold reservations): the accept loop with the handlers it spawns and
  the listener that the switch reads from, and the loop around \<open>run_reservation_client\<close> that waits for the network to be NAT.
\<close>

section \<open>Accepting relayed connections\<close>

text \<open>An incoming stop stream with its local and peer address.\<close>

type_synonym stop_stream = "stream \<times> multiaddr \<times> multiaddr"

text \<open>What the handlers share: the codec, the packet limit, how errors are shown, the certificates and the checks of the TLS library.\<close>

record stop_env =
  se_codec :: circuit_codec
  se_max_packet :: nat
  se_circuit_text :: "circuit_error \<Rightarrow> string"
  se_x509_text :: "x509_error \<Rightarrow> string"
  se_x509 :: x509_env
  se_keystore :: keystore
  se_checks :: "bytes \<times> bytes \<Rightarrow> io_error + unit"

text \<open>The counter and the channel, whether the accept loop runs, and the handlers that have not ended.\<close>

record stop_server =
  sv_activities :: "64 word"
  sv_channel :: stop_channel
  sv_loop :: bool
  sv_handlers :: "stop_stream list"

text \<open>The loop owns a sender, and so does each handler.\<close>

definition drop_senders :: "stop_server \<Rightarrow> stop_server" where
  "drop_senders s = s\<lparr>sv_channel := (sv_channel s)\<lparr>sc_senders := sv_loop s \<or> sv_handlers s \<noteq> []\<rparr>\<rparr>"

text \<open>\<open>run_stop_accept\<close> up to the loop: \<open>transport\<close> is the answer of \<open>transport_bind_with\<close>, which takes the receiver, and \<open>protocol\<close> that of
  \<open>bind\<close> for the stop protocol. Each failure is logged and ends the task.\<close>

definition run_stop_accept :: "xs_error + unit \<Rightarrow> xs_error + unit \<Rightarrow> stop_server" where
  "run_stop_accept transport protocol =
     (case transport of
        Inl err \<Rightarrow> \<lparr>sv_activities = 0, sv_channel = \<lparr>sc_queue = [], sc_receiver = False, sc_senders = False\<rparr>,
                    sv_loop = False, sv_handlers = []\<rparr>
      | Inr _ \<Rightarrow>
          (case protocol of
             Inl err \<Rightarrow> \<lparr>sv_activities = 0, sv_channel = \<lparr>sc_queue = [], sc_receiver = True, sc_senders = False\<rparr>,
                         sv_loop = False, sv_handlers = []\<rparr>
           | Inr _ \<Rightarrow> \<lparr>sv_activities = 0, sv_channel = \<lparr>sc_queue = [], sc_receiver = True, sc_senders = True\<rparr>,
                       sv_loop = True, sv_handlers = []\<rparr>))"

text \<open>One turn of \<open>circuit_stop_server_loop_prv\<close>: a stream spawns a handler, the end of the streams or an error ends the loop.\<close>

definition stop_server_loop :: "io_error + stop_stream option \<Rightarrow> stop_server \<Rightarrow> stop_server" where
  "stop_server_loop next s =
     (case next of
        Inr (Some incoming) \<Rightarrow> drop_senders (s\<lparr>sv_handlers := sv_handlers s @ [incoming]\<rparr>)
      | Inr None \<Rightarrow> drop_senders (s\<lparr>sv_loop := False\<rparr>)
      | Inl err \<Rightarrow> drop_senders (s\<lparr>sv_loop := False\<rparr>))"

text \<open>A handler comes to its end. It touches the counter and the channel only when it has its connection, and does not
  wait in between. An error is only logged.\<close>

definition run_handler ::
    "stop_env \<Rightarrow> nat \<Rightarrow> nat \<times> nat \<times> nat \<Rightarrow> string \<Rightarrow> (stream \<Rightarrow> tls_net) \<Rightarrow> stop_stream \<Rightarrow>
     (64 word \<times> stop_channel, io_error, unit) act" where
  "run_handler E signer ts uuid tls incoming =
     (case incoming of (stream, local_addr, peer_addr) \<Rightarrow>
        handle_stop_incoming (se_codec E) (se_max_packet E) (se_circuit_text E) (se_x509_text E) (se_x509 E) (se_keystore E)
          signer ts uuid (se_checks E) tls stream local_addr peer_addr)"

definition handler_end ::
    "stop_env \<Rightarrow> nat \<Rightarrow> nat \<Rightarrow> nat \<times> nat \<times> nat \<Rightarrow> string \<Rightarrow> (stream \<Rightarrow> tls_net) \<Rightarrow> stop_server \<Rightarrow> stop_server" where
  "handler_end E i signer ts uuid tls s =
     (case run_handler E signer ts uuid tls (sv_handlers s ! i) (sv_activities s, sv_channel s) of
        (_, activities, channel) \<Rightarrow>
          drop_senders (s\<lparr>sv_activities := activities, sv_channel := channel,
            sv_handlers := take i (sv_handlers s) @ drop (Suc i) (sv_handlers s)\<rparr>))"

datatype stop_event =
    StopIncoming "io_error + stop_stream option"
  | HandlerEnds nat nat "nat \<times> nat \<times> nat" string "stream \<Rightarrow> tls_net"
  | ListenerAccept

text \<open>An event that cannot happen is \<open>None\<close>; the second part of a result is what \<open>accept\<close> of the listener returns.\<close>

fun stop_do :: "stop_env \<Rightarrow> stop_event \<Rightarrow> stop_server \<Rightarrow> (stop_server \<times> (io_error + tls_conn) list) option" where
  "stop_do E (StopIncoming next) s = (if sv_loop s then Some (stop_server_loop next s, []) else None)"
| "stop_do E (HandlerEnds i signer ts uuid tls) s =
     (if i < length (sv_handlers s) then Some (handler_end E i signer ts uuid tls s, []) else None)"
| "stop_do E ListenerAccept s =
     map_option (\<lambda>(r, ch). (s\<lparr>sv_channel := ch\<rparr>, [r])) (stop_listener_accept (sv_channel s))"

fun stop_run :: "stop_env \<Rightarrow> stop_event list \<Rightarrow> stop_server \<Rightarrow> (stop_server \<times> (io_error + tls_conn) list) option" where
  "stop_run E [] s = Some (s, [])"
| "stop_run E (e # es) s =
     Option.bind (stop_do E e s) (\<lambda>(s, r). map_option (\<lambda>(s, rs). (s, r @ rs)) (stop_run E es s))"

section \<open>The order and the authenticity of relayed connections\<close>

text \<open>The connection that an event makes, if it makes one; and those of a run.\<close>

fun stop_made :: "stop_env \<Rightarrow> stop_event \<Rightarrow> stop_server \<Rightarrow> tls_conn list" where
  "stop_made E (HandlerEnds i signer ts uuid tls) s =
     (case run_handler E signer ts uuid tls (sv_handlers s ! i) (sv_activities s, sv_channel s) of
        (Inl _, _) \<Rightarrow> []
      | (Inr _, _, channel) \<Rightarrow> [last (sc_queue channel)])"
| "stop_made E _ s = []"

fun stop_log :: "stop_env \<Rightarrow> stop_event list \<Rightarrow> stop_server \<Rightarrow> tls_conn list" where
  "stop_log E [] s = []"
| "stop_log E (e # es) s = stop_made E e s @ (case stop_do E e s of None \<Rightarrow> [] | Some (s, _) \<Rightarrow> stop_log E es s)"

definition stop_streams :: "stop_event list \<Rightarrow> stop_stream set" where
  "stop_streams es = {x. StopIncoming (Inr (Some x)) \<in> set es}"

text \<open>
  The connection comes from a stop stream \<open>x\<close> by its handler, which got the name \<open>uuid\<close>, the clock \<open>ts\<close> and, for the stream that
  is left when the request has been read, the network \<open>tls\<close>: the other end asked for it, the handshake of that network,
  to which the handler goes with its own certificate, yielded the certificate \<open>der\<close>, and the key is the one to which that certificate verifies.
\<close>

definition relayed_from ::
    "stop_env \<Rightarrow> nat \<Rightarrow> nat \<times> nat \<times> nat \<Rightarrow> string \<Rightarrow> (stream \<Rightarrow> tls_net) \<Rightarrow> stop_stream \<Rightarrow> tls_conn \<Rightarrow> bool" where
  "relayed_from E signer ts uuid tls x conn \<longleftrightarrow>
     tc_id conn = uuid \<and> tc_is_relay conn \<and> tc_local_addr conn = fst (snd x) \<and> tc_peer_addr conn = snd (snd x) \<and>
     (\<exists>limits stream config der.
        circuit_v2_stop_connect_accept (se_codec E) (se_max_packet E) (fst x) = (Inr limits, stream) \<and>
        create_ssl_config (se_x509_text E) (se_x509 E) signer (fst ts) (se_keystore E) (se_checks E) = Inr config \<and>
        tn_handshake (tls stream) (tls_verify_callback (se_x509 E) (fst (snd ts))) config None = Inr (Some (Inr der)) \<and>
        verify (se_x509 E) (snd (snd ts)) der = Inr (tc_public_key conn))"

lemma run_handler_exact:
  "case run_handler E signer ts uuid tls x (n, ch) of
     (Inl e, n', ch') \<Rightarrow> n' = n \<and> ch' = ch
   | (Inr _, n', ch') \<Rightarrow> n' = n + 1 \<and> sc_receiver ch \<and> 
       (\<exists>conn. ch' = ch\<lparr>sc_queue := sc_queue ch @ [conn]\<rparr> \<and> relayed_from E signer ts uuid tls x conn)"
proof -
  obtain stream la pa where x: "x = (stream, la, pa)" by (cases x)
  obtain t1 t2 t3 where ts: "ts = (t1, t2, t3)" by (cases ts)
  obtain r1 stream' where 1: "circuit_v2_stop_connect_accept (se_codec E) (se_max_packet E) stream = (r1, stream')" by fastforce
  note cases = run_handler_def x ts stop_incoming_cases 1
  show ?thesis
  proof (cases r1)
    case (Inl e)
    then show ?thesis by (simp add: cases)
  next
    case r1: (Inr limits)
    show ?thesis
    proof (cases "create_ssl_config (se_x509_text E) (se_x509 E) signer t1 (se_keystore E) (se_checks E)")
      case (Inl e)
      then show ?thesis by (simp add: cases r1)
    next
      case config: (Inr acceptor)
      obtain r2 n' where 2: "tls_accept (se_x509_text E) (se_x509 E) (t2, t3) (tls stream') uuid acceptor la pa True n = (r2, n')"
        by fastforce
      show ?thesis
      proof (cases r2)
        case (Inl e)
        with 2 tls_accept_facts [OF 2] show ?thesis by (simp add: cases r1 config)
      next
        case (Inr conn)
        with tls_accept_facts [OF 2] obtain der where f: "n' = n + 1" "tc_is_relay conn"
          "tn_handshake (tls stream') (tls_verify_callback (se_x509 E) t2) acceptor None = Inr (Some (Inr der))"
          "verify (se_x509 E) t3 der = Inr (tc_public_key conn)" by auto
        have "relayed_from E signer ts uuid tls x conn"
          unfolding relayed_from_def x ts fst_conv snd_conv
          using f(2-4) tls_accept_addrs [OF 2 [unfolded Inr]] 1 r1 config by blast
        moreover note f(1)
        ultimately show ?thesis
          by (auto simp: cases r1 config 2 Inr channel_send_def fetch_sub_def)
      qed
    qed
  qed
qed

text \<open>What holds at every moment, of the server \<open>s\<close>, what \<open>accept\<close> returned so far and the connections made so far.\<close>

definition conns_of :: "(io_error + tls_conn) list \<Rightarrow> tls_conn list" where
  "conns_of rs = List.map_filter (\<lambda>r. case r of Inl _ \<Rightarrow> None | Inr c \<Rightarrow> Some c) rs"

lemma conns_of_simps [simp]:
  "conns_of [] = []" "conns_of (Inl e # rs) = conns_of rs" "conns_of (Inr c # rs) = c # conns_of rs"
  "conns_of (rs @ qs) = conns_of rs @ conns_of qs"
  by (simp_all add: conns_of_def List.map_filter_def)

definition stop_inv ::
    "stop_env \<Rightarrow> stop_stream set \<Rightarrow> stop_server \<Rightarrow> (io_error + tls_conn) list \<Rightarrow> tls_conn list \<Rightarrow> bool" where
  "stop_inv E X s outs made \<longleftrightarrow>
     conns_of outs @ sc_queue (sv_channel s) = made \<and>
     sv_activities s = of_nat (length made) \<and>
     sc_senders (sv_channel s) = (sv_loop s \<or> sv_handlers s \<noteq> []) \<and>
     set (sv_handlers s) \<subseteq> X \<and>
     ((\<exists>e. Inl e \<in> set outs) \<longrightarrow> \<not> sc_senders (sv_channel s) \<and> sc_queue (sv_channel s) = [])"

lemma stop_start: "stop_inv E {} (run_stop_accept b l) [] []"
  by (simp add: stop_inv_def run_stop_accept_def split: sum.split)

lemma drop_senders_simps [simp]:
  "sc_queue (sv_channel (drop_senders s)) = sc_queue (sv_channel s)" "sv_activities (drop_senders s) = sv_activities s"
  "sv_loop (drop_senders s) = sv_loop s" "sv_handlers (drop_senders s) = sv_handlers s"
  "sc_senders (sv_channel (drop_senders s)) = (sv_loop s \<or> sv_handlers s \<noteq> [])"
  by (simp_all add: drop_senders_def)

lemma inv_incoming:
  assumes "stop_inv E X s outs made" and "sv_loop s"
  shows "stop_inv E (X \<union> stop_streams [StopIncoming next]) (stop_server_loop next s) outs made"
proof -
  from assms have open_: "sc_senders (sv_channel s)" "\<not> (\<exists>e. Inl e \<in> set outs)" by (auto simp: stop_inv_def)
  show ?thesis
  proof (cases "\<exists>x. next = Inr (Some x)")
    case True
    then obtain x where x: "next = Inr (Some x)" by blast
    then have "stop_streams [StopIncoming next] = {x}" by (simp add: stop_streams_def)
    with x assms(1) open_ show ?thesis by (auto simp: stop_inv_def stop_server_loop_def)
  next
    case False
    then have eq: "stop_server_loop next s = drop_senders (s\<lparr>sv_loop := False\<rparr>)"
      by (simp add: stop_server_loop_def split: sum.split option.split)
    from assms(1) open_ show ?thesis unfolding eq by (auto simp: stop_inv_def)
  qed
qed

lemma inv_handler:
  assumes "stop_inv E X s outs made" and "i < length (sv_handlers s)"
  shows "stop_inv E X (handler_end E i signer ts uuid tls s) outs (made @ stop_made E (HandlerEnds i signer ts uuid tls) s)"
proof -
  let ?x = "sv_handlers s ! i"
  define hs where "hs = take i (sv_handlers s) @ drop (Suc i) (sv_handlers s)"
  have sub: "set hs \<subseteq> set (sv_handlers s)"
    using set_take_subset [of i "sv_handlers s"] set_drop_subset [of "Suc i" "sv_handlers s"] by (simp add: hs_def)
  have "?x \<in> set (sv_handlers s)" using assms(2) by simp
  with assms have x: "?x \<in> X" and hs: "set hs \<subseteq> X" and open_: "sv_handlers s \<noteq> []" "\<not> (\<exists>e. Inl e \<in> set outs)"
    using sub by (auto simp: stop_inv_def)
  obtain r n ch where run: "run_handler E signer ts uuid tls ?x (sv_activities s, sv_channel s) = (r, n, ch)" by (metis prod_cases3)
  note exact = run_handler_exact [where E = E and signer = signer and ts = ts and uuid = uuid and tls = tls and x = ?x and
      n = "sv_activities s" and ch = "sv_channel s", unfolded run prod.case]
  have eq: "handler_end E i signer ts uuid tls s =
      drop_senders (s\<lparr>sv_activities := n, sv_channel := ch, sv_handlers := hs\<rparr>)"
    by (simp add: handler_end_def run hs_def)
  show ?thesis
  proof (cases r)
    case (Inl e)
    with exact have "n = sv_activities s" "ch = sv_channel s" by simp_all
    moreover have "stop_made E (HandlerEnds i signer ts uuid tls) s = []" by (simp add: run Inl)
    ultimately show ?thesis using assms(1) hs open_ unfolding eq by (simp add: stop_inv_def del: stop_made.simps)
  next
    case (Inr u)
    with exact obtain c where c: "n = sv_activities s + 1" "ch = (sv_channel s)\<lparr>sc_queue := sc_queue (sv_channel s) @ [c]\<rparr>"
      by auto
    moreover have "stop_made E (HandlerEnds i signer ts uuid tls) s = [c]" by (simp add: run Inr c(2))
    ultimately show ?thesis using assms(1) hs x open_ unfolding eq by (simp add: stop_inv_def del: stop_made.simps)
  qed
qed

lemma inv_accept:
  assumes "stop_inv E X s outs made" and "stop_listener_accept (sv_channel s) = Some (r, ch)"
  shows "stop_inv E X (s\<lparr>sv_channel := ch\<rparr>) (outs @ [r]) made"
  using assms by (auto simp: stop_inv_def stop_listener_accept_def split: list.splits if_splits)

lemma stop_do_inv:
  assumes "stop_inv E X s outs made" and "stop_do E e s = Some (s', r)"
  shows "stop_inv E (X \<union> stop_streams [e]) s' (outs @ r) (made @ stop_made E e s)"
proof (cases e)
  case (StopIncoming x)
  with assms inv_incoming [OF assms(1)] show ?thesis by (auto split: if_splits)
next
  case (HandlerEnds i signer ts uuid tls)
  with assms inv_handler [OF assms(1), of i signer ts uuid tls] show ?thesis
    by (simp add: stop_streams_def split: if_splits del: stop_made.simps)
next
  case ListenerAccept
  with assms inv_accept [OF assms(1)] show ?thesis by (auto simp: stop_streams_def)
qed

lemma stop_run_inv:
  assumes "stop_inv E X s outs made" and "stop_run E es s = Some (s', rs)"
  shows "stop_inv E (X \<union> stop_streams es) s' (outs @ rs) (made @ stop_log E es s)"
  using assms
proof (induction es arbitrary: X s outs made rs)
  case Nil
  then show ?case by (simp add: stop_streams_def)
next
  case (Cons e es)
  then obtain t r qs where t: "stop_do E e s = Some (t, r)" "stop_run E es t = Some (s', qs)" "rs = r @ qs"
    by (auto simp: bind_eq_Some_conv)
  have "X \<union> stop_streams [e] \<union> stop_streams es = X \<union> stop_streams (e # es)" by (auto simp: stop_streams_def)
  with Cons.IH [OF stop_do_inv [OF Cons.prems(1) t(1)] t(2)] t show ?case by simp
qed

text \<open>A connection of the log was made by one event of the run: the end of the handler of a stream that had arrived.\<close>

lemma stop_log_event:
  "stop_run E es s = Some (s', rs) \<Longrightarrow> c \<in> set (stop_log E es s) \<Longrightarrow>
     \<exists>as e bs t outs u r. es = as @ e # bs \<and> stop_run E as s = Some (t, outs) \<and> stop_do E e t = Some (u, r) \<and> c \<in> set (stop_made E e t)"
proof (induction es arbitrary: s rs)
  case (Cons e es)
  then obtain t r qs where t: "stop_do E e s = Some (t, r)" "stop_run E es t = Some (s', qs)"
    by (auto simp: bind_eq_Some_conv)
  show ?case
  proof (cases "c \<in> set (stop_made E e s)")
    case True
    with t(1) show ?thesis by (intro exI [of _ "[]"]) (simp del: stop_made.simps)
  next
    case False
    with Cons.prems(2) t(1) have "c \<in> set (stop_log E es t)" by (simp del: stop_made.simps)
    from Cons.IH [OF t(2) this] obtain as f bs v outs u q where
      f: "es = as @ f # bs" "stop_run E as t = Some (v, outs)" "stop_do E f v = Some (u, q)" "c \<in> set (stop_made E f v)" by blast
    have "e # es = (e # as) @ f # bs" "stop_run E (e # as) s = Some (v, r @ outs)" using f(1,2) t(1) by simp_all
    with f(3,4) show ?thesis by blast
  qed
qed simp

lemma stop_made_from:
  assumes "c \<in> set (stop_made E e s)"
  obtains i signer ts uuid tls where "e = HandlerEnds i signer ts uuid tls" and "relayed_from E signer ts uuid tls (sv_handlers s ! i) c"
proof -
  from assms obtain i signer ts uuid tls where e: "e = HandlerEnds i signer ts uuid tls" by (cases e) auto
  obtain r n ch where run: "run_handler E signer ts uuid tls (sv_handlers s ! i) (sv_activities s, sv_channel s) = (r, n, ch)"
    by (metis prod_cases3)
  note exact = run_handler_exact [where E = E and signer = signer and ts = ts and uuid = uuid and tls = tls and x = "sv_handlers s ! i" and
      n = "sv_activities s" and ch = "sv_channel s", unfolded run prod.case]
  from assms e run obtain u where r: "r = Inr u" "c = last (sc_queue ch)" by (cases r) auto
  with exact that [OF e] show ?thesis by auto
qed

text \<open>C12: The relayed connections of a node. Whatever stop streams arrive, and in whatever order their handlers end, the switch gets from
  the listener exactly the connections that were made, in the order they were made. Each was made at the moment when the handler
  of a stop stream ended that had arrived before; it is a relayed one over that stream, whose other end had asked for it, with the key
  of the very certificate that the handshake over that stream yielded as the one of the other end. All of them are counted. A handler that fails takes nothing
  from the others: \<open>accept\<close> fails only when the loop and all handlers have ended and every connection was handed over.\<close>

theorem relayed_in_order:
  assumes "stop_run E es (run_stop_accept transport protocol) = Some (s, outs)"
  shows "conns_of outs @ sc_queue (sv_channel s) = stop_log E es (run_stop_accept transport protocol) \<and>
    sv_activities s = of_nat (length (stop_log E es (run_stop_accept transport protocol))) \<and>
    (\<forall>c\<in>set (stop_log E es (run_stop_accept transport protocol)).
       \<exists>as i signer ts uuid tls bs t ts_outs. es = as @ HandlerEnds i signer ts uuid tls # bs \<and>
         stop_run E as (run_stop_accept transport protocol) = Some (t, ts_outs) \<and> i < length (sv_handlers t) \<and>
         sv_handlers t ! i \<in> stop_streams as \<and> relayed_from E signer ts uuid tls (sv_handlers t ! i) c) \<and>
    ((\<exists>e. Inl e \<in> set outs) \<longrightarrow>
       \<not> sv_loop s \<and> sv_handlers s = [] \<and> conns_of outs = stop_log E es (run_stop_accept transport protocol))"
proof -
  let ?s = "run_stop_accept transport protocol"
  have inv: "stop_inv E (stop_streams es) s outs (stop_log E es ?s)"
    using stop_run_inv [OF stop_start assms] by simp
  have "\<exists>as i signer ts uuid tls bs t ts_outs. es = as @ HandlerEnds i signer ts uuid tls # bs \<and>
         stop_run E as ?s = Some (t, ts_outs) \<and> i < length (sv_handlers t) \<and>
         sv_handlers t ! i \<in> stop_streams as \<and> relayed_from E signer ts uuid tls (sv_handlers t ! i) c"
    if "c \<in> set (stop_log E es ?s)" for c
  proof -
    from stop_log_event [OF assms that] obtain as e bs t os u r where
      e: "es = as @ e # bs" "stop_run E as ?s = Some (t, os)" "stop_do E e t = Some (u, r)" "c \<in> set (stop_made E e t)" by blast
    from stop_made_from [OF e(4)] obtain i signer ts uuid tls where
      h: "e = HandlerEnds i signer ts uuid tls" "relayed_from E signer ts uuid tls (sv_handlers t ! i) c" .
    from e(3) h(1) have i: "i < length (sv_handlers t)" by (simp split: if_splits)
    have "set (sv_handlers t) \<subseteq> stop_streams as"
      using stop_run_inv [OF stop_start e(2)] by (simp add: stop_inv_def)
    with i have "sv_handlers t ! i \<in> stop_streams as" by auto
    with e(1,2) h i show ?thesis by blast
  qed
  with inv show ?thesis unfolding stop_inv_def by auto
qed

text \<open>A stream that asks, with its handler, the end of the incoming streams, and what the listener says then.\<close>

definition sample_env :: stop_env where
  "sample_env =
     \<lparr>se_codec = sample_codec [] [stop_accepted, stop_request (sample_codec [] [] []) (PeerId 2)] [], se_max_packet = 9,
      se_circuit_text = (\<lambda>_. []), se_x509_text = (\<lambda>_. []), se_x509 = toy_env toy_generated,
      se_keystore = memory_keystore (PublicKey 3) Inr, se_checks = (\<lambda>_. Inr ())\<rparr>"

definition sample_run :: "stop_event list" where
  "sample_run =
     [StopIncoming (Inr (Some (quiet\<lparr>st_in := [1, 0]\<rparr>, [Ip4 1], [Ip4 2]))),
      HandlerEnds 0 0 (0, 2, 3) ''c'' (\<lambda>_. honest_net \<lparr>tl_cert = [1], tl_key = [9]\<rparr>),
      StopIncoming (Inr None), ListenerAccept, ListenerAccept]"

definition sample_conn :: tls_conn where
  "sample_conn = \<lparr>tc_id = ''c'', tc_public_key = PublicKey 3, tc_local_addr = [Ip4 1], tc_peer_addr = [Ip4 2], tc_is_relay = True\<rparr>"

lemma sample_handler:
  "run_handler sample_env 0 (0, 2, 3) ''c'' (\<lambda>_. honest_net \<lparr>tl_cert = [1], tl_key = [9]\<rparr>)
     (quiet\<lparr>st_in := [1, 0]\<rparr>, [Ip4 1], [Ip4 2]) (0, \<lparr>sc_queue = [], sc_receiver = True, sc_senders = True\<rparr>) =
   (Inr (), 1, \<lparr>sc_queue = [sample_conn], sc_receiver = True, sc_senders = True\<rparr>)"
proof -
  let ?stop = "stop_request (sample_codec [] [] []) (PeerId 2)"
  let ?k = "sample_codec [] [stop_accepted, ?stop] []"
  have wr: "cc_wr_stop ?k ?stop = Inr [0]" "cc_wr_stop ?k stop_accepted = Inr []"
    by (simp_all add: sample_codec_def list_wr_def stop_request_def stop_accepted_def stop_new_def)
  have io: "st_in (quiet\<lparr>st_in := [1, 0]\<rparr>) = cc_enc ?k (length ([0] :: bytes)) @ [0] @ []"
    by (simp add: sample_codec_def leb.simps)
  have t: "sm_type ?stop = Some StopConnect" "st_room (quiet\<lparr>st_in := [1, 0]\<rparr>) = None" by (simp_all add: stop_request_def quiet_def)
  note accept = stop_accept_frame [OF sample_codec_law wr(1) _ t(1) wr(2) t(2) io, of 9]
  have key: "verify (toy_env toy_generated) 2 [1] = Inr (PublicKey 3)" "verify (toy_env toy_generated) 3 [1] = Inr (PublicKey 3)"
    using config_cert [OF toy_env_law toy_keystore toy_config, of 2] config_cert [OF toy_env_law toy_keystore toy_config, of 3] by simp_all
  show ?thesis
    using accept
    by (simp add: run_handler_def sample_env_def stop_incoming_cases toy_config tls_accept_honest key channel_send_def tls_conn_new_def
        sample_conn_def)
qed

theorem relayed_in_order_witness:
  "\<exists>s outs. stop_run sample_env sample_run (run_stop_accept (Inr ()) (Inr ())) = Some (s, outs) \<and>
     conns_of outs = [sample_conn] \<and> sv_activities s = 1 \<and> (\<exists>e. Inl e \<in> set outs)"
proof -
  have run: "\<exists>s e. stop_run sample_env sample_run (run_stop_accept (Inr ()) (Inr ())) = Some (s, [Inr sample_conn, Inl e]) \<and>
      stop_log sample_env sample_run (run_stop_accept (Inr ()) (Inr ())) = [sample_conn]"
    by (simp add: sample_run_def run_stop_accept_def stop_server_loop_def drop_senders_def handler_end_def sample_handler
        stop_listener_accept_def)
  then obtain s e where s: "stop_run sample_env sample_run (run_stop_accept (Inr ()) (Inr ())) = Some (s, [Inr sample_conn, Inl e])"
      "stop_log sample_env sample_run (run_stop_accept (Inr ()) (Inr ())) = [sample_conn]" by blast
  from relayed_in_order [OF s(1)] s show ?thesis by (intro exI [of _ s] exI [of _ "[Inr sample_conn, Inl e]"]) simp
qed

section \<open>The loop around the reservation tasks\<close>

text \<open>
  \<open>run_hop_client\<close>: it waits for a network event, or the reservation tasks run, or its event source has ended. A change of the
  NAT state first sets the state and then raises the event (\<open>set_nat\<close> of the switch); \<open>cl_raising\<close> are the raises on their
  way and \<open>cl_pending\<close> the events in the source, whose buffer is 100.
\<close>

datatype client_phase = ClientWait | ClientRun | ClientClosed

record stop_client =
  cl_phase :: client_phase
  cl_hop :: hop_client
  cl_pending :: nat
  cl_raising :: nat

definition client_buffer :: nat where
  "client_buffer = 100"

text \<open>The head of the loop.\<close>

definition client_check :: "nat \<Rightarrow> stop_client \<Rightarrow> stop_client" where
  "client_check limit c =
     (if ms_nat (hc_switch (cl_hop c)) = NAT then c\<lparr>cl_phase := ClientRun, cl_hop := client_start limit (cl_hop c)\<rparr>
      else c\<lparr>cl_phase := ClientWait\<rparr>)"

definition run_hop_client :: "nat \<Rightarrow> mutable_switch \<Rightarrow> stop_client" where
  "run_hop_client limit m =
     client_check limit \<lparr>cl_phase = ClientWait, cl_hop = client_new m, cl_pending = 0, cl_raising = 0\<rparr>"

datatype client_event =
    TaskStep hop_event
  | NatSet auto_nat
  | NatRaised bool
  | NetworkEvent
  | SourceEnded

fun task_event :: "hop_event \<Rightarrow> bool" where
  "task_event (NatChanged _) = False"
| "task_event Restart = False"
| "task_event _ = True"

text \<open>When the last task has ended, \<open>run_reservation_client\<close> returns to the head of the loop. An event is lost only when the buffer
  of the source is full.\<close>

fun client_do :: "nat \<Rightarrow> client_event \<Rightarrow> stop_client \<Rightarrow> stop_client option" where
  "client_do limit (TaskStep e) c =
     (if cl_phase c = ClientRun \<and> task_event e then
        map_option (\<lambda>h. let c = c\<lparr>cl_hop := h\<rparr> in if hc_tasks h = [] then client_check limit c else c) (hop_do limit e (cl_hop c))
      else None)"
| "client_do limit (NatSet state) c =
     Some (c\<lparr>cl_hop := switch_do (set_nat state) (cl_hop c), cl_raising := cl_raising c + 1\<rparr>)"
| "client_do limit (NatRaised full) c =
     (if 0 < cl_raising c \<and> (full \<longrightarrow> client_buffer \<le> cl_pending c) then
        Some (c\<lparr>cl_raising := cl_raising c - 1, cl_pending := cl_pending c + (if full then 0 else 1)\<rparr>)
      else None)"
| "client_do limit NetworkEvent c =
     (if cl_phase c = ClientWait \<and> 0 < cl_pending c then Some (client_check limit (c\<lparr>cl_pending := cl_pending c - 1\<rparr>)) else None)"
| "client_do limit SourceEnded c =
     (if cl_phase c = ClientWait \<and> cl_pending c = 0 then Some (c\<lparr>cl_phase := ClientClosed\<rparr>) else None)"

fun client_run :: "nat \<Rightarrow> client_event list \<Rightarrow> stop_client \<Rightarrow> stop_client option" where
  "client_run limit [] c = Some c"
| "client_run limit (e # es) c = Option.bind (client_do limit e c) (client_run limit es)"

text \<open>The simulation: the reservations change as in a run of \<open>hop_do\<close>; tasks exist exactly in the running phase; and while the
  client waits although the network is NAT, an event for it is pending or on its way.\<close>

definition client_ok :: "nat \<Rightarrow> mutable_switch \<Rightarrow> stop_client \<Rightarrow> bool" where
  "client_ok limit m c \<longleftrightarrow>
     (\<exists>fs. hop_run limit fs (client_new m) = Some (cl_hop c)) \<and>
     (cl_phase c = ClientRun \<longleftrightarrow> hc_tasks (cl_hop c) \<noteq> []) \<and>
     (cl_phase c = ClientWait \<and> ms_nat (hc_switch (cl_hop c)) = NAT \<longrightarrow> 0 < cl_pending c + cl_raising c)"

lemma hop_run_snoc:
  assumes "hop_run limit fs s = Some t" and "hop_do limit e t = Some u"
  shows "hop_run limit (fs @ [e]) s = Some u"
  using assms by (induction fs arbitrary: s) (auto simp: bind_eq_Some_conv)

lemma check_ok:
  assumes "\<exists>fs. hop_run limit fs (client_new m) = Some (cl_hop c)" and "hc_tasks (cl_hop c) = []" and "0 < limit"
  shows "client_ok limit m (client_check limit c)"
proof (cases "ms_nat (hc_switch (cl_hop c)) = NAT")
  case True
  from assms(1) obtain fs where fs: "hop_run limit fs (client_new m) = Some (cl_hop c)" by blast
  from True assms(2) have "hop_do limit Restart (cl_hop c) = Some (client_start limit (cl_hop c))" by simp
  note run = hop_run_snoc [OF fs this]
  from assms(3) have "hc_tasks (client_start limit (cl_hop c)) \<noteq> []" by (simp add: client_start_def)
  with run True show ?thesis by (auto simp: client_ok_def client_check_def)
next
  case False
  with assms show ?thesis by (simp add: client_ok_def client_check_def)
qed

lemma client_do_ok:
  assumes "client_ok limit m c" and "client_do limit e c = Some c'" and "0 < limit"
  shows "client_ok limit m c'"
proof -
  from assms(1) obtain fs where fs: "hop_run limit fs (client_new m) = Some (cl_hop c)" by (auto simp: client_ok_def)
  show ?thesis
  proof (cases e)
    case (TaskStep f)
    with assms(2) obtain h where h: "cl_phase c = ClientRun" "hop_do limit f (cl_hop c) = Some h"
      "c' = (if hc_tasks h = [] then client_check limit (c\<lparr>cl_hop := h\<rparr>) else c\<lparr>cl_hop := h\<rparr>)"
      by (auto simp: Let_def split: if_splits)
    note run = hop_run_snoc [OF fs h(2)]
    show ?thesis
    proof (cases "hc_tasks h = []")
      case True
      with h(3) check_ok [of limit m "c\<lparr>cl_hop := h\<rparr>"] run assms(3) show ?thesis by auto
    next
      case False
      with h run show ?thesis by (auto simp: client_ok_def)
    qed
  next
    case (NatSet st)
    have "hop_do limit (NatChanged st) (cl_hop c) = Some (switch_do (set_nat st) (cl_hop c))" by simp
    from hop_run_snoc [OF fs this] assms(1,2) NatSet show ?thesis by (auto simp: client_ok_def)
  next
    case (NatRaised full)
    with assms(1,2) show ?thesis by (auto simp: client_ok_def client_buffer_def split: if_splits)
  next
    case NetworkEvent
    with assms(1,2) have c: "c' = client_check limit (c\<lparr>cl_pending := cl_pending c - 1\<rparr>)" "hc_tasks (cl_hop c) = []"
      by (auto simp: client_ok_def split: if_splits)
    show ?thesis unfolding c(1) by (rule check_ok) (use fs c(2) assms(3) in auto)
  next
    case SourceEnded
    with assms(1,2) show ?thesis by (auto simp: client_ok_def split: if_splits)
  qed
qed

lemma client_run_ok: "client_ok limit m c \<Longrightarrow> client_run limit es c = Some c' \<Longrightarrow> 0 < limit \<Longrightarrow> client_ok limit m c'"
  by (induction es arbitrary: c) (auto simp: bind_eq_Some_conv intro: client_do_ok)

text \<open>C15: The reservation client. Its loop is a run of the reservation tasks: at most \<open>channel_limits\<close> of them exist, and none while the
  client waits for the network or has ended. It does not miss that the network became NAT: as long as it waits
  while the state is NAT, a network event is in its source or on its way, and the first one it takes starts all its tasks.\<close>

theorem stop_client_refines:
  assumes "client_run limit es (run_hop_client limit m) = Some c" and "0 < limit"
  shows "(\<exists>fs. hop_run limit fs (client_new m) = Some (cl_hop c)) \<and> length (hc_tasks (cl_hop c)) \<le> limit \<and>
    (cl_phase c = ClientRun \<longleftrightarrow> hc_tasks (cl_hop c) \<noteq> []) \<and>
    (cl_phase c = ClientWait \<and> ms_nat (hc_switch (cl_hop c)) = NAT \<longrightarrow>
       0 < cl_pending c + cl_raising c \<and>
       (0 < cl_pending c \<longrightarrow> (\<exists>c'. client_do limit NetworkEvent c = Some c' \<and> cl_phase c' = ClientRun \<and>
          length (hc_tasks (cl_hop c')) = limit)))"
proof -
  have "client_ok limit m (run_hop_client limit m)"
    unfolding run_hop_client_def by (rule check_ok) (use assms(2) in \<open>auto simp: client_new_def intro: exI [of _ "[]"]\<close>)
  note ok = client_run_ok [OF this assms]
  then obtain fs where fs: "hop_run limit fs (client_new m) = Some (cl_hop c)" by (auto simp: client_ok_def)
  have "tasks_ok limit (client_new m)" by (simp add: tasks_ok_def client_new_def)
  from hop_run_balanced [OF this fs] have len: "length (hc_tasks (cl_hop c)) \<le> limit" by (simp add: tasks_ok_def)
  have "\<exists>c'. client_do limit NetworkEvent c = Some c' \<and> cl_phase c' = ClientRun \<and> length (hc_tasks (cl_hop c')) = limit"
    if "cl_phase c = ClientWait" "ms_nat (hc_switch (cl_hop c)) = NAT" "0 < cl_pending c"
    using that by (simp add: client_check_def client_start_def)
  with ok fs len show ?thesis by (auto simp: client_ok_def)
qed

theorem stop_client_refines_witness:
  "\<exists>c. client_run 1 [NatSet NAT, NatRaised False] (run_hop_client 1 (mutable_new 5)) = Some c \<and> cl_phase c = ClientWait \<and>
     (\<exists>c'. client_do 1 NetworkEvent c = Some c' \<and> length (hc_tasks (cl_hop c')) = 1)"
proof -
  obtain c where c: "client_run 1 [NatSet NAT, NatRaised False] (run_hop_client 1 (mutable_new 5)) = Some c" "cl_phase c = ClientWait"
    "ms_nat (hc_switch (cl_hop c)) = NAT" "cl_pending c = 1"
    by (simp add: run_hop_client_def client_check_def client_new_def mutable_new_def auto_nat_default_def switch_do_def set_nat_def)
  from stop_client_refines [OF c(1)] c show ?thesis by fastforce
qed

end
