(* ===== verification/Mdns.thy ===== *)
theory Mdns
  imports DnsAddr PeerBook
begin

text \<open>
  \<open>mdns/src/lib.rs\<close>: peer discovery by multicast DNS. A node answers each query with the addresses it is bound to, one
  \<open>dnsaddr=\<close> text each, and puts what the answers of others list into the peer book.

  The DNS messages are those of another package: of a record the model has its name and data as far as the code
  sets or reads them. The text form of addresses, its parser and \<open>with_p2p\<close> come from the multiaddr package and are arguments.
\<close>

section \<open>Messages\<close>

datatype dns_type = Query | Response

datatype rdata = PTR string | TXT "bytes list" | OtherData

record dns_record =
  dr_name :: string
  dr_ttl :: "32 word"
  dr_data :: "rdata option"

record dns_message =
  dm_id :: "16 word"
  dm_type :: dns_type
  dm_answers :: "dns_record list"
  dm_additionals :: "dns_record list"

definition QNAME :: string where
  "QNAME = ''_p2p._udp.local''"

text \<open>The multiaddr package: the text of an address as bytes, its UTF-8 check and parser, and \<open>with_p2p\<close>.\<close>

record addr_text =
  at_show :: "multiaddr \<Rightarrow> string"
  at_parse :: "string \<Rightarrow> string + multiaddr"
  at_bytes :: "string \<Rightarrow> bytes"
  at_utf8 :: "bytes \<Rightarrow> string + string"
  at_with_p2p :: "multiaddr \<Rightarrow> peer_id \<Rightarrow> multiaddr option"

datatype mdns_error = MUtf8Error string | MName string

section \<open>Answering a query\<close>

text \<open>
  \<open>name\<close> is \<open>Name::from_utf8\<close> and \<open>Name::from_ascii\<close>; \<open>secs\<close> the interval in seconds. \<open>None\<close> is the panic of the \<open>unwrap\<close>
  for an address that already ends with another peer's id.
\<close>

fun addr_texts :: "addr_text \<Rightarrow> peer_id \<Rightarrow> multiaddr list \<Rightarrow> bytes list option" where
  "addr_texts t local_id [] = Some []"
| "addr_texts t local_id (addr # rest) =
     (case at_with_p2p t addr local_id of
        None \<Rightarrow> None
      | Some addr \<Rightarrow> map_option (\<lambda>texts. at_bytes t (dnsaddr_prefix @ at_show t addr) # texts) (addr_texts t local_id rest))"

definition handle_request ::
    "addr_text \<Rightarrow> (string \<Rightarrow> string + string) \<Rightarrow> string \<Rightarrow> nat \<Rightarrow> peer_id \<Rightarrow> multiaddr list \<Rightarrow> dns_message \<Rightarrow> (mdns_error + dns_message) option" where
  "handle_request t name uuid secs local_id laddrs request =
     (let message = \<lparr>dm_id = dm_id request, dm_type = Response, dm_answers = [], dm_additionals = []\<rparr>
      in case name (uuid @ ''.'' @ QNAME) of
           Inl err \<Rightarrow> Some (Inl (MName err))
         | Inr own \<Rightarrow>
             (case name QNAME of
                Inl err \<Rightarrow> Some (Inl (MName err))
              | Inr qname \<Rightarrow>
                  map_option (\<lambda>addrs. Inr (message\<lparr>
                      dm_answers := [\<lparr>dr_name = qname, dr_ttl = of_nat secs, dr_data = Some (PTR own)\<rparr>],
                      dm_additionals := [\<lparr>dr_name = own, dr_ttl = of_nat secs, dr_data = Some (TXT addrs)\<rparr>]\<rparr>))
                    (addr_texts t local_id laddrs)))"

section \<open>Reading an answer\<close>

text \<open>\<open>str::split\<close> with the pattern \<open>dnsaddr=\<close>: the text before its first occurrence, and the rest split again.\<close>

fun split_once :: "string \<Rightarrow> string \<Rightarrow> (string \<times> string) option" where
  "split_once p s =
     (if take (length p) s = p then Some ([], drop (length p) s)
      else (case s of
              [] \<Rightarrow> None
            | c # rest \<Rightarrow> map_option (\<lambda>(a, b). (c # a, b)) (split_once p rest)))"

declare split_once.simps [simp del]

lemma split_once_Some: "split_once p s = Some (a, b) \<Longrightarrow> s = a @ p @ b"
proof (induction p s arbitrary: a rule: split_once.induct)
  case (1 p s)
  show ?case
  proof (cases "take (length p) s = p")
    case True
    with 1(2) have "a = []" "b = drop (length p) s" by (auto simp: split_once.simps [of p s])
    then show ?thesis using append_take_drop_id [of "length p" s] True by simp
  next
    case False
    with 1(2) obtain c rest a' where "s = c # rest" "split_once p rest = Some (a', b)" "a = c # a'"
      by (auto simp: split_once.simps [of p s] split: list.splits)
    with 1(1) [OF False] show ?thesis by simp
  qed
qed

function split_dnsaddr :: "string \<Rightarrow> string list" where
  "split_dnsaddr s = (case split_once dnsaddr_prefix s of None \<Rightarrow> [s] | Some (a, b) \<Rightarrow> a # split_dnsaddr b)"
  by pat_completeness auto

termination split_dnsaddr
  by (relation "measure length") (auto dest!: split_once_Some simp: dnsaddr_prefix_def)

declare split_dnsaddr.simps [simp del]

text \<open>The addresses of a text, grouped by the peer they end with; an address that does not end with one is skipped.\<close>

fun group_addrs :: "addr_text \<Rightarrow> string list \<Rightarrow> (peer_id \<rightharpoonup> multiaddr list) \<Rightarrow> (peer_id \<rightharpoonup> multiaddr list)" where
  "group_addrs t [] grouped = grouped"
| "group_addrs t (text # rest) grouped =
     (case at_parse t text of
        Inl _ \<Rightarrow> group_addrs t rest grouped
      | Inr raddr \<Rightarrow>
          (case addr_pop raddr of
             Some (P2p i, raddr) \<Rightarrow>
               (case grouped i of
                  Some addrs \<Rightarrow> group_addrs t rest (grouped(i \<mapsto> addrs @ [raddr]))
                | None \<Rightarrow> group_addrs t rest (grouped(i \<mapsto> [raddr])))
           | _ \<Rightarrow> group_addrs t rest grouped))"

text \<open>\<open>order\<close> lists the keys of the map as its iterator does; the result of the insertion is ignored.\<close>

definition insert_groups :: "((peer_id \<rightharpoonup> multiaddr list) \<Rightarrow> peer_id list) \<Rightarrow> (peer_id \<rightharpoonup> multiaddr list) \<Rightarrow> peer_book \<Rightarrow> peer_book" where
  "insert_groups order groups book = fold (\<lambda>i b. snd (book_insert b (peer_info_of i (the (groups i))))) (order groups) book"

fun handle_additionals ::
    "addr_text \<Rightarrow> ((peer_id \<rightharpoonup> multiaddr list) \<Rightarrow> peer_id list) \<Rightarrow> dns_record list \<Rightarrow> (peer_book, mdns_error, unit) act" where
  "handle_additionals t order [] book = (Inr (), book)"
| "handle_additionals t order (r # rest) book =
     (case dr_data r of
        Some (TXT parts) \<Rightarrow>
          (case try_map (\<lambda>x. map_err MUtf8Error (at_utf8 t x)) parts of
             Inl err \<Rightarrow> (Inl err, book)
           | Inr txts \<Rightarrow>
               handle_additionals t order rest
                 (insert_groups order (group_addrs t (split_dnsaddr (concat txts)) Map.empty) book))
      | _ \<Rightarrow> handle_additionals t order rest book)"

definition handle_response ::
    "addr_text \<Rightarrow> ((peer_id \<rightharpoonup> multiaddr list) \<Rightarrow> peer_id list) \<Rightarrow> dns_message \<Rightarrow> (peer_book, mdns_error, unit) act" where
  "handle_response t order message = handle_additionals t order (dm_additionals message)"

section \<open>The loop\<close>

text \<open>
  \<open>discover_loop_prv\<close>: \<open>incoming\<close> is what the network yields, an error ends the loop. A failed multicast does too: \<open>sent\<close> says for each
  message whether it could be sent. The result has the answers sent and the book; the outer \<open>None\<close> is a panic.
\<close>

fun discover_loop ::
    "addr_text \<Rightarrow> (string \<Rightarrow> string + string) \<Rightarrow> (nat \<Rightarrow> string) \<Rightarrow> nat \<Rightarrow> peer_id \<Rightarrow> multiaddr list \<Rightarrow>
     ((peer_id \<rightharpoonup> multiaddr list) \<Rightarrow> peer_id list) \<Rightarrow> (dns_message \<Rightarrow> bool) \<Rightarrow> (string + dns_message) list \<Rightarrow>
     dns_message list \<times> peer_book \<Rightarrow> (dns_message list \<times> peer_book) option" where
  "discover_loop t name uuids secs local_id laddrs order sent [] s = Some s"
| "discover_loop t name uuids secs local_id laddrs order sent (Inl err # rest) s = Some s"
| "discover_loop t name uuids secs local_id laddrs order sent (Inr message # rest) (out, book) =
     (if dm_type message = Query then
        (case handle_request t name (uuids (length rest)) secs local_id laddrs message of
           None \<Rightarrow> None
         | Some (Inr answer) \<Rightarrow>
             (if sent answer then discover_loop t name uuids secs local_id laddrs order sent rest (out @ [answer], book)
              else Some (out, book))
         | Some (Inl err) \<Rightarrow> discover_loop t name uuids secs local_id laddrs order sent rest (out, book))
      else discover_loop t name uuids secs local_id laddrs order sent rest (out, snd (handle_response t order message book)))"

section \<open>Discovery\<close>

text \<open>What the packages document: a string survives UTF-8, the empty text is the empty address, and \<open>with_p2p\<close> appends an id unless
  the address ends with one.\<close>

definition text_law :: "addr_text \<Rightarrow> bool" where
  "text_law t \<longleftrightarrow> (\<forall>s. at_utf8 t (at_bytes t s) = Inr s) \<and> at_parse t [] = Inr [] \<and>
     (\<forall>a i. (\<forall>j. a = [] \<or> last a \<noteq> P2p j) \<longrightarrow> at_with_p2p t a i = Some (addr_with a (P2p i)))"

text \<open>An address that can be announced for a peer: it does not end with a peer id of its own, and with the id of the peer
  its text is read back as itself and has no equals sign, at which the receiver could split it.\<close>

definition announceable :: "addr_text \<Rightarrow> peer_id \<Rightarrow> multiaddr \<Rightarrow> bool" where
  "announceable t peer a \<longleftrightarrow> (\<forall>j. a = [] \<or> last a \<noteq> P2p j) \<and>
     at_parse t (at_show t (addr_with a (P2p peer))) = Inr (addr_with a (P2p peer)) \<and>
     CHR ''='' \<notin> set (at_show t (addr_with a (P2p peer)))"

lemma prefix_eq_sign: "j < 7 \<Longrightarrow> dnsaddr_prefix ! j \<noteq> CHR ''=''"
proof -
  have "\<forall>j<7. dnsaddr_prefix ! j \<noteq> CHR ''=''" by (simp add: dnsaddr_prefix_def All_less_Suc numeral_eq_Suc)
  then show "j < 7 \<Longrightarrow> dnsaddr_prefix ! j \<noteq> CHR ''=''" by blast
qed

lemma no_early_match:
  assumes "s \<noteq> []" and "CHR ''='' \<notin> set s"
  shows "take (length dnsaddr_prefix) (s @ dnsaddr_prefix @ r) \<noteq> dnsaddr_prefix"
proof
  have len: "length dnsaddr_prefix = 8" by (simp add: dnsaddr_prefix_def)
  assume "take (length dnsaddr_prefix) (s @ dnsaddr_prefix @ r) = dnsaddr_prefix"
  then have "take 8 (s @ dnsaddr_prefix @ r) ! 7 = dnsaddr_prefix ! 7" using len by simp
  moreover have "take 8 (s @ dnsaddr_prefix @ r) ! 7 = (s @ dnsaddr_prefix @ r) ! 7" by (rule nth_take) simp
  moreover have "dnsaddr_prefix ! 7 = CHR ''=''" by (simp add: dnsaddr_prefix_def)
  ultimately have eq: "(s @ dnsaddr_prefix @ r) ! 7 = CHR ''=''" by simp
  show False
  proof (cases "7 < length s")
    case True
    with eq have "s ! 7 = CHR ''=''" by (simp add: nth_append)
    with True assms(2) show False by (metis nth_mem)
  next
    case False
    with assms(1) len have "7 - length s < 7" "7 - length s < length dnsaddr_prefix" by (cases s; simp)+
    with eq False prefix_eq_sign show False by (simp add: nth_append)
  qed
qed

lemma split_once_at: "CHR ''='' \<notin> set s \<Longrightarrow> split_once dnsaddr_prefix (s @ dnsaddr_prefix @ r) = Some (s, r)"
proof (induction s)
  case Nil
  show ?case by (simp add: split_once.simps)
next
  case (Cons c s)
  then have "take (length dnsaddr_prefix) ((c # s) @ dnsaddr_prefix @ r) \<noteq> dnsaddr_prefix"
    by (intro no_early_match) simp_all
  with Cons show ?case by (simp add: split_once.simps [of _ "c # s @ dnsaddr_prefix @ r"])
qed

lemma split_texts:
  assumes "\<forall>x\<in>set (s # xs). CHR ''='' \<notin> set x"
  shows "split_dnsaddr (s @ concat (map (\<lambda>x. dnsaddr_prefix @ x) xs)) = s # xs"
  using assms
proof (induction xs arbitrary: s)
  case Nil
  have "split_once dnsaddr_prefix s = None"
  proof (cases "split_once dnsaddr_prefix s")
    case (Some ab)
    then obtain a b where "s = a @ dnsaddr_prefix @ b" by (cases ab) (auto dest: split_once_Some)
    with Nil show ?thesis by (simp add: dnsaddr_prefix_def)
  qed
  then show ?case by (simp add: split_dnsaddr.simps)
next
  case (Cons x xs)
  then show ?case by (simp add: split_dnsaddr.simps [of "s @ _"] split_once_at)
qed

lemma addr_texts_eq:
  assumes "text_law t" and "\<forall>a\<in>set as. announceable t i a"
  shows "addr_texts t i as = Some (map (\<lambda>a. at_bytes t (dnsaddr_prefix @ at_show t (addr_with a (P2p i)))) as)"
  using assms by (induction as) (auto simp: text_law_def announceable_def)

lemma group_addrs_one:
  assumes "\<forall>a\<in>set as. announceable t i a"
  shows "group_addrs t (map (\<lambda>a. at_show t (addr_with a (P2p i))) as) m =
     (if as = [] then m else m(i \<mapsto> (case m i of Some l \<Rightarrow> l | None \<Rightarrow> []) @ as))"
  using assms by (induction as arbitrary: m) (auto simp: announceable_def split: option.splits)

text \<open>C37: Discovery. When a node hears the answer of another, its peer book has exactly the addresses the other is bound to as the
  record of that peer, provided that none of these addresses ends with a peer id of its own and that the text of each, with the id
  of the peer appended, is read back as that address and has no equals sign in it. The record is replaced as a whole: the protocols and addresses that were known
  of the peer before are gone. An answer without addresses changes nothing.\<close>

theorem mdns_discovers:
  assumes "text_law t" and "\<And>m. finite (dom m) \<Longrightarrow> iter_order m (order m)" and "\<forall>a\<in>set laddrs. announceable t peer a"
    and "handle_request t name uuid secs peer laddrs query = Some (Inr answer)"
  shows "dm_id answer = dm_id query \<and> dm_type answer = Response \<and>
    (\<exists>book'. handle_response t order answer book = (Inr (), book') \<and>
      (laddrs = [] \<longrightarrow> book' = book) \<and>
      (laddrs \<noteq> [] \<longrightarrow> book' = snd (book_insert book (peer_info_of peer laddrs)) \<and> book_get book' peer = Inr (Some (peer_info_of peer laddrs))))"
proof -
  let ?texts = "map (\<lambda>a. at_bytes t (dnsaddr_prefix @ at_show t (addr_with a (P2p peer)))) laddrs"
  let ?g = "if laddrs = [] then Map.empty else [peer \<mapsto> laddrs]"
  from assms(4) have ans: "dm_id answer = dm_id query" "dm_type answer = Response"
    "\<exists>r. dm_additionals answer = [r] \<and> dr_data r = Some (TXT ?texts)"
    by (auto simp: handle_request_def Let_def addr_texts_eq [OF assms(1,3)] split: sum.splits)
  have utf8: "try_map (\<lambda>x. map_err MUtf8Error (at_utf8 t x)) ?texts =
      Inr (map (\<lambda>a. dnsaddr_prefix @ at_show t (addr_with a (P2p peer))) laddrs)"
    using assms(1) by (induction laddrs) (auto simp: text_law_def)
  have split: "split_dnsaddr (concat (map (\<lambda>a. dnsaddr_prefix @ at_show t (addr_with a (P2p peer))) laddrs)) =
      [] # map (\<lambda>a. at_show t (addr_with a (P2p peer))) laddrs"
    using split_texts [of "[]" "map (\<lambda>a. at_show t (addr_with a (P2p peer))) laddrs"] assms(3)
    by (simp add: announceable_def comp_def)
  have group: "group_addrs t ([] # map (\<lambda>a. at_show t (addr_with a (P2p peer))) laddrs) Map.empty = ?g"
    using assms(1) by (simp add: group_addrs_one [OF assms(3)] text_law_def addr_pop_def)
  from ans(3) obtain r where r: "dm_additionals answer = [r]" "dr_data r = Some (TXT ?texts)" by blast
  have "handle_response t order answer book = (Inr (), insert_groups order
      (group_addrs t (split_dnsaddr (concat (map (\<lambda>a. dnsaddr_prefix @ at_show t (addr_with a (P2p peer))) laddrs))) Map.empty) book)"
    by (simp only: handle_response_def r handle_additionals.simps option.case rdata.case utf8 sum.case)
  then have resp: "handle_response t order answer book = (Inr (), insert_groups order ?g book)"
    unfolding split group .
  have "order Map.empty = []" using assms(2) [of Map.empty] by (simp add: iter_order_def)
  moreover have "order [peer \<mapsto> laddrs] = [peer]"
  proof -
    have "distinct (order [peer \<mapsto> laddrs])" "set (order [peer \<mapsto> laddrs]) = {peer}"
      using assms(2) [of "[peer \<mapsto> laddrs]"] by (simp_all add: iter_order_def)
    then show ?thesis by (cases "order [peer \<mapsto> laddrs]"; cases "tl (order [peer \<mapsto> laddrs])") auto
  qed
  ultimately have "laddrs = [] \<longrightarrow> insert_groups order ?g book = book"
    "laddrs \<noteq> [] \<longrightarrow> insert_groups order ?g book = snd (book_insert book (peer_info_of peer laddrs))"
    by (simp_all add: insert_groups_def)
  with ans(1,2) resp show ?thesis by (auto simp: book_get_def)
qed

definition sample_text :: addr_text where
  "sample_text = \<lparr>at_show = (\<lambda>a. replicate (Suc (to_nat a)) (CHR ''x'')),
     at_parse = (\<lambda>s. if s = [] then Inr [] else Inr (from_nat (length s - 1))),
     at_bytes = map (\<lambda>c. of_nat (of_char c)), at_utf8 = (\<lambda>b. Inr (map (\<lambda>w. char_of (unat w)) b)),
     at_with_p2p = (\<lambda>a i. Some (addr_with a (P2p i)))\<rparr>"

lemma sample_text_law: "text_law sample_text"
proof -
  have "char_of (unat (of_nat (of_char c) :: 8 word)) = c" for c
    using nat_of_char_less_256 [of c] by (simp add: unat_of_nat)
  then show ?thesis by (simp add: text_law_def sample_text_def comp_def)
qed

definition sample_query :: dns_message where
  "sample_query = \<lparr>dm_id = 7, dm_type = Query, dm_answers = [], dm_additionals = []\<rparr>"

theorem mdns_discovers_witness:
  "\<exists>answer book. handle_request sample_text Inr ''u'' 4 (PeerId 1) [[Ip4 1, Tcp 2]] sample_query = Some (Inr answer) \<and>
     handle_response sample_text (\<lambda>m. sorted_list_of_set (dom m)) answer book_empty = (Inr (), book) \<and>
     book_get book (PeerId 1) = Inr (Some (peer_info_of (PeerId 1) [[Ip4 1, Tcp 2]]))"
proof -
  have ok: "\<forall>a\<in>set [[Ip4 1, Tcp 2]]. announceable sample_text (PeerId 1) a"
    by (simp add: announceable_def sample_text_def)
  have "\<exists>answer. handle_request sample_text Inr ''u'' 4 (PeerId 1) [[Ip4 1, Tcp 2]] sample_query = Some (Inr answer)"
    by (simp add: handle_request_def sample_text_def Let_def)
  then obtain answer where a: "handle_request sample_text Inr ''u'' 4 (PeerId 1) [[Ip4 1, Tcp 2]] sample_query = Some (Inr answer)" ..
  have "\<And>m :: peer_id \<rightharpoonup> multiaddr list. finite (dom m) \<Longrightarrow> iter_order m (sorted_list_of_set (dom m))"
    by (simp add: iter_order_def)
  from mdns_discovers [OF sample_text_law this ok a, of book_empty] a show ?thesis by auto
qed

end
