(* ===== verification/SwitchRun.thy ===== *)
theory SwitchRun
  imports SwitchCore ConnPool SecureConn
begin

text \<open>
  The running switch of \<open>xstack/src/switch/switch.rs\<close>: the parts of SwitchCore, the stream dispatcher and the connection pool
  put together. Accepted and dialed connections go through the handshake and then into the pool, incoming streams are
  negotiated and dispatched, \<open>connect\<close> opens streams, and listeners of protocols accept them (the
  \<open>ProtocolListener\<close> of \<open>xstack/src/stream.rs\<close>, and \<open>P2pConn::connect\<close> and \<open>ping\<close> of \<open>xstack/src/transport.rs\<close>).
\<close>

section \<open>Opening streams\<close>

text \<open>
  \<open>P2pConn::connect\<close>: \<open>opened\<close> is what the driver opens, \<open>select\<close> the negotiation, which is given the stream and the protocols and
  answers with one of them.
\<close>

definition conn_connect ::
    "io_error + 's \<Rightarrow> ('s \<Rightarrow> string list \<Rightarrow> io_error + string) \<Rightarrow> string list \<Rightarrow> io_error + 's \<times> string" where
  "conn_connect opened select protocols =
     and_then opened (\<lambda>stream.
     and_then (select stream protocols) (\<lambda>proto.
     Inr (stream, proto)))"

definition conn_ping ::
    "bytes \<Rightarrow> io_error + stream \<Rightarrow> (stream \<Rightarrow> string list \<Rightarrow> io_error + string) \<Rightarrow> io_error + unit" where
  "conn_ping payload opened select =
     and_then (conn_connect opened select [PROTOCOL_IPFS_PING]) (\<lambda>(stream, _).
     map_err error_to_io (fst (xstack_ping payload stream)))"

text \<open>\<open>Switch::connect\<close>: the target is converted, the pool finds or dials a connection, the stream is opened on it.\<close>

definition switch_connect ::
    "conn_obs \<Rightarrow> (multiaddr \<Rightarrow> xs_error + p2p_conn) \<Rightarrow> nat \<Rightarrow> (multiaddr list \<Rightarrow> multiaddr list) \<Rightarrow> (conn_pool \<Rightarrow> conn_pool) \<Rightarrow>
     (peer_id \<Rightarrow> xs_error + peer_info option) \<Rightarrow> (p2p_conn \<Rightarrow> io_error + 's) \<Rightarrow> ('s \<Rightarrow> string list \<Rightarrow> io_error + string) \<Rightarrow>
     string + connect_to \<Rightarrow> string list \<Rightarrow> conn_pool \<Rightarrow> ((xs_error + 's \<times> string) \<times> conn_pool) option" where
  "switch_connect obs dial r shuffle mid lookup_info opened select target protocols pool =
     (case target of
        Inl err \<Rightarrow> Some (Inl (OtherError err), pool)
      | Inr target \<Rightarrow>
          Option.bind
            (case target of
               PeerIdRef peer_id \<Rightarrow> pool_connect_to obs dial r shuffle mid lookup_info peer_id pool
             | MultiaddrRef raddr \<Rightarrow> pool_connect obs dial r shuffle mid [raddr] pool
             | ToPeerId peer_id \<Rightarrow> pool_connect_to obs dial r shuffle mid lookup_info peer_id pool
             | ToMultiaddr raddr \<Rightarrow> pool_connect obs dial r shuffle mid [raddr] pool
             | MultiaddrsRef addrs \<Rightarrow> pool_connect obs dial r shuffle mid addrs pool
             | ToMultiaddrs addrs \<Rightarrow> pool_connect obs dial r shuffle mid addrs pool)
            (\<lambda>(res, pool). case res of
               Inl err \<Rightarrow> Some (Inl (error_of_io err), pool)
             | Inr conn \<Rightarrow> Some (map_err error_of_io (conn_connect (opened conn) select protocols), pool)))"

section \<open>Incoming connections\<close>

text \<open>
  \<open>handle_incoming\<close>: \<open>accepts\<close> are the results of the listener's \<open>accept\<close>. It spawns a task for each connection, and returns with
  the first error; \<open>None\<close> while the listener still waits.
\<close>

fun handle_incoming :: "(io_error + p2p_conn) list \<Rightarrow> p2p_conn list \<times> io_error option" where
  "handle_incoming [] = ([], None)"
| "handle_incoming (Inl err # rest) = ([], Some err)"
| "handle_incoming (Inr conn # rest) = (case handle_incoming rest of (spawned, res) \<Rightarrow> (conn # spawned, res))"

text \<open>
  The node: the switch, the pool, the connections whose handshake is done and that are about to be added to the
  pool (with the flag of an inbound one), and those that the code closed.
\<close>

record node =
  nd_switch :: switch_st
  nd_pool :: conn_pool
  nd_ready :: "(p2p_conn \<times> bool) list"
  nd_closed :: "p2p_conn list"

definition node_new :: "mutable_switch \<Rightarrow> nat \<Rightarrow> node" where
  "node_new m n =
     \<lparr>nd_switch = \<lparr>sw_mut = m, sw_book = book_empty, sw_disp = disp_new, sw_events = []\<rparr>, nd_pool = pool_new n,
      nd_ready = [], nd_closed = []\<rparr>"

text \<open>The task that \<open>handle_incoming\<close> spawns, up to the lock of the pool; and \<open>transport_connect\<close> by a task that will add the
  connection.\<close>

definition setup_conn :: "codec \<Rightarrow> switch_options \<Rightarrow> nat \<Rightarrow> (xs_error + stream) option \<Rightarrow> p2p_conn \<Rightarrow> node \<Rightarrow> node option" where
  "setup_conn k ops now opened conn s =
     (case handshake k (so_max_packet_size ops) now (conn_id conn) (conn_peer conn) opened (nd_switch s) of
        None \<Rightarrow> None
      | Some (Inl err, sw) \<Rightarrow> Some (s\<lparr>nd_switch := sw, nd_closed := nd_closed s @ [conn]\<rparr>)
      | Some (Inr _, sw) \<Rightarrow> Some (s\<lparr>nd_switch := sw, nd_ready := nd_ready s @ [(conn, True)]\<rparr>))"

definition dial_conn ::
    "codec \<Rightarrow> switch_options \<Rightarrow> nat \<Rightarrow> (transport \<Rightarrow> (xs_error + p2p_conn) option) \<Rightarrow> (p2p_conn \<Rightarrow> (xs_error + stream) option) \<Rightarrow>
     multiaddr \<Rightarrow> node \<Rightarrow> node option" where
  "dial_conn k ops now dial opened raddr s =
     (case transport_connect k ops now dial opened raddr (nd_switch s) of
        None \<Rightarrow> None
      | Some (Inr conn, _, sw) \<Rightarrow> Some (s\<lparr>nd_switch := sw, nd_ready := nd_ready s @ [(conn, False)]\<rparr>)
      | Some (Inl err, closed, sw) \<Rightarrow>
          Some (s\<lparr>nd_switch := sw, nd_closed := nd_closed s @ (case closed of Some c \<Rightarrow> [c] | None \<Rightarrow> [])\<rparr>))"

text \<open>The end of these tasks: the connection goes into the pool, or takes the place of another.\<close>

definition add_ready :: "conn_obs \<Rightarrow> nat \<Rightarrow> string option \<Rightarrow> node \<Rightarrow> node option" where
  "add_ready obs i replaced s =
     (if i < length (nd_ready s) then
        (case nd_ready s ! i of (conn, inbound) \<Rightarrow>
         map_option (\<lambda>pool. s\<lparr>nd_pool := pool, nd_ready := take i (nd_ready s) @ drop (Suc i) (nd_ready s)\<rparr>)
           (case replaced of
              None \<Rightarrow> pool_add obs conn inbound (nd_pool s)
            | Some cid \<Rightarrow> pool_replace obs conn cid inbound (nd_pool s)))
      else Some s)"

section \<open>Incoming streams\<close>

text \<open>
  \<open>handle_incoming_stream\<close>: \<open>select\<close> is the negotiation with the protocols that are served, \<open>None\<close> when it takes too long. What
  \<open>dispatch_stream\<close> returns is only logged.
\<close>

definition handle_incoming_stream ::
    "codec \<Rightarrow> switch_options \<Rightarrow> nat \<Rightarrow> string list \<Rightarrow> (string list \<Rightarrow> (io_error + string) option) \<Rightarrow> peer_id \<Rightarrow> p_stream \<Rightarrow> stream \<Rightarrow>
     switch_st \<Rightarrow> ((xs_error + unit) \<times> switch_st) option" where
  "handle_incoming_stream k ops now order select peer ps io sw =
     (case select (merge_protos (disp_protos order (sw_disp sw))) of
        None \<Rightarrow> Some (Inl Timeout, sw)
      | Some (Inl err) \<Rightarrow> Some (Inl (error_of_io err), sw)
      | Some (Inr protocol_id) \<Rightarrow>
          map_option (\<lambda>(_, sw). (Inr (), sw)) (dispatch_stream k (so_max_packet_size ops) now peer ps io protocol_id sw))"

text \<open>\<open>bind\<close> with a fresh id, and the listener's \<open>accept\<close> and \<open>close\<close> (which \<open>drop\<close> spawns).\<close>

definition switch_bind :: "nat \<Rightarrow> string list \<Rightarrow> switch_st \<Rightarrow> (io_error + nat) \<times> switch_st" where
  "switch_bind fresh protocols sw =
     (case disp_bind fresh protocols (sw_disp sw) of
        (Inl err, d) \<Rightarrow> (Inl err, sw\<lparr>sw_disp := d\<rparr>)
      | (Inr _, d) \<Rightarrow> (Inr fresh, sw\<lparr>sw_disp := d\<rparr>))"

definition listener_accept :: "nat \<Rightarrow> switch_st \<Rightarrow> (io_error + item option) \<times> switch_st" where
  "listener_accept lid sw = (case disp_accept lid (sw_disp sw) of (res, d) \<Rightarrow> (res, sw\<lparr>sw_disp := d\<rparr>))"

definition listener_close :: "nat \<Rightarrow> switch_st \<Rightarrow> switch_st" where
  "listener_close lid sw = sw\<lparr>sw_disp := disp_close lid (sw_disp sw)\<rparr>"

section \<open>The tasks of a node\<close>

datatype node_act =
    NIncoming nat "(xs_error + stream) option" p2p_conn
  | NDial nat "transport \<Rightarrow> (xs_error + p2p_conn) option" "p2p_conn \<Rightarrow> (xs_error + stream) option" multiaddr
  | NAdd conn_obs nat "string option"
  | NClose conn_obs string
  | NStream nat "string list" "string list \<Rightarrow> (io_error + string) option" peer_id p_stream stream
  | NBind nat "string list"
  | NAccept nat
  | NUnbind nat
  | NNat auto_nat

definition on_switch :: "(switch_st \<Rightarrow> switch_st) \<Rightarrow> node \<Rightarrow> node" where
  "on_switch f s = s\<lparr>nd_switch := f (nd_switch s)\<rparr>"

fun node_do :: "codec \<Rightarrow> switch_options \<Rightarrow> node_act \<Rightarrow> node \<Rightarrow> node option" where
  "node_do k ops (NIncoming now opened conn) s = setup_conn k ops now opened conn s"
| "node_do k ops (NDial now dial opened raddr) s = dial_conn k ops now dial opened raddr s"
| "node_do k ops (NAdd obs i replaced) s = add_ready obs i replaced s"
| "node_do k ops (NClose obs cid) s = map_option (\<lambda>pool. s\<lparr>nd_pool := pool\<rparr>) (pool_close obs cid (nd_pool s))"
| "node_do k ops (NStream now order select peer ps io) s =
     map_option (\<lambda>(_, sw). s\<lparr>nd_switch := sw\<rparr>) (handle_incoming_stream k ops now order select peer ps io (nd_switch s))"
| "node_do k ops (NBind lid protocols) s = Some (on_switch (\<lambda>sw. snd (switch_bind lid protocols sw)) s)"
| "node_do k ops (NAccept lid) s = Some (on_switch (\<lambda>sw. snd (listener_accept lid sw)) s)"
| "node_do k ops (NUnbind lid) s = Some (on_switch (listener_close lid) s)"
| "node_do k ops (NNat state) s = Some (on_switch (switch_set_nat state) s)"

fun node_run :: "codec \<Rightarrow> switch_options \<Rightarrow> node_act list \<Rightarrow> node \<Rightarrow> node option" where
  "node_run k ops [] s = Some s"
| "node_run k ops (x # xs) s = Option.bind (node_do k ops x s) (node_run k ops xs)"

text \<open>The connections that an action brings in.\<close>

fun act_conns :: "node_act \<Rightarrow> p2p_conn set" where
  "act_conns (NIncoming _ _ conn) = {conn}"
| "act_conns (NDial _ dial _ _) = {c. \<exists>t. dial t = Some (Inr c)}"
| "act_conns _ = {}"

section \<open>What every node keeps\<close>

definition authenticated :: "switch_st \<Rightarrow> p2p_conn \<Rightarrow> bool" where
  "authenticated sw c \<longleftrightarrow> EvHandshakeSuccess (conn_id c) (conn_peer c) \<in> set (sw_events sw)"

definition node_ok :: "p2p_conn set \<Rightarrow> node \<Rightarrow> bool" where
  "node_ok C s \<longleftrightarrow> disp_ok (sw_disp (nd_switch s)) \<and> pool_good C (nd_pool s) \<and>
     (\<forall>x\<in>set (nd_ready s). fst x \<in> C \<and> authenticated (nd_switch s) (fst x)) \<and>
     (\<forall>c. holds_conn (nd_pool s) c \<longrightarrow> authenticated (nd_switch s) c)"

lemma node_okD:
  assumes "node_ok C s"
  shows "disp_ok (sw_disp (nd_switch s))" "pool_good C (nd_pool s)" "inj_on conn_id C" "pool_ok C (nd_pool s)"
    "x \<in> set (nd_ready s) \<Longrightarrow> fst x \<in> C \<and> authenticated (nd_switch s) (fst x)"
    "holds_conn (nd_pool s) c \<Longrightarrow> authenticated (nd_switch s) c"
  using assms by (auto simp: node_ok_def pool_good_def)

text \<open>A step of the switch alone, which keeps the dispatcher and only adds events.\<close>

definition switch_step :: "switch_st \<Rightarrow> switch_st \<Rightarrow> bool" where
  "switch_step sw sw' \<longleftrightarrow> disp_ok (sw_disp sw') \<and> set (sw_events sw) \<subseteq> set (sw_events sw')"

lemma switch_step_ok:
  assumes "node_ok C s" and "switch_step (nd_switch s) sw"
  shows "node_ok C (s\<lparr>nd_switch := sw\<rparr>)" "node_ok C (s\<lparr>nd_switch := sw, nd_closed := cs\<rparr>)"
  using assms by (auto simp: node_ok_def switch_step_def authenticated_def)

lemma ready_ok:
  assumes "node_ok C s" and "switch_step (nd_switch s) sw" and "c \<in> C" and "authenticated sw c"
  shows "node_ok C (s\<lparr>nd_switch := sw, nd_ready := nd_ready s @ [(c, b)]\<rparr>)"
  using assms by (auto simp: node_ok_def switch_step_def authenticated_def)

lemma handshake_step:
  assumes "disp_ok (sw_disp sw)"
  shows "\<exists>r sw'. handshake k n now (conn_id c) (conn_peer c) opened sw = Some (r, sw') \<and> switch_step sw sw' \<and>
    (case r of Inr _ \<Rightarrow> authenticated sw' c | Inl _ \<Rightarrow> True)"
proof (cases "\<exists>io. opened = Some (Inr io)")
  case True
  then obtain io where "opened = Some (Inr io)" by blast
  with handshake_answered [OF assms, of k n now "conn_id c" "conn_peer c" io] show ?thesis
    by (fastforce simp: switch_step_def authenticated_def split: sum.splits)
next
  case False
  then obtain e where e: "opened = None \<and> e = Timeout \<or> opened = Some (Inl e)"
    by (metis not_None_eq sum.exhaust)
  from handshake_unanswered [OF e] disp_handshake_ok [OF assms] show ?thesis by (simp add: switch_step_def)
qed

lemma stream_step:
  assumes "disp_ok (sw_disp sw)"
  shows "\<exists>r sw'. handle_incoming_stream k ops now order select peer ps io sw = Some (r, sw') \<and> switch_step sw sw'"
proof (cases "select (merge_protos (disp_protos order (sw_disp sw)))")
  case None
  with assms show ?thesis by (simp add: handle_incoming_stream_def switch_step_def)
next
  case (Some res)
  show ?thesis
  proof (cases res)
    case (Inl e)
    with Some assms show ?thesis by (simp add: handle_incoming_stream_def switch_step_def)
  next
    case (Inr proto)
    obtain r sw1 where push: "identity_push k (so_max_packet_size ops) now peer io sw = (r, sw1)" by fastforce
    obtain n d where d: "disp_dispatch (ps, proto) (sw_disp sw) = Some (n, d)" "disp_ok d"
      using disp_dispatch_ok [OF assms] by blast
    from identity_push_disp [OF push] d push Some Inr assms show ?thesis
      by (auto simp: handle_incoming_stream_def dispatch_stream_def switch_step_def)
  qed
qed

lemma bind_step: "disp_ok (sw_disp sw) \<Longrightarrow> switch_step sw (snd (switch_bind lid ps sw))"
  using disp_bind_ok [of "sw_disp sw" lid ps]
  by (auto simp: switch_bind_def switch_step_def split: prod.splits sum.splits)

lemma accept_step: "disp_ok (sw_disp sw) \<Longrightarrow> switch_step sw (snd (listener_accept lid sw))"
  using disp_accept_ok [of "sw_disp sw" lid] by (auto simp: listener_accept_def switch_step_def split: prod.splits)

lemma close_step: "disp_ok (sw_disp sw) \<Longrightarrow> switch_step sw (listener_close lid sw)"
  using disp_close_ok [of "sw_disp sw" lid] by (simp add: listener_close_def switch_step_def)

lemma nat_step: "disp_ok (sw_disp sw) \<Longrightarrow> switch_step sw (switch_set_nat st sw)"
  by (auto simp: switch_set_nat_def switch_step_def)

section \<open>The pool of a node\<close>

text \<open>Every way a ready connection enters the pool: it panics never, and brings in only that connection.\<close>

lemma pool_add_holds:
  assumes "pool_good C pool" and "c \<in> C"
  shows "\<exists>pool'. pool_add obs c b pool = Some pool' \<and> pool_good C pool' \<and> (\<forall>x. holds_conn pool' x \<longrightarrow> x = c \<or> holds_conn pool x)"
proof -
  from assms(1) have ok: "pool_ok C pool" "inj_on conn_id C" by (simp_all add: pool_good_def)
  from pool_add_ok [OF ok(1) assms(2) ok(2), of obs b] obtain pool' where
    p: "pool_add obs c b pool = Some pool'" "pool_ok C pool'" "conns pool' = ((conns pool) |` (- dropped obs pool))(conn_id c \<mapsto> c)"
    by blast
  have "holds_conn pool' x \<Longrightarrow> x = c \<or> holds_conn pool x" for x
    by (auto simp: holds_conn_def p(3) restrict_map_def split: if_splits)
  with p(1,2) ok(2) show ?thesis by (auto simp: pool_good_def)
qed

lemma pool_close_holds:
  assumes "pool_good C pool"
  shows "\<exists>pool'. pool_close obs cid pool = Some pool' \<and> pool_good C pool' \<and> (\<forall>x. holds_conn pool' x \<longrightarrow> holds_conn pool x)"
proof -
  from assms have ok: "pool_ok C pool" "inj_on conn_id C" by (simp_all add: pool_good_def)
  from pool_remove_ok [OF ok(1), of obs cid] obtain pool' where
    p: "pool_remove obs cid pool = Some pool'" "pool_ok C pool'" "conns pool' = (conns pool)(cid := None)" by blast
  have "holds_conn pool' x \<Longrightarrow> holds_conn pool x" for x
    by (auto simp: holds_conn_def p(3) split: if_splits)
  with p(1,2) ok(2) show ?thesis by (auto simp: pool_good_def pool_close_def)
qed

lemma pool_replace_holds:
  assumes "pool_good C pool" and "c \<in> C"
  shows "\<exists>pool'. pool_replace obs c cid b pool = Some pool' \<and> pool_good C pool' \<and> (\<forall>x. holds_conn pool' x \<longrightarrow> x = c \<or> holds_conn pool x)"
proof -
  from pool_close_holds [OF assms(1), of obs cid] obtain p1 where
    p1: "pool_remove obs cid pool = Some p1" "pool_good C p1" "\<forall>x. holds_conn p1 x \<longrightarrow> holds_conn pool x"
    by (auto simp: pool_close_def)
  from pool_add_holds [OF p1(2) assms(2), of obs b] p1 show ?thesis by (auto simp: pool_replace_def)
qed

lemma add_ready_ok:
  assumes "node_ok C s"
  shows "\<exists>s'. add_ready obs i replaced s = Some s' \<and> node_ok C s'"
proof (cases "i < length (nd_ready s)")
  case False
  with assms show ?thesis by (simp add: add_ready_def)
next
  case True
  obtain c b where cb: "nd_ready s ! i = (c, b)" by fastforce
  with True have mem: "(c, b) \<in> set (nd_ready s)" by (metis nth_mem)
  from node_okD(5) [OF assms mem] have c: "c \<in> C" "authenticated (nd_switch s) c" by simp_all
  have "\<exists>pool'. (case replaced of None \<Rightarrow> pool_add obs c b (nd_pool s) | Some cid \<Rightarrow> pool_replace obs c cid b (nd_pool s)) = Some pool' \<and>
      pool_good C pool' \<and> (\<forall>x. holds_conn pool' x \<longrightarrow> x = c \<or> holds_conn (nd_pool s) x)"
    using pool_add_holds [OF node_okD(2) [OF assms] c(1)] pool_replace_holds [OF node_okD(2) [OF assms] c(1)]
    by (cases replaced) simp_all
  then obtain pool' where p: "(case replaced of None \<Rightarrow> pool_add obs c b (nd_pool s) | Some cid \<Rightarrow> pool_replace obs c cid b (nd_pool s)) = Some pool'"
      "pool_good C pool'" "\<forall>x. holds_conn pool' x \<longrightarrow> x = c \<or> holds_conn (nd_pool s) x" by blast
  let ?s = "s\<lparr>nd_pool := pool', nd_ready := take i (nd_ready s) @ drop (Suc i) (nd_ready s)\<rparr>"
  have "add_ready obs i replaced s = Some ?s" using True cb p(1) by (simp add: add_ready_def)
  moreover have "x \<in> set (nd_ready s)" if "x \<in> set (take i (nd_ready s) @ drop (Suc i) (nd_ready s))" for x
    using that in_set_takeD in_set_dropD by fastforce
  then have "node_ok C ?s" using assms p(2,3) c(2) unfolding node_ok_def by simp blast
  ultimately show ?thesis by blast
qed

section \<open>The node as a whole\<close>

lemma setup_conn_ok:
  assumes "node_ok C s" and "conn \<in> C"
  shows "\<exists>s'. setup_conn k ops now opened conn s = Some s' \<and> node_ok C s'"
proof -
  from handshake_step [OF node_okD(1) [OF assms(1)], of k "so_max_packet_size ops" now conn opened] obtain r sw where
    h: "handshake k (so_max_packet_size ops) now (conn_id conn) (conn_peer conn) opened (nd_switch s) = Some (r, sw)"
      "switch_step (nd_switch s) sw" "case r of Inr _ \<Rightarrow> authenticated sw conn | Inl _ \<Rightarrow> True" by blast
  show ?thesis
  proof (cases r)
    case (Inl e)
    with h(1) switch_step_ok(2) [OF assms(1) h(2)] show ?thesis by (simp add: setup_conn_def)
  next
    case (Inr u)
    with h(1,3) ready_ok [OF assms(1) h(2) assms(2)] show ?thesis by (simp add: setup_conn_def)
  qed
qed

lemma dial_conn_ok:
  assumes "node_ok C s" and "\<forall>c t. dial t = Some (Inr c) \<longrightarrow> c \<in> C"
  shows "\<exists>s'. dial_conn k ops now dial opened raddr s = Some s' \<and> node_ok C s'"
proof (cases "\<exists>t c. get_transport_by_address ops raddr = Some t \<and> dial t = Some (Inr c)")
  case False
  then have "\<exists>e. transport_connect k ops now dial opened raddr (nd_switch s) = Some (Inl e, None, nd_switch s)"
    by (auto simp: transport_connect_def split: option.splits sum.splits)
  moreover have "node_ok C (s\<lparr>nd_closed := cs\<rparr>)" for cs using assms(1) by (simp add: node_ok_def)
  moreover have "s\<lparr>nd_switch := nd_switch s, nd_closed := cs\<rparr> = s\<lparr>nd_closed := cs\<rparr>" for cs by simp
  ultimately show ?thesis using assms(1) by (auto simp: dial_conn_def)
next
  case True
  then obtain t c where tc: "get_transport_by_address ops raddr = Some t" "dial t = Some (Inr c)" by blast
  from handshake_step [OF node_okD(1) [OF assms(1)], of k "so_max_packet_size ops" now c "opened c"] obtain r sw where
    h: "handshake k (so_max_packet_size ops) now (conn_id c) (conn_peer c) (opened c) (nd_switch s) = Some (r, sw)"
      "switch_step (nd_switch s) sw" "case r of Inr _ \<Rightarrow> authenticated sw c | Inl _ \<Rightarrow> True" by blast
  have cC: "c \<in> C" using assms(2) tc(2) by blast
  show ?thesis
  proof (cases r)
    case (Inl e)
    with h(1) tc switch_step_ok(2) [OF assms(1) h(2)] show ?thesis by (simp add: dial_conn_def transport_connect_def)
  next
    case (Inr u)
    with h(1,3) tc ready_ok [OF assms(1) h(2) cC] show ?thesis by (simp add: dial_conn_def transport_connect_def)
  qed
qed

lemma node_do_ok:
  assumes "node_ok C s" and "act_conns x \<subseteq> C"
  shows "\<exists>s'. node_do k ops x s = Some s' \<and> node_ok C s'"
proof (cases x)
  case (NIncoming now opened conn)
  with assms(2) setup_conn_ok [OF assms(1)] show ?thesis by simp
next
  case (NDial now dial opened raddr)
  have "\<forall>c t. dial t = Some (Inr c) \<longrightarrow> c \<in> C" using NDial assms(2) by auto
  from dial_conn_ok [OF assms(1) this] NDial show ?thesis by simp
next
  case (NAdd obs i replaced)
  with add_ready_ok [OF assms(1)] show ?thesis by simp
next
  case (NClose obs cid)
  from pool_close_holds [OF node_okD(2) [OF assms(1)], of obs cid] obtain pool where
    "pool_close obs cid (nd_pool s) = Some pool" "pool_good C pool" "\<forall>x. holds_conn pool x \<longrightarrow> holds_conn (nd_pool s) x" by blast
  with assms(1) NClose show ?thesis by (simp add: node_ok_def)
next
  case (NStream now order select peer ps io)
  from stream_step [OF node_okD(1) [OF assms(1)], of k ops now order select peer ps io] obtain r sw where
    "handle_incoming_stream k ops now order select peer ps io (nd_switch s) = Some (r, sw)" "switch_step (nd_switch s) sw" by blast
  with NStream switch_step_ok(1) [OF assms(1)] show ?thesis by simp
next
  case (NBind lid ps)
  with switch_step_ok(1) [OF assms(1) bind_step [OF node_okD(1) [OF assms(1)]]] show ?thesis by (simp add: on_switch_def)
next
  case (NAccept lid)
  with switch_step_ok(1) [OF assms(1) accept_step [OF node_okD(1) [OF assms(1)]]] show ?thesis by (simp add: on_switch_def)
next
  case (NUnbind lid)
  with switch_step_ok(1) [OF assms(1) close_step [OF node_okD(1) [OF assms(1)]]] show ?thesis by (simp add: on_switch_def)
next
  case (NNat st)
  with switch_step_ok(1) [OF assms(1) nat_step [OF node_okD(1) [OF assms(1)]]] show ?thesis by (simp add: on_switch_def)
qed

lemma node_run_ok:
  "node_ok C s \<Longrightarrow> \<forall>x\<in>set xs. act_conns x \<subseteq> C \<Longrightarrow> \<exists>s'. node_run k ops xs s = Some s' \<and> node_ok C s'"
proof (induction xs arbitrary: s)
  case (Cons x xs)
  from node_do_ok [OF Cons.prems(1), of x k ops] Cons.prems(2) obtain s1 where "node_do k ops x s = Some s1" "node_ok C s1" by auto
  with Cons.IH [of s1] Cons.prems(2) show ?case by simp
qed simp

lemma node_new_ok: "inj_on conn_id C \<Longrightarrow> node_ok C (node_new m n)"
  using pool_new_ok [of C n] by (simp add: node_ok_def node_new_def disp_new_ok pool_good_def holds_conn_def pool_new_def)

text \<open>C1: A pooled connection is an authenticated one. However the tasks of a node interleave, as long as an id names one
  connection, no step of it panics, and for every connection that the pool holds, and so for every one that
  \<open>connect\<close> can hand out again, a handshake with exactly its peer has succeeded.\<close>

theorem pooled_authenticated:
  assumes "inj_on conn_id C" and "\<forall>x\<in>set xs. act_conns x \<subseteq> C"
  shows "\<exists>s. node_run k ops xs (node_new m n) = Some s \<and>
    (\<forall>c. holds_conn (nd_pool s) c \<longrightarrow> EvHandshakeSuccess (conn_id c) (conn_peer c) \<in> set (sw_events (nd_switch s))) \<and>
    (\<forall>r p c. by_peer_id r (nd_pool s) p = Some (Some c) \<longrightarrow> conn_peer c = p \<and> EvHandshakeSuccess (conn_id c) p \<in> set (sw_events (nd_switch s)))"
proof -
  from node_run_ok [OF node_new_ok [OF assms(1)] assms(2)] obtain s where
    s: "node_run k ops xs (node_new m n) = Some s" "node_ok C s" by blast
  have "conn_peer c = p \<and> holds_conn (nd_pool s) c" if "by_peer_id r (nd_pool s) p = Some (Some c)" for r p c
    using pool_find_law [OF node_okD(4) [OF s(2)], of r p] that by auto
  with node_okD(6) [OF s(2)] s(1) show ?thesis by (auto simp: authenticated_def)
qed

theorem pooled_authenticated_witness:
  "\<exists>s. node_run (one_message_codec sample_identity) (options_new ''agent'') [NIncoming 9 None conn_a, NAdd all_idle 0 None, NNat NAT]
     (node_new (mutable_new 5) 20) = Some s \<and> \<not> holds_conn (nd_pool s) conn_a"
proof -
  let ?k = "one_message_codec sample_identity" and ?xs = "[NIncoming 9 None conn_a, NAdd all_idle 0 None, NNat NAT]"
  have xs: "\<forall>x\<in>set ?xs. act_conns x \<subseteq> {conn_a}" by simp
  from pooled_authenticated [OF _ xs, of ?k "options_new ''agent''" "mutable_new 5" 20] obtain s where
    s: "node_run ?k (options_new ''agent'') ?xs (node_new (mutable_new 5) 20) = Some s"
      "\<forall>c. holds_conn (nd_pool s) c \<longrightarrow> EvHandshakeSuccess (conn_id c) (conn_peer c) \<in> set (sw_events (nd_switch s))" by auto
  from s(1) have "sw_events (nd_switch s) = [EvNetwork NAT]"
    by (auto simp: setup_conn_def handshake_def node_new_def add_ready_def on_switch_def switch_set_nat_def)
  with s show ?thesis by auto
qed

section \<open>A listener and its peers\<close>

lemma handle_incoming_all: "handle_incoming (map Inr cs) = (cs, None)"
  by (induction cs) simp_all

lemma handle_incoming_stops:
  "length (fst (handle_incoming (pre @ Inl e # post))) \<le> length pre \<and> snd (handle_incoming (pre @ Inl e # post)) \<noteq> None"
proof (induction pre)
  case (Cons x pre)
  then show ?case by (cases x; cases "handle_incoming (pre @ Inl e # post)") simp_all
qed simp

lemma listener_accept_rejects:
  assumes "handshake_law net" and "\<And>cb cfg name cert. tn_handshake net cb cfg name = Inr cert \<Longrightarrow> cert = bad"
    and "tls_verify_callback v t2 bad \<noteq> Inr ()"
  shows "\<exists>e. tls_listener_accept d v ks signer (t1, t2, t3) uuid la relay (Inr (Some (net, raddr))) n = (Inl e, n)"
proof -
  have no: "tn_handshake net (tls_verify_callback v t2) cfg None \<noteq> Inr cert" for cfg cert
    using assms unfolding handshake_law_def by blast
  have "\<exists>e. tls_accept d v (t2, t3) net uuid cfg la raddr relay n = (Inl e, n)" for cfg
  proof (cases "tn_handshake net (tls_verify_callback v t2) cfg None")
    case (Inl e)
    then show ?thesis by (cases "tn_select_tls net") (simp_all add: tls_accept_cases)
  next
    case (Inr cert)
    with no show ?thesis by blast
  qed
  then show ?thesis
    by (cases "create_ssl_config d v signer t1 ks (tn_config net)") (simp_all add: tls_listener_accept_def act_lift_bind)
qed

text \<open>C33: One peer stops a listener. The listener of a TLS transport makes the handshake with a peer inside \<open>accept\<close>, and
  \<open>handle_incoming\<close> returns with the first error of \<open>accept\<close>. So when one peer has no certificate
  that is accepted, the loop ends: no connection that would come after it is ever served.
  Without such a peer every connection is.\<close>

theorem bad_peer_stops_listener:
  assumes "handshake_law net" and "\<And>cb cfg name cert. tn_handshake net cb cfg name = Inr cert \<Longrightarrow> cert = bad"
    and "tls_verify_callback v t2 bad \<noteq> Inr ()"
    and "tls_listener_accept d v ks signer (t1, t2, t3) uuid la relay (Inr (Some (net, raddr))) n = (r, n')"
  shows "(\<exists>err. snd (handle_incoming (pre @ map_sum id (tls_p2p_conn kp) r # post)) = Some err) \<and>
    length (fst (handle_incoming (pre @ map_sum id (tls_p2p_conn kp) r # post))) \<le> length pre \<and>
    handle_incoming (map Inr cs) = (cs, None)"
proof -
  obtain e where "r = Inl e"
    using listener_accept_rejects [where d = d and ks = ks and signer = signer and uuid = uuid and la = la and relay = relay and
      raddr = raddr and n = n and ?t1.0 = t1 and ?t3.0 = t3 and net = net and bad = bad, OF assms(1) _ assms(3)] assms(2,4)
    by (metis prod.inject)
  with handle_incoming_stops [of pre e post] show ?thesis by (auto simp: handle_incoming_all)
qed

definition anonymous_net :: tls_net where
  "anonymous_net = \<lparr>tn_config = (\<lambda>_. Inr ()), tn_select_tls = Inr (),
     tn_handshake = (\<lambda>cb cfg name. case cb None of Inr _ \<Rightarrow> Inr None | Inl _ \<Rightarrow> Inl ''certificate required''),
     tn_select_yamux = Inr ()\<rparr>"

theorem bad_peer_stops_listener_witness:
  "\<exists>e. tls_listener_accept (\<lambda>_. []) (toy_env toy_generated) (memory_keystore (PublicKey 3) Inr) 0 (0, 1, 2) ''c'' [] False
       (Inr (Some (anonymous_net, []))) 0 = (Inl e, 0) \<and> fst (handle_incoming [Inl e, Inr conn_a]) = []"
proof -
  obtain r n' where r: "tls_listener_accept (\<lambda>_. []) (toy_env toy_generated) (memory_keystore (PublicKey 3) Inr) 0 (0, 1, 2) ''c'' [] False
       (Inr (Some (anonymous_net, []))) 0 = (r, n')" by fastforce
  have law: "handshake_law anonymous_net" by (auto simp: handshake_law_def anonymous_net_def split: sum.splits)
  have bad: "\<And>cb cfg name cert. tn_handshake anonymous_net cb cfg name = Inr cert \<Longrightarrow> cert = None"
    by (auto simp: anonymous_net_def split: sum.splits)
  have rej: "tls_verify_callback (toy_env toy_generated) 1 None \<noteq> Inr ()" by (simp add: tls_verify_callback_def)
  from bad_peer_stops_listener [where pre = "[]" and post = "[Inr conn_a]" and kp = some_key_peer, OF law bad rej r]
  have "fst (handle_incoming (map_sum id (tls_p2p_conn some_key_peer) r # [Inr conn_a])) = []" by simp
  moreover from r obtain e where "r = Inl e" "n' = 0"
    by (auto simp: tls_listener_accept_def act_lift_bind tls_accept_cases anonymous_net_def tls_verify_callback_def split: sum.splits)
  ultimately show ?thesis using r by simp
qed

end
