(* ===== verification/NodeContext.thy ===== *)
theory NodeContext
  imports SwitchRun
begin

text \<open>
  What surrounds a running switch: the ids it gives to listeners and event sources (\<open>XStackId\<close> of \<open>xstack/src/lib.rs\<close>), the switch of
  the process (\<open>xstack/src/global.rs\<close>), the loop that takes the streams of a connection (\<open>switch.rs\<close>), and the ping of a target
  (\<open>ProtocolStream::ping_with\<close> of \<open>xstack/src/transport.rs\<close>); and the calls by which the components use the peer book and the mutable part
  of their switch.
\<close>

section \<open>Ids\<close>

text \<open>\<open>XStackId::default\<close>: the counter of the process before and after.\<close>

definition xstack_id_default :: "64 word \<Rightarrow> 64 word \<times> 64 word" where
  "xstack_id_default next_id = (next_id, next_id + 1)"

fun xstack_ids :: "nat \<Rightarrow> 64 word \<Rightarrow> 64 word list" where
  "xstack_ids 0 next_id = []"
| "xstack_ids (Suc n) next_id = (case xstack_id_default next_id of (i, next_id) \<Rightarrow> i # xstack_ids n next_id)"

lemma xstack_ids_eq: "xstack_ids n k = map (\<lambda>i. k + of_nat i) [0..<n]"
proof (induction n arbitrary: k)
  case (Suc n)
  have "[0..<Suc n] = 0 # map Suc [0..<n]" by (simp add: upt_conv_Cons map_Suc_upt del: upt_Suc)
  with Suc show ?case by (simp add: xstack_id_default_def comp_def add.assoc del: upt_Suc)
qed simp

lemma of_nat_64_inj: "i < 2 ^ 64 \<Longrightarrow> j < 2 ^ 64 \<Longrightarrow> (of_nat i :: 64 word) = of_nat j \<longleftrightarrow> i = j"
  by (simp add: word_of_nat_eq_iff take_bit_nat_eq_self)

text \<open>Ids are given out once, until the counter wraps: up to \<open>2 ^ 64\<close> ids in a row are distinct, and the next one is the first again.\<close>

lemma xstack_ids_distinct:
  assumes "n \<le> 2 ^ 64"
  shows "distinct (xstack_ids n k)"
proof -
  have "inj_on (\<lambda>i. k + of_nat i) {0..<n}"
    using assms of_nat_64_inj by (intro inj_onI) simp
  then show ?thesis by (simp add: xstack_ids_eq distinct_map)
qed

lemma xstack_ids_wrap: "xstack_ids (2 ^ 64 + 1) k ! (2 ^ 64) = k"
proof -
  have "(of_nat (2 ^ 64) :: 64 word) = 0" by simp
  then show ?thesis unfolding xstack_ids_eq by (simp del: of_nat_power of_nat_numeral upt_Suc)
qed

section \<open>The switch of the process\<close>

text \<open>\<open>None\<close> is the panic: of a second registration, and of a use before the first.\<close>

definition register_switch :: "'sw \<Rightarrow> 'sw option \<Rightarrow> 'sw option option" where
  "register_switch switch global = (case global of None \<Rightarrow> Some (Some switch) | Some _ \<Rightarrow> None)"

definition global_switch :: "'sw option \<Rightarrow> 'sw option" where
  "global_switch global = (case global of Some switch \<Rightarrow> Some switch | None \<Rightarrow> None)"

lemma register_once:
  assumes "register_switch sw global = Some global'"
  shows "global_switch global = None" "global_switch global' = Some sw" "register_switch sw2 global' = None"
  using assms by (auto simp: register_switch_def global_switch_def split: option.splits)

section \<open>The streams of a connection\<close>

text \<open>\<open>incoming_stream_loop\<close> over the results of the connection's \<open>accept\<close>: the streams it spawns a task for, and the error with which it
  ends (then the connection is closed), or \<open>None\<close> while it waits.\<close>

fun incoming_stream_loop :: "(io_error + 's) list \<Rightarrow> 's list \<times> xs_error option" where
  "incoming_stream_loop [] = ([], None)"
| "incoming_stream_loop (Inl err # rest) = ([], Some (error_of_io err))"
| "incoming_stream_loop (Inr stream # rest) =
     (case incoming_stream_loop rest of (spawned, res) \<Rightarrow> (stream # spawned, res))"

lemma incoming_stream_loop_spawns:
  "map Inr (fst (incoming_stream_loop rs)) = takeWhile (\<lambda>r. \<exists>s. r = Inr s) rs"
  "snd (incoming_stream_loop rs) = None \<longleftrightarrow> (\<forall>r\<in>set rs. \<exists>s. r = Inr s)"
  by (induction rs rule: incoming_stream_loop.induct) (auto split: prod.split)

section \<open>Ping\<close>

definition ping_with ::
    "bytes \<Rightarrow> conn_obs \<Rightarrow> (multiaddr \<Rightarrow> xs_error + p2p_conn) \<Rightarrow> nat \<Rightarrow> (multiaddr list \<Rightarrow> multiaddr list) \<Rightarrow> (conn_pool \<Rightarrow> conn_pool) \<Rightarrow>
     (peer_id \<Rightarrow> xs_error + peer_info option) \<Rightarrow> (p2p_conn \<Rightarrow> io_error + stream) \<Rightarrow> (stream \<Rightarrow> string list \<Rightarrow> io_error + string) \<Rightarrow>
     string + connect_to \<Rightarrow> conn_pool \<Rightarrow> ((xs_error + unit) \<times> conn_pool) option" where
  "ping_with payload obs dial r shuffle mid lookup_info opened select target pool =
     (case switch_connect obs dial r shuffle mid lookup_info opened select target [PROTOCOL_IPFS_PING] pool of
        None \<Rightarrow> None
      | Some (Inl err, pool) \<Rightarrow> Some (Inl err, pool)
      | Some (Inr (stream, _), pool) \<Rightarrow> Some (fst (xstack_ping payload stream), pool))"

lemma ping_echoes:
  assumes "length buf = 32" and "st_room s = None"
  shows "fst (xstack_ping buf s) = Inr () \<longleftrightarrow> take 32 (st_in s) = buf"
  using assms by (auto simp: xstack_ping_def act_bind_def write_all_def read_exact_def act_err_def act_ok_def)

text \<open>A ping succeeds exactly when a connection to the target is there or is made, the other side speaks the protocol, and its first 32 bytes
  are the payload.\<close>

lemma ping_with_ok:
  assumes "length payload = 32"
    and "switch_connect obs dial r shuffle mid lookup_info opened select target [PROTOCOL_IPFS_PING] pool = Some (res, pool')"
    and "\<And>s proto. res = Inr (s, proto) \<Longrightarrow> st_room s = None"
  shows "ping_with payload obs dial r shuffle mid lookup_info opened select target pool = Some (Inr (), pool') \<longleftrightarrow>
    (\<exists>s proto. res = Inr (s, proto) \<and> take 32 (st_in s) = payload)"
  using assms ping_echoes by (cases res) (auto simp: ping_with_def)

section \<open>Streams of the global switch\<close>

text \<open>\<open>ProtocolStream::connect_with\<close>, and \<open>connect\<close> and \<open>ping\<close>, which use the switch of the process and panic without one. Of the switch, its pool.\<close>

definition connect_with ::
    "conn_obs \<Rightarrow> (multiaddr \<Rightarrow> xs_error + p2p_conn) \<Rightarrow> nat \<Rightarrow> (multiaddr list \<Rightarrow> multiaddr list) \<Rightarrow> (conn_pool \<Rightarrow> conn_pool) \<Rightarrow>
     (peer_id \<Rightarrow> xs_error + peer_info option) \<Rightarrow> (p2p_conn \<Rightarrow> io_error + 's) \<Rightarrow> ('s \<Rightarrow> string list \<Rightarrow> io_error + string) \<Rightarrow>
     conn_pool \<Rightarrow> string + connect_to \<Rightarrow> string list \<Rightarrow> ((xs_error + 's \<times> string) \<times> conn_pool) option" where
  "connect_with obs dial r shuffle mid lookup_info opened select pool target protocols =
     switch_connect obs dial r shuffle mid lookup_info opened select target protocols pool"

definition global_connect ::
    "conn_obs \<Rightarrow> (multiaddr \<Rightarrow> xs_error + p2p_conn) \<Rightarrow> nat \<Rightarrow> (multiaddr list \<Rightarrow> multiaddr list) \<Rightarrow> (conn_pool \<Rightarrow> conn_pool) \<Rightarrow>
     (peer_id \<Rightarrow> xs_error + peer_info option) \<Rightarrow> (p2p_conn \<Rightarrow> io_error + 's) \<Rightarrow> ('s \<Rightarrow> string list \<Rightarrow> io_error + string) \<Rightarrow>
     conn_pool option \<Rightarrow> string + connect_to \<Rightarrow> string list \<Rightarrow> ((xs_error + 's \<times> string) \<times> conn_pool) option" where
  "global_connect obs dial r shuffle mid lookup_info opened select global target protocols =
     Option.bind (global_switch global) (\<lambda>pool. connect_with obs dial r shuffle mid lookup_info opened select pool target protocols)"

definition global_ping ::
    "bytes \<Rightarrow> conn_obs \<Rightarrow> (multiaddr \<Rightarrow> xs_error + p2p_conn) \<Rightarrow> nat \<Rightarrow> (multiaddr list \<Rightarrow> multiaddr list) \<Rightarrow> (conn_pool \<Rightarrow> conn_pool) \<Rightarrow>
     (peer_id \<Rightarrow> xs_error + peer_info option) \<Rightarrow> (p2p_conn \<Rightarrow> io_error + stream) \<Rightarrow> (stream \<Rightarrow> string list \<Rightarrow> io_error + string) \<Rightarrow>
     conn_pool option \<Rightarrow> string + connect_to \<Rightarrow> ((xs_error + unit) \<times> conn_pool) option" where
  "global_ping payload obs dial r shuffle mid lookup_info opened select global target =
     Option.bind (global_switch global) (\<lambda>pool. ping_with payload obs dial r shuffle mid lookup_info opened select target pool)"

text \<open>After a registration they are the calls on the registered switch.\<close>

lemma registered_calls:
  assumes "register_switch pool global = Some global'"
  shows "global_connect obs dial r shuffle mid lookup_info opened select global' target protocols =
      connect_with obs dial r shuffle mid lookup_info opened select pool target protocols"
    "global_ping payload obs dial r shuffle mid lookup_info opened' select' global' target =
      ping_with payload obs dial r shuffle mid lookup_info opened' select' target pool"
  using register_once(2) [OF assms] by (simp_all add: global_connect_def global_ping_def)

section \<open>The connections of a listener\<close>

text \<open>\<open>into_incoming\<close>: the stream of the results of \<open>accept\<close>, by its first \<open>n\<close> items. It does not end, not even with an error.\<close>

fun into_incoming :: "('l \<Rightarrow> (io_error + p2p_conn) \<times> 'l) \<Rightarrow> nat \<Rightarrow> 'l \<Rightarrow> (io_error + p2p_conn) list" where
  "into_incoming accept 0 listener = []"
| "into_incoming accept (Suc n) listener = (case accept listener of (res, listener) \<Rightarrow> res # into_incoming accept n listener)"

lemma into_incoming_length [simp]: "length (into_incoming accept n l) = n"
  by (induction n arbitrary: l) (simp_all split: prod.split)

fun listener_after :: "('l \<Rightarrow> (io_error + p2p_conn) \<times> 'l) \<Rightarrow> nat \<Rightarrow> 'l \<Rightarrow> 'l" where
  "listener_after accept 0 listener = listener"
| "listener_after accept (Suc i) listener = listener_after accept i (snd (accept listener))"

lemma into_incoming_nth: "i < n \<Longrightarrow> into_incoming accept n l ! i = fst (accept (listener_after accept i l))"
proof (induction n arbitrary: l i)
  case (Suc n)
  then show ?case by (cases i) (simp_all add: case_prod_unfold)
qed simp

lemma into_incoming_add: "into_incoming accept (m + n) l = into_incoming accept m l @ into_incoming accept n (listener_after accept m l)"
  by (induction m arbitrary: l) (simp_all add: case_prod_unfold)

text \<open>\<open>handle_incoming\<close> on it spawns the connections before the first failure and returns that, however often \<open>accept\<close> could be called again.\<close>

lemma incoming_until_failure:
  assumes "into_incoming accept n l = map Inr cs" and "fst (accept (listener_after accept n l)) = Inl e"
  shows "handle_incoming (into_incoming accept (n + Suc m) l) = (cs, Some e)"
proof -
  have "handle_incoming (map Inr cs @ Inl e # rest) = (cs, Some e)" for rest
    by (induction cs) simp_all
  moreover have "into_incoming accept (n + Suc m) l =
      map Inr cs @ Inl e # into_incoming accept m (snd (accept (listener_after accept n l)))"
    unfolding into_incoming_add assms(1) using assms(2) by (simp add: case_prod_unfold)
  ultimately show ?thesis by (simp del: add_Suc_right)
qed

section \<open>The calls of a switch\<close>

text \<open>The peer book through the switch: its errors become those of the crate.\<close>

definition switch_remove_peer_info :: "peer_id \<Rightarrow> (switch_st, xs_error, peer_info option) act" where
  "switch_remove_peer_info peer_id s =
     (case book_remove (sw_book s) peer_id of (r, b) \<Rightarrow> (map_err error_of_io r, s\<lparr>sw_book := b\<rparr>))"

definition switch_insert_peer_info :: "peer_info \<Rightarrow> (switch_st, xs_error, peer_info option) act" where
  "switch_insert_peer_info peer_info s =
     (case book_insert (sw_book s) peer_info of (r, b) \<Rightarrow> (map_err error_of_io r, s\<lparr>sw_book := b\<rparr>))"

definition switch_lookup_peer_info :: "switch_st \<Rightarrow> peer_id \<Rightarrow> xs_error + peer_info option" where
  "switch_lookup_peer_info s peer_id = map_err error_of_io (book_get (sw_book s) peer_id)"

definition switch_choose_peers ::
    "(peer_id list \<Rightarrow> nat \<Rightarrow> peer_id list) \<Rightarrow> peer_id list \<Rightarrow> switch_st \<Rightarrow> string \<Rightarrow> nat \<Rightarrow> xs_error + peer_id list" where
  "switch_choose_peers pick order s protocol_id limits =
     map_err error_of_io (book_choose_peers pick order (sw_book s) protocol_id limits)"

definition switch_lookup_peer_id :: "switch_st \<Rightarrow> multiaddr \<Rightarrow> xs_error + peer_id option" where
  "switch_lookup_peer_id s raddr = map_err error_of_io (book_listen_on (sw_book s) raddr)"

text \<open>The addresses and the NAT state.\<close>

definition switch_local_addrs :: "switch_st \<Rightarrow> multiaddr list" where
  "switch_local_addrs s = local_addrs (sw_mut s)"

definition switch_observed_addrs :: "switch_st \<Rightarrow> multiaddr list" where
  "switch_observed_addrs s = observed_addrs (sw_mut s)"

definition switch_set_observed_addrs :: "multiaddr list \<Rightarrow> switch_st \<Rightarrow> switch_st" where
  "switch_set_observed_addrs addrs s = s\<lparr>sw_mut := set_observed_addrs addrs (sw_mut s)\<rparr>"

definition switch_listen_addrs :: "multiaddr list \<Rightarrow> switch_st \<Rightarrow> multiaddr list" where
  "switch_listen_addrs order s = listen_addrs order (sw_mut s)"

definition switch_set_nat_addrs :: "multiaddr list \<Rightarrow> switch_st \<Rightarrow> switch_st" where
  "switch_set_nat_addrs addrs s = s\<lparr>sw_mut := set_net_addrs addrs (sw_mut s)\<rparr>"

definition switch_remove_nat_addrs :: "multiaddr list \<Rightarrow> switch_st \<Rightarrow> switch_st" where
  "switch_remove_nat_addrs addrs s = s\<lparr>sw_mut := remove_net_addrs addrs (sw_mut s)\<rparr>"

definition switch_nat :: "switch_st \<Rightarrow> auto_nat" where
  "switch_nat s = ms_nat (sw_mut s)"

text \<open>\<open>transport_bind_with\<close>: the listener that a new task serves with \<open>handle_incoming\<close>. The address of the listener is only logged.\<close>

definition transport_bind_with :: "io_error + multiaddr \<Rightarrow> 'l \<Rightarrow> (xs_error + unit) \<times> 'l option" where
  "transport_bind_with local_addr listener =
     (case local_addr of
        Inl err \<Rightarrow> (Inl (error_of_io err), None)
      | Inr laddr \<Rightarrow> (Inr (), Some listener))"

definition into_global :: "switch_st \<Rightarrow> switch_st option \<Rightarrow> switch_st option option" where
  "into_global s global = register_switch s global"

lemma switch_book_parts [simp]:
  "fst (switch_insert_peer_info info s) = map_err error_of_io (fst (book_insert (sw_book s) info))"
  "sw_book (snd (switch_insert_peer_info info s)) = snd (book_insert (sw_book s) info)"
  "fst (switch_remove_peer_info p s) = map_err error_of_io (fst (book_remove (sw_book s) p))"
  "sw_book (snd (switch_remove_peer_info p s)) = snd (book_remove (sw_book s) p)"
  by (simp_all add: switch_insert_peer_info_def switch_remove_peer_info_def case_prod_unfold)

text \<open>So the components find behind their switch what the peer book promises.\<close>

interpretation switch_book: peer_book_driver "\<lambda>s info. switch_insert_peer_info info s" "\<lambda>s p. switch_remove_peer_info p s"
    switch_lookup_peer_info switch_lookup_peer_id "\<lambda>s. book_ok (sw_book s)"
  by unfold_locales
    (auto simp: switch_lookup_peer_info_def switch_lookup_peer_id_def mb.look_ins mb.look_rem mb.rev_look_ins mb.ins_returns
          mb.rem_returns mb.ins_ok mb.rem_ok map_err_Inr_iff simp del: book_insert_result book_remove_result
          dest: mb.rev_look_sound)

end
