(* ===== verification/EventSource.thy ===== *)
theory EventSource
  imports NodeContext
begin

text \<open>
  \<open>EventSource\<close> and its closer in \<open>xstack/src/event.rs\<close>: the typed streams that the components read. A source takes a new id from the
  counter of the process (NodeContext), binds it to the name of its event type at the mediator (EventMediator), and turns what it receives
  into the argument of its type. Sources are identified by their ids; \<open>so_bound\<close> has the type of each source that was made.
\<close>

record sources =
  so_next :: "64 word"
  so_med :: mediator
  so_bound :: "(nat \<times> event_kind) list"

definition sources_new :: "64 word \<Rightarrow> sources" where
  "sources_new n = \<lparr>so_next = n, so_med = med_new, so_bound = []\<rparr>"

definition source_bind_with :: "event_kind \<Rightarrow> sources \<Rightarrow> nat \<times> sources" where
  "source_bind_with kind s =
     (case xstack_id_default (so_next s) of (i, next_id) \<Rightarrow>
        (unat i, s\<lparr>so_next := next_id, so_med := med_bind (unat i) (kind_name kind) (so_med s),
                   so_bound := (unat i, kind) # so_bound s\<rparr>))"

text \<open>A receiver ends when no sender is left: neither the one that the mediator holds nor a copy of it in a \<open>raise\<close> that has not come to it.\<close>

datatype poll_result = PollPending | PollEnded | PollItem event_arg

definition sender_left :: "event_kind \<Rightarrow> nat \<Rightarrow> mediator \<Rightarrow> bool" where
  "sender_left kind lid m \<longleftrightarrow>
     (case senders m (kind_name kind) of Some ids \<Rightarrow> lid \<in> ids | None \<Rightarrow> False) \<or>
     (\<exists>r\<in>set (raising m). lid \<in> set (fst (snd r)))"

definition source_poll_next :: "event_kind \<Rightarrow> nat \<Rightarrow> mediator \<Rightarrow> (poll_result \<times> mediator) option" where
  "source_poll_next kind lid m =
     (case queues m lid of
        [] \<Rightarrow> Some (if sender_left kind lid m then PollPending else PollEnded, m)
      | e # rest \<Rightarrow>
          (case into_argument kind e of
             None \<Rightarrow> None
           | Some arg \<Rightarrow> Some (PollItem arg, m\<lparr>queues := (queues m)(lid := rest)\<rparr>)))"

text \<open>\<open>EventSourceCloser::close\<close>; \<open>drop\<close> of the source drops its receiver and leaves a task that closes.\<close>

definition closer_close :: "string list \<Rightarrow> nat \<Rightarrow> mediator \<Rightarrow> mediator" where
  "closer_close names lid m = med_close names lid m"

definition source_drop :: "nat \<Rightarrow> mediator \<Rightarrow> mediator" where
  "source_drop lid m = med_drop lid m"

text \<open>What happens to the sources of a process: also the closing tasks, and the parts of concurrent raises.\<close>

datatype source_act =
    SBind event_kind
  | SPoll nat
  | SDrop nat
  | SClose "string list" nat
  | SRaise "nat list" event
  | SSend nat bool
  | SEnd nat

definition on_med :: "(mediator \<Rightarrow> mediator) \<Rightarrow> sources \<Rightarrow> sources" where
  "on_med f s = s\<lparr>so_med := f (so_med s)\<rparr>"

text \<open>\<open>None\<close> is a panic; a source that is not there, or is dropped, is not polled.\<close>

fun source_do :: "source_act \<Rightarrow> sources \<Rightarrow> sources option" where
  "source_do (SBind kind) s = Some (snd (source_bind_with kind s))"
| "source_do (SPoll lid) s =
     (case map_of (so_bound s) lid of
        None \<Rightarrow> Some s
      | Some kind \<Rightarrow>
          (if lid \<in> receivers_gone (so_med s) then Some s
           else map_option (\<lambda>(_, m). s\<lparr>so_med := m\<rparr>) (source_poll_next kind lid (so_med s))))"
| "source_do (SDrop lid) s = Some (on_med (source_drop lid) s)"
| "source_do (SClose names lid) s = Some (on_med (closer_close names lid) s)"
| "source_do (SRaise order e) s = Some (on_med (med_do (MRaise order e)) s)"
| "source_do (SSend i full) s = Some (on_med (med_do (MSend i full)) s)"
| "source_do (SEnd i) s = Some (on_med (med_do (MEnd i)) s)"

fun source_run :: "source_act list \<Rightarrow> sources \<Rightarrow> sources option" where
  "source_run [] s = Some s"
| "source_run (a # as) s = Option.bind (source_do a s) (source_run as)"

fun binds :: "source_act list \<Rightarrow> nat" where
  "binds [] = 0"
| "binds (SBind _ # as) = Suc (binds as)"
| "binds (_ # as) = binds as"

section \<open>The invariant\<close>

definition sources_ok :: "64 word \<Rightarrow> sources \<Rightarrow> bool" where
  "sources_ok n s \<longleftrightarrow> map fst (so_bound s) = rev (map unat (xstack_ids (length (so_bound s)) n)) \<and>
     so_next s = n + of_nat (length (so_bound s)) \<and> typed (map_of (so_bound s)) (so_med s)"

lemma sources_okD:
  assumes "sources_ok n s"
  shows "map fst (so_bound s) = rev (map unat (xstack_ids (length (so_bound s)) n))"
    "so_next s = n + of_nat (length (so_bound s))" "typed (map_of (so_bound s)) (so_med s)"
  using assms by (simp_all add: sources_ok_def)

lemma xstack_ids_snoc: "xstack_ids (Suc c) n = xstack_ids c n @ [n + of_nat c]"
  by (simp add: xstack_ids_eq)

lemma given_ids_distinct:
  assumes "c \<le> 2 ^ 64"
  shows "distinct (map unat (xstack_ids c n))"
  using xstack_ids_distinct [OF assms, of n] by (simp add: distinct_map inj_on_def word_unat_eq_iff)

lemma sources_ok_distinct: "sources_ok n s \<Longrightarrow> length (so_bound s) \<le> 2 ^ 64 \<Longrightarrow> distinct (map fst (so_bound s))"
  using given_ids_distinct by (simp add: sources_okD(1) del: distinct_map)

lemma bind_ok:
  assumes "sources_ok n s" and "length (so_bound s) < 2 ^ 64"
  shows "sources_ok n (snd (source_bind_with kind s))"
proof -
  let ?c = "length (so_bound s)" and ?i = "unat (so_next s)"
  note d = sources_okD [OF assms(1)]
  have "distinct (map unat (xstack_ids (Suc ?c) n))" using assms(2) by (intro given_ids_distinct) simp
  then have "?i \<notin> set (map fst (so_bound s))" unfolding d(1) by (simp add: xstack_ids_snoc d(2) del: distinct_map xstack_ids.simps)
  then have fresh: "map_of (so_bound s) ?i = None" by (simp add: map_of_eq_None_iff)
  have "typed ((map_of (so_bound s))(?i \<mapsto> kind)) (med_bind ?i (kind_name kind) (so_med s))"
    by (rule typed_bind [OF d(3) fresh])
  moreover have "map fst ((?i, kind) # so_bound s) = rev (map unat (xstack_ids (Suc ?c) n))"
    by (simp add: d(1) xstack_ids_snoc d(2) del: xstack_ids.simps)
  ultimately show ?thesis by (simp add: sources_ok_def source_bind_with_def xstack_id_default_def d(2))
qed

lemma poll_ok:
  assumes "typed B m" and "B lid = Some kind"
  shows "\<exists>r m'. source_poll_next kind lid m = Some (r, m') \<and> typed B m'"
proof (cases "queues m lid")
  case Nil
  then show ?thesis using assms by (simp add: source_poll_next_def)
next
  case (Cons e rest)
  have "bound_as B lid (to_name e)" using typedD(2) [OF assms(1), of e lid] Cons by simp
  then have "to_name e = kind_name kind" using assms(2) by (simp add: bound_as_def)
  then obtain arg where "into_argument kind e = Some arg" using into_argument_Some_iff by blast
  moreover have "typed B (m\<lparr>queues := (queues m)(lid := rest)\<rparr>)" using assms(1) Cons by (auto simp: typed_def)
  ultimately show ?thesis using Cons by (simp add: source_poll_next_def)
qed

lemma on_med_ok:
  assumes "sources_ok n s" and "\<And>B m. typed B m \<Longrightarrow> typed B (f m)"
  shows "sources_ok n (on_med f s)"
  using assms by (simp add: sources_ok_def on_med_def)

lemma typed_raise:
  assumes "typed B m"
  shows "typed B (med_do (MRaise order e) m)"
  using assms typed_start [OF assms, of e order] by (auto simp: raise_start_def)

lemma source_do_ok:
  assumes "sources_ok n s" and "length (so_bound s) + binds [a] \<le> 2 ^ 64"
  shows "\<exists>s'. source_do a s = Some s' \<and> sources_ok n s' \<and> length (so_bound s') = length (so_bound s) + binds [a]"
proof (cases a)
  case (SBind kind)
  then show ?thesis using bind_ok [OF assms(1), of kind] assms(2) by (simp add: source_bind_with_def xstack_id_default_def)
next
  case (SPoll lid)
  show ?thesis
  proof (cases "map_of (so_bound s) lid")
    case None
    then show ?thesis using SPoll assms by simp
  next
    case (Some kind)
    from poll_ok [OF sources_okD(3) [OF assms(1)] Some] obtain r m' where
      "source_poll_next kind lid (so_med s) = Some (r, m')" "typed (map_of (so_bound s)) m'" by blast
    then show ?thesis using SPoll Some assms by (simp add: sources_ok_def)
  qed
qed (use assms in \<open>auto simp: closer_close_def source_drop_def typed_close typed_drop typed_raise typed_send typed_end
      simp del: med_do.simps(4) intro!: on_med_ok, simp_all add: on_med_def\<close>)

lemma source_run_ok:
  "sources_ok n s \<Longrightarrow> length (so_bound s) + binds as \<le> 2 ^ 64 \<Longrightarrow>
     \<exists>s'. source_run as s = Some s' \<and> sources_ok n s' \<and> length (so_bound s') = length (so_bound s) + binds as"
proof (induction as arbitrary: s)
  case (Cons a as)
  have split: "binds (a # as) = binds [a] + binds as" by (cases a) simp_all
  with Cons.prems source_do_ok [OF Cons.prems(1), of a] obtain t where
    t: "source_do a s = Some t" "sources_ok n t" "length (so_bound t) = length (so_bound s) + binds [a]" by auto
  from Cons.IH [OF t(2)] t(3) Cons.prems(2) split t(1) show ?case by auto
qed simp

section \<open>The end of a source\<close>

definition cut_off :: "nat \<Rightarrow> mediator \<Rightarrow> bool" where
  "cut_off lid m \<longleftrightarrow> queues m lid = [] \<and> (\<forall>name ids. senders m name = Some ids \<longrightarrow> lid \<notin> ids) \<and>
     (\<forall>r\<in>set (raising m). lid \<notin> set (fst (snd r)))"

lemma ended_iff:
  assumes "typed B m" and "B lid = Some kind"
  shows "source_poll_next kind lid m = Some (PollEnded, m) \<longleftrightarrow> cut_off lid m"
proof -
  have "name = kind_name kind" if "senders m name = Some ids" "lid \<in> ids" for name ids
    using typedD(1) [OF assms(1) that] assms(2) by (simp add: bound_as_def)
  then have "(\<exists>name ids. senders m name = Some ids \<and> lid \<in> ids) \<longleftrightarrow>
      (case senders m (kind_name kind) of Some ids \<Rightarrow> lid \<in> ids | None \<Rightarrow> False)" by (auto split: option.splits)
  then show ?thesis
    by (auto simp: source_poll_next_def cut_off_def sender_left_def split: list.splits option.splits if_splits)
qed

lemma cut_off_bind: "cut_off lid m \<Longrightarrow> lid \<noteq> l \<Longrightarrow> cut_off lid (med_bind l name m)"
  by (auto simp: cut_off_def med_bind_def split: option.splits if_splits)

lemma cut_off_close:
  assumes "cut_off lid m"
  shows "cut_off lid (med_close names l m)"
proof (cases "find (\<lambda>name. \<exists>ids. senders m name = Some ids \<and> l \<in> ids) names")
  case (Some name)
  then obtain ids where "senders m name = Some ids" by (auto simp: find_Some_iff)
  with Some have "med_close names l m = m\<lparr>senders := (senders m)(name \<mapsto> ids - {l})\<rparr>" by (simp add: med_close_def)
  then show ?thesis using assms \<open>senders m name = Some ids\<close> by (simp add: cut_off_def)
qed (use assms in \<open>simp add: med_close_def\<close>)

lemma cut_off_raise: "cut_off lid m \<Longrightarrow> cut_off lid (med_do (MRaise order e) m)"
  by (auto simp: cut_off_def raise_start_def)

lemma cut_off_send:
  assumes "cut_off lid m"
  shows "cut_off lid (raise_send i full m)"
proof (cases "i < length (raising m)")
  case True
  obtain e ls d where r: "raising m ! i = (e, ls, d)" by (cases "raising m ! i")
  have "(e, ls, d) \<in> set (raising m)" using True r by (metis nth_mem)
  then have ls: "lid \<notin> set ls" using assms by (auto simp: cut_off_def)
  have upd: "\<forall>x\<in>set ((raising m)[i := (e, ls', d')]). lid \<notin> set (fst (snd x))" if "set ls' \<subseteq> set ls" for ls' d'
    using set_update_subset_insert [of "raising m" i "(e, ls', d')"] assms ls that by (fastforce simp: cut_off_def)
  show ?thesis
  proof (cases ls)
    case Nil
    then show ?thesis using True r assms by (simp add: raise_send_def)
  next
    case (Cons l rest)
    then have "set rest \<subseteq> set ls" "lid \<noteq> l" using ls by auto
    with upd True r Cons assms show ?thesis by (simp add: raise_send_def cut_off_def)
  qed
qed (use assms in \<open>simp add: raise_send_def\<close>)

lemma cut_off_end:
  assumes "cut_off lid m"
  shows "cut_off lid (raise_end i m)"
proof (cases "i < length (raising m)")
  case True
  obtain e ls d where r: "raising m ! i = (e, ls, d)" by (cases "raising m ! i")
  have upd: "\<forall>x\<in>set ((raising m)[i := (e, [], [])]). lid \<notin> set (fst (snd x))"
    using set_update_subset_insert [of "raising m" i "(e, [], [])"] assms by (fastforce simp: cut_off_def)
  from True r assms upd show ?thesis
    by (cases ls) (auto simp: raise_end_def Let_def cut_off_def split: option.splits)
qed (use assms in \<open>simp add: raise_end_def\<close>)

lemma cut_off_poll:
  assumes "cut_off lid m" and "source_poll_next kind l m = Some (r, m')"
  shows "cut_off lid m'"
  using assms by (auto simp: cut_off_def source_poll_next_def split: list.splits option.splits)

lemma cut_off_do:
  assumes "sources_ok n s" and "length (so_bound s) + binds [a] \<le> 2 ^ 64" and "lid \<in> set (map fst (so_bound s))"
    and "cut_off lid (so_med s)" and "source_do a s = Some s'"
  shows "cut_off lid (so_med s') \<and> map_of (so_bound s') lid = map_of (so_bound s) lid"
proof (cases a)
  case (SBind kind)
  with assms(5) have s': "s' = snd (source_bind_with kind s)" by simp
  from source_do_ok [OF assms(1,2)] assms(5) SBind have "sources_ok n s'" "length (so_bound s') \<le> 2 ^ 64" using assms(2) by auto
  from sources_ok_distinct [OF this] assms(3) have "lid \<noteq> unat (so_next s)"
    by (force simp: s' source_bind_with_def xstack_id_default_def)
  then show ?thesis using cut_off_bind [OF assms(4)] by (simp add: s' source_bind_with_def xstack_id_default_def)
next
  case (SPoll l)
  then show ?thesis using assms(4,5) by (auto split: option.splits if_splits dest: cut_off_poll)
qed (use assms(4,5) in \<open>auto simp: on_med_def closer_close_def source_drop_def cut_off_close cut_off_raise cut_off_send cut_off_end
      simp del: med_do.simps(4)\<close>, simp_all add: cut_off_def med_drop_def)

lemma cut_off_run:
  "sources_ok n s \<Longrightarrow> length (so_bound s) + binds as \<le> 2 ^ 64 \<Longrightarrow> lid \<in> set (map fst (so_bound s)) \<Longrightarrow> cut_off lid (so_med s) \<Longrightarrow>
     source_run as s = Some s' \<Longrightarrow> cut_off lid (so_med s') \<and> map_of (so_bound s') lid = map_of (so_bound s) lid"
proof (induction as arbitrary: s)
  case (Cons a as)
  have split: "binds (a # as) = binds [a] + binds as" by (cases a) simp_all
  with Cons.prems(2) have le: "length (so_bound s) + binds [a] \<le> 2 ^ 64" by simp
  from source_do_ok [OF Cons.prems(1) le] obtain t where
    t: "source_do a s = Some t" "sources_ok n t" "length (so_bound t) = length (so_bound s) + binds [a]" by blast
  from cut_off_do [OF Cons.prems(1) le Cons.prems(3,4) t(1)] have c: "cut_off lid (so_med t)" "map_of (so_bound t) lid = map_of (so_bound s) lid" by simp_all
  from c(2) Cons.prems(3) have "lid \<in> set (map fst (so_bound t))" by (metis map_of_eq_None_iff set_map)
  from Cons.IH [OF t(2) _ this c(1)] t c(2) Cons.prems(2,5) split show ?case by simp
qed simp

text \<open>C31: Event sources. Whatever sources are made, polled, dropped and closed while events are raised concurrently, as long as the process has not
  used up its ids: nothing panics, each source has an id of its own, and each event that waits for a source is of its type. The end of a source is final: once a poll
  has answered that the stream is over, every later one does.\<close>

theorem event_sources_sound:
  assumes "binds as + binds bs \<le> 2 ^ 64"
  shows "\<exists>s s'. source_run as (sources_new n) = Some s \<and> source_run bs s = Some s' \<and> distinct (map fst (so_bound s)) \<and>
    (\<forall>lid kind. map_of (so_bound s) lid = Some kind \<longrightarrow>
       (\<forall>e\<in>set (queues (so_med s) lid). \<exists>arg. into_argument kind e = Some arg) \<and>
       (source_poll_next kind lid (so_med s) = Some (PollEnded, so_med s) \<longrightarrow>
          source_poll_next kind lid (so_med s') = Some (PollEnded, so_med s')))"
proof -
  have new: "sources_ok n (sources_new n)" using typed_new by (simp add: sources_ok_def sources_new_def)
  from source_run_ok [OF new, of as] assms obtain s where
    s: "source_run as (sources_new n) = Some s" "sources_ok n s" "length (so_bound s) = binds as" by (auto simp: sources_new_def)
  from source_run_ok [OF s(2), of bs] assms s(3) obtain s' where
    s': "source_run bs s = Some s'" "sources_ok n s'" by auto
  have queued: "\<exists>arg. into_argument kind e = Some arg"
    if "map_of (so_bound s) lid = Some kind" "e \<in> set (queues (so_med s) lid)" for lid kind e
    using typedD(2) [OF sources_okD(3) [OF s(2)] that(2)] that(1) into_argument_Some_iff by (simp add: bound_as_def)
  have final: "source_poll_next kind lid (so_med s') = Some (PollEnded, so_med s')"
    if k: "map_of (so_bound s) lid = Some kind" and "source_poll_next kind lid (so_med s) = Some (PollEnded, so_med s)" for lid kind
  proof -
    from that have c: "cut_off lid (so_med s)" using ended_iff [where B = "map_of (so_bound s)", OF sources_okD(3) [OF s(2)] k] by simp
    have "lid \<in> set (map fst (so_bound s))" using k by (metis map_of_eq_None_iff option.distinct(1) set_map)
    from cut_off_run [OF s(2) _ this c s'(1)] s(3) assms
    have "cut_off lid (so_med s')" "map_of (so_bound s') lid = Some kind" using k by simp_all
    then show ?thesis using ended_iff [where B = "map_of (so_bound s')", OF sources_okD(3) [OF s'(2)]] by simp
  qed
  have "distinct (map fst (so_bound s))" using sources_ok_distinct [OF s(2)] s(3) assms by simp
  with s(1) s'(1) queued final show ?thesis by blast
qed

text \<open>A source that is closed while an event waits for it still gives that event, and then its end.\<close>

theorem event_sources_sound_witness:
  "\<exists>s'. source_run ([SBind KNetwork, SRaise [5] (EvNetwork NAT), SSend 0 False, SEnd 0, SClose [EVENT_NETWORK] 5, SPoll 5] @
        [SBind KNetwork, SRaise [6] (EvNetwork Public), SSend 1 False]) (sources_new 5) = Some s' \<and>
     source_poll_next KNetwork 5 (so_med s') = Some (PollEnded, so_med s') \<and> queues (so_med s') 6 = [EvNetwork Public]"
proof -
  let ?as = "[SBind KNetwork, SRaise [5] (EvNetwork NAT), SSend 0 False, SEnd 0, SClose [EVENT_NETWORK] 5, SPoll 5]"
  let ?bs = "[SBind KNetwork, SRaise [6] (EvNetwork Public), SSend 1 False]"
  note run = sources_new_def source_bind_with_def xstack_id_default_def on_med_def med_new_def med_bind_def raise_start_def raise_send_def
    raise_end_def closer_close_def med_close_def source_poll_next_def sender_left_def
  from event_sources_sound [of ?as ?bs 5] obtain s s' where r: "source_run ?as (sources_new 5) = Some s" "source_run ?bs s = Some s'"
    and k: "map_of (so_bound s) 5 = Some KNetwork \<Longrightarrow> source_poll_next KNetwork 5 (so_med s) = Some (PollEnded, so_med s) \<Longrightarrow>
       source_poll_next KNetwork 5 (so_med s') = Some (PollEnded, so_med s')" by auto
  from r(1) have s: "map_of (so_bound s) 5 = Some KNetwork" "source_poll_next KNetwork 5 (so_med s) = Some (PollEnded, so_med s)"
    by (auto simp: run)
  have "queues (so_med s') 6 = [EvNetwork Public]" using r by (auto simp: run)
  moreover have "source_run (?as @ ?bs) (sources_new 5) = Some s'" using r by (auto simp: run)
  ultimately show ?thesis using k [OF s] by blast
qed

end
