(* ===== verification/SecureStream.thy ===== *)
theory SecureStream
  imports SecureConn
begin

text \<open>
  The streams of secured connections: \<open>accept\<close> and \<open>connect\<close> of \<open>TlsConn\<close> (\<open>tls/src/lib.rs\<close>) and of \<open>QuicP2pConn\<close>
  (\<open>quic/src/lib.rs\<close>), and the life of handles and streams over the operations of the two drivers. The yamux or QUIC stream itself is
  of another package: that it was opened, or the error, is an argument.
\<close>

section \<open>Streams\<close>

record tls_stream =
  ts_id :: string
  ts_conn_id :: string
  ts_public_key :: public_key
  ts_local_addr :: multiaddr
  ts_peer_addr :: multiaddr
  ts_is_relay :: bool

definition tls_stream_make ::
    "string \<Rightarrow> string \<Rightarrow> public_key \<Rightarrow> multiaddr \<Rightarrow> multiaddr \<Rightarrow> bool \<Rightarrow> 64 word \<Rightarrow> tls_stream \<times> 64 word" where
  "tls_stream_make uuid conn public_key local_addr peer_addr is_relay stream_counter =
     (\<lparr>ts_id = uuid, ts_conn_id = conn, ts_public_key = public_key, ts_local_addr = local_addr, ts_peer_addr = peer_addr,
       ts_is_relay = is_relay\<rparr>, fetch_add stream_counter)"

definition tls_conn_accept :: "string \<Rightarrow> io_error + unit \<Rightarrow> tls_conn \<Rightarrow> (64 word, io_error, tls_stream) act" where
  "tls_conn_accept uuid stream_accept c =
     act_bind (act_lift stream_accept) (\<lambda>_ stream_count.
     case tls_stream_make uuid (tc_id c) (tc_public_key c) (tc_local_addr c) (tc_peer_addr c) (tc_is_relay c) stream_count of
       (stream, stream_count) \<Rightarrow> (Inr stream, stream_count))"

definition tls_conn_connect :: "string \<Rightarrow> io_error + unit \<Rightarrow> tls_conn \<Rightarrow> (64 word, io_error, tls_stream) act" where
  "tls_conn_connect uuid stream_open c =
     act_bind (act_lift stream_open) (\<lambda>_ stream_count.
     case tls_stream_make uuid (tc_id c) (tc_public_key c) (tc_local_addr c) (tc_peer_addr c) (tc_is_relay c) stream_count of
       (stream, stream_count) \<Rightarrow> (Inr stream, stream_count))"

record quic_stream =
  qs_id :: string
  qs_conn_id :: string
  qs_public_key :: public_key
  qs_laddr :: multiaddr
  qs_raddr :: multiaddr

text \<open>A QUIC stream is given by the text of the connection's source id and the text of its number.\<close>

definition quic_stream_make ::
    "string \<Rightarrow> string \<times> string \<Rightarrow> public_key \<Rightarrow> multiaddr \<Rightarrow> multiaddr \<Rightarrow> 64 word \<Rightarrow> quic_stream \<times> 64 word" where
  "quic_stream_make conn stream public_key laddr raddr counter =
     (\<lparr>qs_id = ''quic('' @ fst stream @ '','' @ snd stream @ '')'', qs_conn_id = conn, qs_public_key = public_key,
       qs_laddr = laddr, qs_raddr = raddr\<rparr>, fetch_add counter)"

definition quic_conn_accept :: "io_error + string \<times> string \<Rightarrow> quic_conn \<Rightarrow> (64 word, io_error, quic_stream) act" where
  "quic_conn_accept accepted c =
     act_bind (act_lift accepted) (\<lambda>stream counter.
     case quic_stream_make (qp_id c) stream (qp_public_key c) (qp_laddr c) (qp_raddr c) counter of
       (stream, counter) \<Rightarrow> (Inr stream, counter))"

definition quic_conn_connect :: "io_error + string \<times> string \<Rightarrow> quic_conn \<Rightarrow> (64 word, io_error, quic_stream) act" where
  "quic_conn_connect opened c =
     act_bind (act_lift opened) (\<lambda>stream counter.
     case quic_stream_make (qp_id c) stream (qp_public_key c) (qp_laddr c) (qp_raddr c) counter of
       (stream, counter) \<Rightarrow> (Inr stream, counter))"

section \<open>Drivers\<close>

text \<open>
  A driver: the ids of its connections and streams, the ways to make a connection and a stream (from the value of the counter to
  the new one and its new value), and what cloning a handle, dropping it and dropping a stream do to the counters. With
  a connection comes the certificate that the other end presented in its handshake, as the TLS or QUIC package reports it.
\<close>

record ('c, 's) driver_ops =
  dv_id :: "'c \<Rightarrow> string"
  dv_conn_id :: "'s \<Rightarrow> string"
  dv_connects :: "64 word \<Rightarrow> bytes option \<Rightarrow> 'c \<Rightarrow> 64 word \<Rightarrow> bool"
  dv_opens :: "'c \<Rightarrow> 64 word \<Rightarrow> 's \<Rightarrow> 64 word \<Rightarrow> bool"
  dv_clone :: "string \<Rightarrow> conn_counters \<Rightarrow> conn_counters"
  dv_drop :: "string \<Rightarrow> conn_counters \<Rightarrow> conn_counters"
  dv_stream_drop :: "string \<Rightarrow> conn_counters \<Rightarrow> conn_counters"

text \<open>The certificate that the network's handshake yields, given the configuration with which the node takes part in it.\<close>

definition shown_cert :: "string + peer_cert \<Rightarrow> bytes option" where
  "shown_cert r = (case r of Inr (Some (Inr der)) \<Rightarrow> Some der | _ \<Rightarrow> None)"

definition shown_to_client ::
    "(x509_error \<Rightarrow> string) \<Rightarrow> x509_env \<Rightarrow> keystore \<Rightarrow> nat \<Rightarrow> nat \<times> nat \<times> nat \<Rightarrow> tls_net \<Rightarrow> multiaddr \<Rightarrow> bytes option" where
  "shown_to_client display v ks signer ts net peer_addr =
     (case (create_ssl_config display v signer (fst ts) ks (tn_config net), to_sockaddr peer_addr) of
        (Inr config, Inr a) \<Rightarrow> shown_cert (tn_handshake net (tls_verify_callback v (fst (snd ts))) config (Some (fst a)))
      | _ \<Rightarrow> None)"

definition shown_to_server :: "x509_env \<Rightarrow> nat \<times> nat \<Rightarrow> tls_net \<Rightarrow> tls_config \<Rightarrow> bytes option" where
  "shown_to_server v ts net acceptor = shown_cert (tn_handshake net (tls_verify_callback v (fst ts)) acceptor None)"

definition tls_connects :: "x509_env \<Rightarrow> 64 word \<Rightarrow> bytes option \<Rightarrow> tls_conn \<Rightarrow> 64 word \<Rightarrow> bool" where
  "tls_connects v n cert conn n' \<longleftrightarrow>
     (\<exists>display ks signer ts (net :: tls_net) uuid la pa relay.
        tls_connect display v ks signer ts net uuid la pa relay n = (Inr conn, n') \<and>
        cert = shown_to_client display v ks signer ts net pa) \<or>
     (\<exists>display ts (net :: tls_net) uuid acceptor la pa relay.
        tls_accept display v ts net uuid acceptor la pa relay n = (Inr conn, n') \<and> cert = shown_to_server v ts net acceptor)"

definition tls_opens :: "tls_conn \<Rightarrow> 64 word \<Rightarrow> tls_stream \<Rightarrow> 64 word \<Rightarrow> bool" where
  "tls_opens c n stream n' \<longleftrightarrow>
     (\<exists>uuid r. tls_conn_connect uuid r c n = (Inr stream, n') \<or> tls_conn_accept uuid r c n = (Inr stream, n'))"

definition tls_ops :: "x509_env \<Rightarrow> (tls_conn, tls_stream) driver_ops" where
  "tls_ops v = \<lparr>dv_id = tc_id, dv_conn_id = ts_conn_id, dv_connects = tls_connects v, dv_opens = tls_opens,
     dv_clone = tls_handle_clone, dv_drop = tls_handle_drop, dv_stream_drop = tls_stream_drop\<rparr>"

definition quic_shown_to_client ::
    "(x509_error \<Rightarrow> string) \<Rightarrow> x509_env \<Rightarrow> nat \<Rightarrow> nat \<times> nat \<Rightarrow> keystore \<Rightarrow> (bytes \<times> bytes \<Rightarrow> io_error + unit) \<Rightarrow> nat \<Rightarrow>
     (string \<Rightarrow> sock_addr \<Rightarrow> quic_config \<Rightarrow> io_error + raw_quic) \<Rightarrow> multiaddr \<Rightarrow> bytes option" where
  "quic_shown_to_client display v signer ts ks checks timeout dial raddr =
     (case (create_quic_config display v signer (fst ts) ks checks timeout, to_sockaddr raddr) of
        (Inr config, Inr a) \<Rightarrow> (case dial (quic_laddr_for a) a config of Inr conn \<Rightarrow> rq_peer_cert conn | Inl _ \<Rightarrow> None)
      | _ \<Rightarrow> None)"

definition quic_connects :: "x509_env \<Rightarrow> 64 word \<Rightarrow> bytes option \<Rightarrow> quic_conn \<Rightarrow> 64 word \<Rightarrow> bool" where
  "quic_connects v n cert conn n' \<longleftrightarrow>
     (\<exists>display signer ts ks checks timeout uuid dial raddr.
        quic_connect display v signer ts ks checks timeout uuid dial raddr n = (Inr conn, n') \<and>
        cert = quic_shown_to_client display v signer ts ks checks timeout dial raddr) \<or>
     (\<exists>display now uuid accepted l. quic_accept display v now uuid accepted l n = (Inr conn, n') \<and>
        cert = (case accepted of Inr raw \<Rightarrow> rq_peer_cert raw | Inl _ \<Rightarrow> None))"

definition quic_opens :: "quic_conn \<Rightarrow> 64 word \<Rightarrow> quic_stream \<Rightarrow> 64 word \<Rightarrow> bool" where
  "quic_opens c n stream n' \<longleftrightarrow> (\<exists>r. quic_conn_connect r c n = (Inr stream, n') \<or> quic_conn_accept r c n = (Inr stream, n'))"

definition quic_ops :: "x509_env \<Rightarrow> (quic_conn, quic_stream) driver_ops" where
  "quic_ops v = \<lparr>dv_id = qp_id, dv_conn_id = qs_conn_id, dv_connects = quic_connects v, dv_opens = quic_opens,
     dv_clone = quic_handle_clone, dv_drop = quic_handle_drop, dv_stream_drop = quic_stream_drop\<rparr>"

text \<open>The live handles and streams of a driver, its counters, and the ids given out: a new connection has an id of its own
  (they are random UUIDs), and a counter of streams of its own. \<open>dr_shown\<close> records for each id the certificate that the other end
  presented when the connection was made.\<close>

record ('c, 's) driver_state =
  dr_handles :: "'c list"
  dr_streams :: "'s list"
  dr_counters :: conn_counters
  dr_ids :: "string set"
  dr_shown :: "string \<Rightarrow> bytes option"

definition driver_new :: "('c, 's) driver_state" where
  "driver_new = \<lparr>dr_handles = [], dr_streams = [], dr_counters = \<lparr>cn_activities = 0, cn_streams = (\<lambda>_. 0)\<rparr>, dr_ids = {},
     dr_shown = (\<lambda>_. None)\<rparr>"

inductive driver_step :: "('c, 's) driver_ops \<Rightarrow> ('c, 's) driver_state \<Rightarrow> ('c, 's) driver_state \<Rightarrow> bool" for D where
  Connects: "dv_connects D (cn_activities (dr_counters s)) cert c n \<Longrightarrow> dv_id D c \<notin> dr_ids s \<Longrightarrow>
    driver_step D s (s\<lparr>dr_handles := c # dr_handles s,
      dr_counters := \<lparr>cn_activities = n, cn_streams = (cn_streams (dr_counters s))(dv_id D c := 0)\<rparr>,
      dr_ids := insert (dv_id D c) (dr_ids s), dr_shown := (dr_shown s)(dv_id D c := cert)\<rparr>)"
| Clones: "c \<in> set (dr_handles s) \<Longrightarrow>
    driver_step D s (s\<lparr>dr_handles := c # dr_handles s, dr_counters := dv_clone D (dv_id D c) (dr_counters s)\<rparr>)"
| Drops: "c \<in> set (dr_handles s) \<Longrightarrow>
    driver_step D s (s\<lparr>dr_handles := remove1 c (dr_handles s), dr_counters := dv_drop D (dv_id D c) (dr_counters s)\<rparr>)"
| Opens: "c \<in> set (dr_handles s) \<Longrightarrow> dv_opens D c (cn_streams (dr_counters s) (dv_id D c)) st n \<Longrightarrow>
    driver_step D s (s\<lparr>dr_streams := st # dr_streams s,
      dr_counters := (dr_counters s)\<lparr>cn_streams := (cn_streams (dr_counters s))(dv_id D c := n)\<rparr>\<rparr>)"
| StreamDrops: "st \<in> set (dr_streams s) \<Longrightarrow>
    driver_step D s (s\<lparr>dr_streams := remove1 st (dr_streams s), dr_counters := dv_stream_drop D (dv_conn_id D st) (dr_counters s)\<rparr>)"

section \<open>What every secured driver keeps\<close>

text \<open>\<open>verified cert c\<close>: the certificate verifies to the key of the connection; \<open>same\<close>: the stream shows the key and addresses of the connection.\<close>

locale secure_driver =
  fixes D :: "('c, 's) driver_ops" and verified :: "bytes option \<Rightarrow> 'c \<Rightarrow> bool" and same :: "'c \<Rightarrow> 's \<Rightarrow> bool"
  assumes connects: "dv_connects D n cert c n' \<Longrightarrow> n' = n + 1 \<and> verified cert c"
    and opens: "dv_opens D c n st n' \<Longrightarrow> n' = n + 1 \<and> dv_conn_id D st = dv_id D c \<and> same c st"
    and clone: "dv_clone D i k = k\<lparr>cn_activities := cn_activities k + 1\<rparr>"
    and dropped: "dv_drop D i k = k\<lparr>cn_activities := cn_activities k - 1\<rparr>"
    and stream_dropped: "dv_stream_drop D i k = k\<lparr>cn_streams := (cn_streams k)(i := cn_streams k i - 1)\<rparr>"
begin

definition streams_of :: "string \<Rightarrow> 's list \<Rightarrow> nat" where
  "streams_of i sts = length (filter (\<lambda>st. dv_conn_id D st = i) sts)"

definition live_ok :: "('c, 's) driver_state \<Rightarrow> bool" where
  "live_ok s \<longleftrightarrow>
     (\<forall>c\<in>set (dr_handles s). verified (dr_shown s (dv_id D c)) c \<and> dv_id D c \<in> dr_ids s) \<and>
     inj_on (dv_id D) (set (dr_handles s)) \<and>
     (\<forall>st\<in>set (dr_streams s). dv_conn_id D st \<in> dr_ids s \<and>
        (\<exists>c. verified (dr_shown s (dv_conn_id D st)) c \<and> dv_id D c = dv_conn_id D st \<and> same c st) \<and>
        (\<forall>c\<in>set (dr_handles s). dv_id D c = dv_conn_id D st \<longrightarrow> same c st)) \<and>
     cn_activities (dr_counters s) = of_nat (length (dr_handles s)) \<and>
     (\<forall>i\<in>dr_ids s. cn_streams (dr_counters s) i = of_nat (streams_of i (dr_streams s)))"

lemma streams_of_simps [simp]:
  "streams_of i [] = 0" "streams_of i (st # sts) = (if dv_conn_id D st = i then 1 else 0) + streams_of i sts"
  by (simp_all add: streams_of_def)

lemma streams_of_remove1:
  "st \<in> set sts \<Longrightarrow> streams_of i sts = (if dv_conn_id D st = i then 1 else 0) + streams_of i (remove1 st sts)"
  by (induction sts) (auto simp: streams_of_def)

lemma streams_of_none: "\<forall>st\<in>set sts. dv_conn_id D st \<noteq> i \<Longrightarrow> streams_of i sts = 0"
  by (simp add: streams_of_def)

lemma live_new: "live_ok driver_new"
  by (simp add: live_ok_def driver_new_def)

lemma live_connects:
  assumes "live_ok s" and "dv_connects D (cn_activities (dr_counters s)) cert c n" and "dv_id D c \<notin> dr_ids s"
  shows "live_ok (s\<lparr>dr_handles := c # dr_handles s,
      dr_counters := \<lparr>cn_activities = n, cn_streams = (cn_streams (dr_counters s))(dv_id D c := 0)\<rparr>,
      dr_ids := insert (dv_id D c) (dr_ids s), dr_shown := (dr_shown s)(dv_id D c := cert)\<rparr>)"
proof -
  have none: "streams_of (dv_id D c) (dr_streams s) = 0"
    using assms(1,3) by (intro streams_of_none) (auto simp: live_ok_def)
  have other: "dv_id D c \<notin> dv_id D ` set (dr_handles s)" "\<forall>st\<in>set (dr_streams s). dv_conn_id D st \<noteq> dv_id D c"
    using assms(1,3) by (auto simp: live_ok_def)
  from connects [OF assms(2)] assms(1) none other show ?thesis
    by (simp add: live_ok_def) (use assms(3) in force)
qed

lemma live_step:
  assumes "driver_step D s s'" and "live_ok s"
  shows "live_ok s'"
  using assms
proof (induction rule: driver_step.induct)
  case (Connects s cert c n)
  then show ?case by (intro live_connects)
next
  case (Clones c s)
  then show ?case by (auto simp: live_ok_def clone insert_absorb)
next
  case (Drops c s)
  have sub: "set (remove1 c (dr_handles s)) \<subseteq> set (dr_handles s)" by (rule set_remove1_subset)
  from Drops(1) obtain k where "length (dr_handles s) = Suc k" "length (remove1 c (dr_handles s)) = k"
    by (metis length_pos_if_in_set length_remove1 One_nat_def Suc_pred)
  with Drops(2) sub show ?case
    by (auto simp: live_ok_def dropped intro: inj_on_subset)
next
  case (Opens c s st n)
  from opens [OF Opens(2)] have st: "n = cn_streams (dr_counters s) (dv_id D c) + 1" "dv_conn_id D st = dv_id D c" "same c st" by simp_all
  have "\<forall>d\<in>set (dr_handles s). dv_id D d = dv_id D c \<longrightarrow> d = c" using Opens(1,3) by (auto simp: live_ok_def inj_on_def)
  with Opens(1,3) st show ?case by (auto simp: live_ok_def)
next
  case (StreamDrops st s)
  have sub: "set (remove1 st (dr_streams s)) \<subseteq> set (dr_streams s)" by (rule set_remove1_subset)
  have "streams_of i (dr_streams s) = (if dv_conn_id D st = i then 1 else 0) + streams_of i (remove1 st (dr_streams s))" for i
    by (rule streams_of_remove1 [OF StreamDrops(1)])
  with StreamDrops(2) sub show ?case by (auto simp: live_ok_def stream_dropped)
qed

lemma live_run: "rtranclp (driver_step D) driver_new s \<Longrightarrow> live_ok s"
  by (induction rule: rtranclp_induct) (auto intro: live_new live_step)

lemma live_streams:
  assumes "rtranclp (driver_step D) driver_new s"
  shows "st \<in> set (dr_streams s) \<Longrightarrow> \<exists>c. verified (dr_shown s (dv_conn_id D st)) c \<and> same c st"
    and "st \<in> set (dr_streams s) \<Longrightarrow> c \<in> set (dr_handles s) \<Longrightarrow> dv_id D c = dv_conn_id D st \<Longrightarrow> same c st"
    and "cn_activities (dr_counters s) = of_nat (length (dr_handles s))"
    and "c \<in> set (dr_handles s) \<Longrightarrow> cn_streams (dr_counters s) (dv_id D c) = of_nat (streams_of (dv_id D c) (dr_streams s))"
  using live_run [OF assms] by (auto simp: live_ok_def)

end

section \<open>The two drivers\<close>

text \<open>The key is what a certificate verifies to at some time.\<close>

definition proves_key :: "x509_env \<Rightarrow> bytes option \<Rightarrow> public_key \<Rightarrow> bool" where
  "proves_key v cert key \<longleftrightarrow> (\<exists>der t. cert = Some der \<and> verify v t der = Inr key)"

lemma lift_bind_Inr: "act_bind (act_lift r) f s = (Inr x, s') \<longleftrightarrow> (\<exists>a. r = Inr a \<and> f a s = (Inr x, s'))"
  by (auto simp: act_lift_bind split: sum.split)

definition tls_same :: "tls_conn \<Rightarrow> tls_stream \<Rightarrow> bool" where
  "tls_same c st \<longleftrightarrow> ts_public_key st = tc_public_key c \<and> ts_local_addr st = tc_local_addr c \<and> ts_peer_addr st = tc_peer_addr c \<and>
     ts_is_relay st = tc_is_relay c"

definition quic_same :: "quic_conn \<Rightarrow> quic_stream \<Rightarrow> bool" where
  "quic_same c st \<longleftrightarrow> qs_public_key st = qp_public_key c \<and> qs_laddr st = qp_laddr c \<and> qs_raddr st = qp_raddr c"

lemma tls_connect_shown:
  assumes "tls_connect display v ks signer ts net uuid la pa relay n = (Inr c, n')"
  shows "n' = n + 1 \<and> proves_key v (shown_to_client display v ks signer ts net pa) (tc_public_key c)"
proof -
  obtain t1 t2 t3 where ts: "ts = (t1, t2, t3)" by (cases ts)
  from assms obtain config a cert where
    *: "create_ssl_config display v signer t1 ks (tn_config net) = Inr config" "to_sockaddr pa = Inr a"
      "tn_handshake net (tls_verify_callback v t2) config (Some (fst a)) = Inr cert"
      "peer_public_key display v t3 cert = Inr (tc_public_key c)" "n' = n + 1"
    by (auto simp: ts tls_connect_def lift_bind_Inr map_err_Inr_iff tls_conn_new_def fetch_add_def)
  from iffD1 [OF peer_public_key_Inr *(4)] * show ?thesis
    by (auto simp: ts proves_key_def shown_to_client_def shown_cert_def)
qed

lemma tls_accept_shown:
  assumes "tls_accept display v ts net uuid acceptor la pa relay n = (Inr c, n')"
  shows "n' = n + 1 \<and> proves_key v (shown_to_server v ts net acceptor) (tc_public_key c)"
proof -
  obtain t2 t3 where ts: "ts = (t2, t3)" by (cases ts)
  from assms obtain cert where
    *: "tn_handshake net (tls_verify_callback v t2) acceptor None = Inr cert"
      "peer_public_key display v t3 cert = Inr (tc_public_key c)" "n' = n + 1"
    by (auto simp: ts tls_accept_def lift_bind_Inr map_err_Inr_iff tls_conn_new_def fetch_add_def)
  from iffD1 [OF peer_public_key_Inr *(2)] * show ?thesis
    by (auto simp: ts proves_key_def shown_to_server_def shown_cert_def)
qed

lemma tls_connects_verified:
  "tls_connects v n cert c n' \<Longrightarrow> n' = n + 1 \<and> proves_key v cert (tc_public_key c)"
  unfolding tls_connects_def by (elim disjE exE conjE) (simp_all add: tls_connect_shown tls_accept_shown)

lemma quic_connects_verified:
  assumes "quic_connects v n cert c n'"
  shows "n' = n + 1 \<and> proves_key v cert (qp_public_key c)"
  using assms
  by (auto simp: quic_connects_def quic_connect_def quic_accept_def lift_bind_Inr quic_conn_new_def fetch_add_def map_err_Inr_iff
      proves_key_def quic_shown_to_client_def ok_or_def split: option.splits) blast+

lemma tls_opens_same:
  assumes "tls_opens c n st n'"
  shows "n' = n + 1 \<and> ts_conn_id st = tc_id c \<and> tls_same c st"
proof -
  from assms obtain uuid r where "tls_conn_connect uuid r c n = (Inr st, n') \<or> tls_conn_accept uuid r c n = (Inr st, n')"
    by (auto simp: tls_opens_def)
  then show ?thesis
    by (cases r) (auto simp: tls_conn_connect_def tls_conn_accept_def act_lift_bind tls_stream_make_def fetch_add_def tls_same_def)
qed

lemma quic_opens_same:
  assumes "quic_opens c n st n'"
  shows "n' = n + 1 \<and> qs_conn_id st = qp_id c \<and> quic_same c st"
proof -
  from assms obtain r where "quic_conn_connect r c n = (Inr st, n') \<or> quic_conn_accept r c n = (Inr st, n')"
    by (auto simp: quic_opens_def)
  then show ?thesis
    by (cases r) (auto simp: quic_conn_connect_def quic_conn_accept_def act_lift_bind quic_stream_make_def fetch_add_def quic_same_def)
qed

interpretation tls_driver: secure_driver "tls_ops v" "\<lambda>cert c. proves_key v cert (tc_public_key c)" tls_same for v
  by unfold_locales (use tls_connects_verified tls_opens_same in \<open>auto simp: tls_ops_def counter_defs\<close>)

interpretation quic_driver: secure_driver "quic_ops v" "\<lambda>cert c. proves_key v cert (qp_public_key c)" quic_same for v
  by unfold_locales (use quic_connects_verified quic_opens_same in \<open>auto simp: quic_ops_def counter_defs\<close>)

text \<open>C14: Streams are authenticated and counted. Whatever connections a TLS or a QUIC transport makes and accepts, and however their handles and
  streams come and go: every live stream shows the key to which the very certificate verifies that the other end presented when
  the connection of this stream was made; it shows the key, the
  addresses (and the relay flag) of each live handle of its connection; \<open>activities\<close> is the number of live handles, and
  \<open>actives\<close> of a connection with a live handle the number of its live streams (as 64-bit values).\<close>

theorem streams_authenticated:
  assumes "rtranclp (driver_step (tls_ops v)) driver_new s" and "rtranclp (driver_step (quic_ops v)) driver_new q"
  shows "(\<forall>st\<in>set (dr_streams s). (\<exists>der t. dr_shown s (ts_conn_id st) = Some der \<and> verify v t der = Inr (ts_public_key st)) \<and>
        (\<forall>c\<in>set (dr_handles s). tc_id c = ts_conn_id st \<longrightarrow> tls_same c st)) \<and>
     activities_of (dr_counters s) = of_nat (length (dr_handles s)) \<and>
     (\<forall>c\<in>set (dr_handles s). actives_of (dr_counters s) (tc_id c) = of_nat (length (filter (\<lambda>st. ts_conn_id st = tc_id c) (dr_streams s)))) \<and>
     (\<forall>st\<in>set (dr_streams q). (\<exists>der t. dr_shown q (qs_conn_id st) = Some der \<and> verify v t der = Inr (qs_public_key st)) \<and>
        (\<forall>c\<in>set (dr_handles q). qp_id c = qs_conn_id st \<longrightarrow> quic_same c st)) \<and>
     activities_of (dr_counters q) = of_nat (length (dr_handles q)) \<and>
     (\<forall>c\<in>set (dr_handles q). actives_of (dr_counters q) (qp_id c) = of_nat (length (filter (\<lambda>st. qs_conn_id st = qp_id c) (dr_streams q))))"
proof -
  note tls = tls_driver.live_streams [OF assms(1), unfolded tls_driver.streams_of_def]
  note quic = quic_driver.live_streams [OF assms(2), unfolded quic_driver.streams_of_def]
  have "proves_key v (dr_shown s (ts_conn_id st)) (ts_public_key st)" if "st \<in> set (dr_streams s)" for st
    using tls(1) [OF that] by (auto simp: tls_same_def tls_ops_def)
  moreover have "proves_key v (dr_shown q (qs_conn_id st)) (qs_public_key st)" if "st \<in> set (dr_streams q)" for st
    using quic(1) [OF that] by (auto simp: quic_same_def quic_ops_def)
  ultimately show ?thesis
    using tls(2-4) quic(2-4) by (simp add: tls_ops_def quic_ops_def activities_of_def actives_of_def proves_key_def)
qed

text \<open>A node accepts a connection, a stream is opened on it, and the handle is dropped.\<close>

lemma sample_accept:
  "tls_accept (\<lambda>_. []) (toy_env toy_generated) (2, 3) (honest_net \<lparr>tl_cert = [1], tl_key = [9]\<rparr>) ''c''
     \<lparr>tl_cert = [1], tl_key = [9]\<rparr> [Ip4 1] [Ip4 2] False 0 =
   (Inr \<lparr>tc_id = ''c'', tc_public_key = PublicKey 3, tc_local_addr = [Ip4 1], tc_peer_addr = [Ip4 2], tc_is_relay = False\<rparr>, 1)"
proof -
  have "verify (toy_env toy_generated) 2 [1] = Inr (PublicKey 3)" "verify (toy_env toy_generated) 3 [1] = Inr (PublicKey 3)"
    using config_cert [OF toy_env_law toy_keystore toy_config, of 2] config_cert [OF toy_env_law toy_keystore toy_config, of 3] by simp_all
  then show ?thesis by (simp add: tls_accept_honest tls_conn_new_def)
qed

lemma sample_shown:
  "shown_to_server (toy_env toy_generated) (2, 3) (honest_net \<lparr>tl_cert = [1], tl_key = [9]\<rparr>) \<lparr>tl_cert = [1], tl_key = [9]\<rparr> = Some [1]"
proof -
  have "verify (toy_env toy_generated) 2 [1] = Inr (PublicKey 3)"
    using config_cert [OF toy_env_law toy_keystore toy_config, of 2] by simp
  then show ?thesis by (simp add: shown_to_server_def shown_cert_def honest_net_def tls_verify_callback_def)
qed

theorem streams_authenticated_witness:
  "\<exists>s st. rtranclp (driver_step (tls_ops (toy_env toy_generated))) driver_new s \<and> dr_streams s = [st] \<and> dr_handles s = [] \<and>
     dr_shown s ''c'' = Some [1] \<and> (\<exists>t. verify (toy_env toy_generated) t [1] = Inr (ts_public_key st)) \<and> activities_of (dr_counters s) = 0"
proof -
  let ?v = "toy_env toy_generated"
  let ?c = "\<lparr>tc_id = ''c'', tc_public_key = PublicKey 3, tc_local_addr = [Ip4 1], tc_peer_addr = [Ip4 2], tc_is_relay = False\<rparr>"
  let ?st = "fst (tls_stream_make ''s'' ''c'' (PublicKey 3) [Ip4 1] [Ip4 2] False 0)"
  let ?n = "driver_new :: (tls_conn, tls_stream) driver_state"
  let ?a = "?n\<lparr>dr_handles := ?c # dr_handles ?n,
      dr_counters := \<lparr>cn_activities = 1, cn_streams = (cn_streams (dr_counters ?n))(dv_id (tls_ops ?v) ?c := 0)\<rparr>,
      dr_ids := insert (dv_id (tls_ops ?v) ?c) (dr_ids ?n), dr_shown := (dr_shown ?n)(dv_id (tls_ops ?v) ?c := Some [1])\<rparr>"
  let ?b = "?a\<lparr>dr_streams := ?st # dr_streams ?a,
      dr_counters := (dr_counters ?a)\<lparr>cn_streams := (cn_streams (dr_counters ?a))(dv_id (tls_ops ?v) ?c := 1)\<rparr>\<rparr>"
  let ?e = "?b\<lparr>dr_handles := remove1 ?c (dr_handles ?b), dr_counters := dv_drop (tls_ops ?v) (dv_id (tls_ops ?v) ?c) (dr_counters ?b)\<rparr>"
  have "shown_to_server ?v (2, 3) (honest_net \<lparr>tl_cert = [1], tl_key = [9]\<rparr>) \<lparr>tl_cert = [1], tl_key = [9]\<rparr> = Some [1]"
    using sample_shown .
  then have "tls_connects ?v 0 (Some [1]) ?c 1" using sample_accept unfolding tls_connects_def by metis
  then have 1: "driver_step (tls_ops ?v) ?n ?a"
    by (intro Connects) (simp_all add: tls_ops_def driver_new_def)
  have "tls_conn_connect ''s'' (Inr ()) ?c 0 = (Inr ?st, 1)"
    by (simp add: tls_conn_connect_def act_lift_bind tls_stream_make_def fetch_add_def)
  then have "tls_opens ?c 0 ?st 1" unfolding tls_opens_def by blast
  then have 2: "driver_step (tls_ops ?v) ?a ?b"
    by (intro Opens) (simp_all add: tls_ops_def driver_new_def)
  have 3: "driver_step (tls_ops ?v) ?b ?e" by (rule Drops) simp
  have run: "rtranclp (driver_step (tls_ops ?v)) ?n ?e"
    using 1 2 3 by (meson converse_rtranclp_into_rtranclp rtranclp.rtrancl_refl)
  have "dr_streams ?e = [?st]" "dr_handles ?e = []" "dr_shown ?e ''c'' = Some [1]" by (simp_all add: driver_new_def tls_ops_def)
  with run obtain e where e: "rtranclp (driver_step (tls_ops ?v)) ?n e" "dr_streams e = [?st]" "dr_handles e = []"
    "dr_shown e ''c'' = Some [1]" by blast
  have id: "ts_conn_id ?st = ''c''" by (simp add: tls_stream_make_def)
  from streams_authenticated [OF e(1) rtranclp.rtrancl_refl] e(2-4) id
  have "\<exists>t. verify ?v t [1] = Inr (ts_public_key ?st)" "activities_of (dr_counters e) = 0"
    by simp_all
  with e show ?thesis by blast
qed

end
