(* ===== verification/Protobuf.thy ===== *)
theory Protobuf
  imports Rpc
begin

text \<open>
  What the generated protobuf modules (\<open>*/src/proto/*.rs\<close>) rely on, and the loop they share. The runtime of the
  protobuf package is the record \<open>wire\<close>: reading a tag or the value of a field from the front of the input, writing a field, and
  the sizes that it computes. \<open>wire_law\<close> is what protobuf documents of them; \<open>std_wire\<close> is the
  real encoding, which keeps the law.

  Of a message only its own fields are modelled: the struct also keeps unknown fields, which the sources never look at.
  Sizes are numbers; a cached size is a \<open>u32\<close>.
\<close>

section \<open>The runtime\<close>

record wire =
  wi_tag :: "bytes \<Rightarrow> string + (nat \<times> bytes) option"
  wi_enum :: "bytes \<Rightarrow> string + 32 word \<times> bytes"
  wi_int32 :: "bytes \<Rightarrow> string + 32 word \<times> bytes"
  wi_uint32 :: "bytes \<Rightarrow> string + 32 word \<times> bytes"
  wi_uint64 :: "bytes \<Rightarrow> string + 64 word \<times> bytes"
  wi_bytes :: "bytes \<Rightarrow> string + bytes \<times> bytes"
  wi_string :: "bytes \<Rightarrow> string + string \<times> bytes"
  wi_body :: "bytes \<Rightarrow> string + bytes \<times> bytes"
  wi_unknown :: "nat \<Rightarrow> bytes \<Rightarrow> string + bytes"
  wi_merges :: bool
  wo_enum :: "nat \<Rightarrow> 32 word \<Rightarrow> bytes"
  wo_int32 :: "nat \<Rightarrow> 32 word \<Rightarrow> bytes"
  wo_uint32 :: "nat \<Rightarrow> 32 word \<Rightarrow> bytes"
  wo_uint64 :: "nat \<Rightarrow> 64 word \<Rightarrow> bytes"
  wo_bytes :: "nat \<Rightarrow> bytes \<Rightarrow> bytes"
  wo_string :: "nat \<Rightarrow> string \<Rightarrow> bytes"
  wo_head :: "nat \<Rightarrow> nat \<Rightarrow> bytes"
  ws_int32 :: "nat \<Rightarrow> 32 word \<Rightarrow> nat"
  ws_uint32 :: "nat \<Rightarrow> 32 word \<Rightarrow> nat"
  ws_uint64 :: "nat \<Rightarrow> 64 word \<Rightarrow> nat"
  ws_bytes :: "nat \<Rightarrow> bytes \<Rightarrow> nat"
  ws_string :: "nat \<Rightarrow> string \<Rightarrow> nat"
  ws_varint :: "nat \<Rightarrow> nat"
  w_check :: "bool \<Rightarrow> string + unit"
  w_fit :: "nat \<Rightarrow> string + unit"

text \<open>
  \<open>carries w tag rd out v\<close>: the bytes \<open>out\<close> are a field with this tag whose value \<open>rd\<close> reads as \<open>v\<close>, whatever follows.
  \<open>shrinks\<close>: a reader takes its value from the front of the input.
\<close>

definition carries :: "wire \<Rightarrow> nat \<Rightarrow> (bytes \<Rightarrow> string + 'a \<times> bytes) \<Rightarrow> bytes \<Rightarrow> 'a \<Rightarrow> bool" where
  "carries w tag rd out v \<longleftrightarrow> out \<noteq> [] \<and> (\<forall>r. \<exists>t. wi_tag w (out @ r) = Inr (Some (tag, t)) \<and> rd t = Inr (v, r))"

definition shrinks :: "(bytes \<Rightarrow> string + 'a \<times> bytes) \<Rightarrow> bool" where
  "shrinks rd \<longleftrightarrow> (\<forall>b v r. rd b = Inr (v, r) \<longrightarrow> length r \<le> length b)"

definition wire_law :: "wire \<Rightarrow> bool" where
  "wire_law w \<longleftrightarrow> wi_tag w [] = Inr None \<and>
     (\<forall>b tag r. wi_tag w b = Inr (Some (tag, r)) \<longrightarrow> length r < length b) \<and>
     shrinks (wi_enum w) \<and> shrinks (wi_int32 w) \<and> shrinks (wi_uint32 w) \<and> shrinks (wi_uint64 w) \<and> shrinks (wi_bytes w) \<and> shrinks (wi_string w) \<and>
     shrinks (wi_body w) \<and> (\<forall>tag b r. wi_unknown w tag b = Inr r \<longrightarrow> length r \<le> length b) \<and>
     (\<forall>n\<in>{1..15}.
       (\<forall>v. carries w (8 * n) (wi_enum w) (wo_enum w n v) v \<and> length (wo_enum w n v) = ws_int32 w n v) \<and>
       (\<forall>v. carries w (8 * n) (wi_int32 w) (wo_int32 w n v) v \<and> length (wo_int32 w n v) = ws_int32 w n v) \<and>
       (\<forall>v. carries w (8 * n) (wi_uint32 w) (wo_uint32 w n v) v \<and> length (wo_uint32 w n v) = ws_uint32 w n v) \<and>
       (\<forall>v. carries w (8 * n) (wi_uint64 w) (wo_uint64 w n v) v \<and> length (wo_uint64 w n v) = ws_uint64 w n v) \<and>
       (\<forall>v. carries w (8 * n + 2) (wi_bytes w) (wo_bytes w n v) v \<and> length (wo_bytes w n v) = ws_bytes w n v) \<and>
       (\<forall>v. carries w (8 * n + 2) (wi_string w) (wo_string w n v) v \<and> length (wo_string w n v) = ws_string w n v) \<and>
       (\<forall>v. carries w (8 * n + 2) (wi_body w) (wo_head w n (length v) @ v) v) \<and>
       (\<forall>len. length (wo_head w n len) = 1 + ws_varint w len)) \<and>
     w_check w True = Inr () \<and> (\<exists>e. w_check w False = Inl e) \<and>
     (\<forall>len. w_fit w len = Inr () \<longrightarrow> len < 2 ^ 32) \<and> (\<forall>len < 2 ^ 31. w_fit w len = Inr ())"

section \<open>The loop of \<open>merge_from\<close>\<close>

text \<open>
  \<open>while let Some(tag) = is.read_raw_tag_or_eof()? { match tag { .. } }\<close>: \<open>f\<close> is the match. The first argument bounds
  the turns; each takes a byte at least, so one more than the length of the input is enough.
\<close>

fun merge_loop :: "wire \<Rightarrow> (nat \<Rightarrow> 'm \<Rightarrow> bytes \<Rightarrow> string + 'm \<times> bytes) \<Rightarrow> nat \<Rightarrow> 'm \<Rightarrow> bytes \<Rightarrow> string + 'm" where
  "merge_loop w f 0 m b = Inl ''out of turns''"
| "merge_loop w f (Suc n) m b =
     and_then (wi_tag w b) (\<lambda>next.
       case next of
         None \<Rightarrow> Inr m
       | Some (tag, b) \<Rightarrow> and_then (f tag m b) (\<lambda>(m, b). merge_loop w f n m b))"

definition merge_from :: "wire \<Rightarrow> (nat \<Rightarrow> 'm \<Rightarrow> bytes \<Rightarrow> string + 'm \<times> bytes) \<Rightarrow> 'm \<Rightarrow> bytes \<Rightarrow> string + 'm" where
  "merge_from w f m b = merge_loop w f (Suc (length b)) m b"

text \<open>The arms of a match: a value that is stored, a nested message that is merged, an unknown field that is skipped.\<close>

definition store_field :: "(bytes \<Rightarrow> string + 'a \<times> bytes) \<Rightarrow> ('a \<Rightarrow> 'm) \<Rightarrow> bytes \<Rightarrow> string + 'm \<times> bytes" where
  "store_field rd put b = and_then (rd b) (\<lambda>(v, b). Inr (put v, b))"

definition skip_field :: "wire \<Rightarrow> nat \<Rightarrow> 'm \<Rightarrow> bytes \<Rightarrow> string + 'm \<times> bytes" where
  "skip_field w tag m b = and_then (wi_unknown w tag b) (\<lambda>b. Inr (m, b))"

text \<open>
  \<open>read_singular_message_into_field\<close>: the body is merged into the field's message, or into a new one when the
  runtime replaces a field that is there (\<open>wi_merges\<close>); \<open>read_message\<close> starts from a new one.
\<close>

definition read_message :: "wire \<Rightarrow> (nat \<Rightarrow> 'a \<Rightarrow> bytes \<Rightarrow> string + 'a \<times> bytes) \<Rightarrow> 'a \<Rightarrow> bytes \<Rightarrow> string + 'a \<times> bytes" where
  "read_message w f start b = and_then (wi_body w b) (\<lambda>(body, b). and_then (merge_from w f start body) (\<lambda>m. Inr (m, b)))"

definition message_field :: "wire \<Rightarrow> (nat \<Rightarrow> 'a \<Rightarrow> bytes \<Rightarrow> string + 'a \<times> bytes) \<Rightarrow> 'a \<Rightarrow> 'a option \<Rightarrow> bytes \<Rightarrow> string + 'a \<times> bytes" where
  "message_field w f new old b = read_message w f (case old of Some m \<Rightarrow> (if wi_merges w then m else new) | None \<Rightarrow> new) b"

section \<open>Writing\<close>

text \<open>\<open>write_message_field_with_cached_size\<close>: the length that is written is the cached size.\<close>

definition write_message :: "wire \<Rightarrow> nat \<Rightarrow> nat \<Rightarrow> bytes \<Rightarrow> bytes" where
  "write_message w n computed body = wo_head w n (computed mod 2 ^ 32) @ body"

definition opt_write :: "('a \<Rightarrow> bytes) \<Rightarrow> 'a option \<Rightarrow> bytes" where
  "opt_write f x = (case x of Some v \<Rightarrow> f v | None \<Rightarrow> [])"

definition opt_size :: "('a \<Rightarrow> nat) \<Rightarrow> 'a option \<Rightarrow> nat" where
  "opt_size f x = (case x of Some v \<Rightarrow> f v | None \<Rightarrow> 0)"

text \<open>A field that is written unless it has its default value.\<close>

definition unless_write :: "'a \<Rightarrow> ('a \<Rightarrow> bytes) \<Rightarrow> 'a \<Rightarrow> bytes" where
  "unless_write d f v = (if v \<noteq> d then f v else [])"

definition unless_size :: "'a \<Rightarrow> ('a \<Rightarrow> nat) \<Rightarrow> 'a \<Rightarrow> nat" where
  "unless_size d f v = (if v \<noteq> d then f v else 0)"

definition message_size :: "wire \<Rightarrow> nat \<Rightarrow> nat" where
  "message_size w len = 1 + ws_varint w len + len"

lemma opt_simps [simp]:
  "opt_write f None = []" "opt_write f (Some v) = f v" "opt_size g None = 0" "opt_size g (Some v) = g v"
  by (simp_all add: opt_write_def opt_size_def)

section \<open>Reading back what was written\<close>

text \<open>\<open>reads w f b m m'\<close>: with enough turns, merging \<open>b\<close> into \<open>m\<close> ends with \<open>m'\<close>.\<close>

definition reads :: "wire \<Rightarrow> (nat \<Rightarrow> 'm \<Rightarrow> bytes \<Rightarrow> string + 'm \<times> bytes) \<Rightarrow> bytes \<Rightarrow> 'm \<Rightarrow> 'm \<Rightarrow> bool" where
  "reads w f b m m' \<longleftrightarrow> (\<forall>k > length b. merge_loop w f k m b = Inr m')"

lemma reads_merge: "reads w f b m m' \<Longrightarrow> merge_from w f m b = Inr m'"
  by (simp add: reads_def merge_from_def del: merge_loop.simps)

lemma reads_Nil: "wire_law w \<Longrightarrow> reads w f [] m m"
  by (auto simp: reads_def wire_law_def gr0_conv_Suc)

lemma reads_field:
  assumes "carries w tag rd out v" and "\<And>t r. rd t = Inr (v, r) \<Longrightarrow> f tag m t = Inr (m1, r)" and "reads w f r m1 m'"
  shows "reads w f (out @ r) m m'"
  unfolding reads_def
proof (intro allI impI)
  fix k
  assume k: "length (out @ r) < k"
  from assms(1) have "out \<noteq> []" by (simp add: carries_def)
  with k obtain j where j: "k = Suc j" "length r < j" by (cases k; cases out) auto
  from assms(1) obtain t where "wi_tag w (out @ r) = Inr (Some (tag, t))" "rd t = Inr (v, r)"
    unfolding carries_def by blast
  with assms(2) [of t r] assms(3) j show "merge_loop w f k m (out @ r) = Inr m'" by (simp add: reads_def)
qed

text \<open>\<open>put\<close> is the message as a function of the field that is read.\<close>

lemma reads_opt:
  assumes "\<And>v. x = Some v \<Longrightarrow> carries w tag rd (wr v) v" and "m = put None"
    and "\<And>v t r. x = Some v \<Longrightarrow> rd t = Inr (v, r) \<Longrightarrow> f tag (put None) t = Inr (put (Some v), r)"
    and "reads w f r (put x) m'"
  shows "reads w f (opt_write wr x @ r) m m'"
proof (cases x)
  case None
  with assms(2,4) show ?thesis by simp
next
  case (Some v)
  with reads_field [OF assms(1) [OF Some], of f m "put x" r m'] assms(2,3,4) show ?thesis by simp
qed

lemma reads_default:
  assumes "carries w tag rd (wr v) v" and "m = put d"
    and "\<And>t r. rd t = Inr (v, r) \<Longrightarrow> f tag (put d) t = Inr (put v, r)" and "reads w f r (put v) m'"
  shows "reads w f (unless_write d wr v @ r) m m'"
  using assms reads_field [OF assms(1), of f m "put v" r m'] by (cases "v = d") (auto simp: unless_write_def)

lemma reads_list:
  assumes "\<And>v. v \<in> set xs \<Longrightarrow> carries w tag rd (wr v) v" and "m = put []"
    and "\<And>v ys t r. rd t = Inr (v, r) \<Longrightarrow> f tag (put ys) t = Inr (put (ys @ [v]), r)"
    and "reads w f r (put xs) m'"
  shows "reads w f (concat (map wr xs) @ r) m m'"
proof -
  have "reads w f (concat (map wr zs) @ r) (put ys) m'" if "set zs \<subseteq> set xs" "reads w f r (put (ys @ zs)) m'" for ys zs
    using that
  proof (induction zs arbitrary: ys)
    case (Cons z zs)
    have "reads w f (concat (map wr zs) @ r) (put (ys @ [z])) m'" using Cons by simp
    with reads_field [OF assms(1), of z f "put ys" "put (ys @ [z])"] assms(3) Cons.prems(1) show ?case by simp
  qed simp
  from this [of xs "[]"] assms(2,4) show ?thesis by simp
qed

text \<open>A nested message, whose size was computed right.\<close>

lemma carries_message:
  assumes "wire_law w" and "n \<in> {1..15}" and "reads w g body new v" and "computed = length body" and "length body < 2 ^ 32"
  shows "carries w (8 * n + 2) (read_message w g new) (write_message w n computed body) v"
proof -
  have c: "carries w (8 * n + 2) (wi_body w) (wo_head w n (length body) @ body) body" using assms(1,2) by (simp add: wire_law_def)
  moreover have "read_message w g new t = Inr (v, r)" if "wi_body w t = Inr (body, r)" for t r
    using that reads_merge [OF assms(3)] by (simp add: read_message_def)
  ultimately show ?thesis using assms(4,5) unfolding carries_def write_message_def by fastforce
qed

lemma field_laws:
  assumes "wire_law w" and "n \<in> {1..15}"
  shows "carries w (8 * n) (wi_enum w) (wo_enum w n v) v" "length (wo_enum w n v) = ws_int32 w n v"
    "carries w (8 * n) (wi_uint32 w) (wo_uint32 w n v) v" "length (wo_uint32 w n v) = ws_uint32 w n v"
    "carries w (8 * n) (wi_uint64 w) (wo_uint64 w n u) u" "length (wo_uint64 w n u) = ws_uint64 w n u"
    "carries w (8 * n + 2) (wi_bytes w) (wo_bytes w n b) b" "length (wo_bytes w n b) = ws_bytes w n b"
    "carries w (8 * n + 2) (wi_string w) (wo_string w n s) s" "length (wo_string w n s) = ws_string w n s"
    "length (wo_head w n len) = 1 + ws_varint w len"
    "carries w (8 * n) (wi_int32 w) (wo_int32 w n v) v" "length (wo_int32 w n v) = ws_int32 w n v"
  using assms by (simp_all add: wire_law_def)

lemma write_message_length:
  "wire_law w \<Longrightarrow> n \<in> {1..15} \<Longrightarrow> computed = length body \<Longrightarrow> length body < 2 ^ 32 \<Longrightarrow>
     length (write_message w n computed body) = message_size w computed"
  by (simp add: write_message_def message_size_def field_laws)

lemma store_field_Inr [simp]: "rd b = Inr (v, r) \<Longrightarrow> store_field rd put b = Inr (put v, r)"
  by (simp add: store_field_def)

text \<open>\<open>read_enum_or_unknown\<close>: \<open>dec\<close> gives the constructor for a number, which is one that carries the number when it has no name.\<close>

definition read_enum :: "wire \<Rightarrow> (32 word \<Rightarrow> 'e) \<Rightarrow> bytes \<Rightarrow> string + 'e \<times> bytes" where
  "read_enum w dec b = and_then (wi_enum w b) (\<lambda>(v, b). Inr (dec v, b))"

lemma carries_enum:
  assumes "wire_law w" and "n \<in> {1..15}" and "dec (val v) = v"
  shows "carries w (8 * n) (read_enum w dec) (wo_enum w n (val v)) v"
  using field_laws(1) [OF assms(1,2), of "val v"] assms(3) unfolding carries_def by (fastforce simp: read_enum_def)

lemma message_field_None [simp]: "message_field w f new None = read_message w f new"
  by (simp add: message_field_def fun_eq_iff)

section \<open>Automation for the generated messages\<close>

text \<open>
  \<open>proto_simps\<close>: the fields of a message carry their values, and their sizes are the computed ones; a tag is compared as a number.
\<close>

named_theorems proto_simps

lemma carries_fields [proto_simps]:
  assumes "wire_law w" and "n \<in> {1..15}"
  shows "tag = 8 * n \<Longrightarrow> dec (val e) = e \<Longrightarrow> carries w tag (read_enum w dec) (wo_enum w n (val e)) e"
    "tag = 8 * n \<Longrightarrow> carries w tag (wi_int32 w) (wo_int32 w n v) v"
    "tag = 8 * n \<Longrightarrow> carries w tag (wi_uint32 w) (wo_uint32 w n v) v"
    "tag = 8 * n \<Longrightarrow> carries w tag (wi_uint64 w) (wo_uint64 w n u) u"
    "tag = 8 * n + 2 \<Longrightarrow> carries w tag (wi_bytes w) (wo_bytes w n b) b"
    "tag = 8 * n + 2 \<Longrightarrow> carries w tag (wi_string w) (wo_string w n s) s"
    "tag = 8 * n + 2 \<Longrightarrow> reads w g body new m \<Longrightarrow> computed = length body \<Longrightarrow> length body < 2 ^ 32 \<Longrightarrow>
       carries w tag (read_message w g new) (write_message w n computed body) m"
  using field_laws [OF assms] carries_enum [OF assms] carries_message [OF assms] by simp_all

lemma length_fields [proto_simps]:
  assumes "wire_law w" and "n \<in> {1..15}"
  shows "length (wo_enum w n v) = ws_int32 w n v" "length (wo_int32 w n v) = ws_int32 w n v"
    "length (wo_uint32 w n v) = ws_uint32 w n v" "length (wo_uint64 w n u) = ws_uint64 w n u"
    "length (wo_bytes w n b) = ws_bytes w n b" "length (wo_string w n s) = ws_string w n s"
    "computed = length body \<Longrightarrow> length body < 2 ^ 32 \<Longrightarrow> length (write_message w n computed body) = message_size w computed"
  using field_laws [OF assms] write_message_length [OF assms] by simp_all

lemma length_optional [proto_simps]:
  "length (opt_write f x) = opt_size (\<lambda>v. length (f v)) x"
  "length (unless_write d f v) = unless_size d (\<lambda>v. length (f v)) v"
  "length (concat (map h xs)) = sum_list (map (\<lambda>v. length (h v)) xs)"
  by (simp_all add: opt_write_def opt_size_def unless_write_def unless_size_def length_concat comp_def split: option.split)

lemma reads_end: "wire_law w \<Longrightarrow> m = m' \<Longrightarrow> reads w f [] m m'"
  using reads_Nil by simp

lemma message_size_ge: "len \<le> message_size w len"
  by (simp add: message_size_def)

lemma opt_size_ge: "x = Some v \<Longrightarrow> f v \<le> opt_size f x"
  by simp

lemma list_size_ge: "v \<in> set xs \<Longrightarrow> f v \<le> sum_list (map f xs)" for f :: "'a \<Rightarrow> nat"
  by (simp add: member_le_sum_list)

lemma opt_size_cong: "(\<And>v. x = Some v \<Longrightarrow> f v = g v) \<Longrightarrow> opt_size f x = opt_size g x"
  by (simp add: opt_size_def split: option.split)

section \<open>Whole messages\<close>

text \<open>
  The provided methods \<open>write_to_bytes\<close> and \<open>parse_from_bytes\<close> of the trait \<open>Message\<close>: the required fields are checked, the
  size is computed, and the fields are written; the fields are merged into a new message and checked. A message with a value
  that the generated type does not have, an unknown enum number that has a name, is none of the code's messages and is not written.
\<close>

definition write_to_bytes ::
    "wire \<Rightarrow> ('m \<Rightarrow> bool) \<Rightarrow> ('m \<Rightarrow> bool) \<Rightarrow> ('m \<Rightarrow> nat) \<Rightarrow> ('m \<Rightarrow> bytes) \<Rightarrow> 'm \<Rightarrow> string + bytes" where
  "write_to_bytes w typed initialized compute_size write m =
     (if \<not> typed m then Inl ''no such message''
      else and_then (w_check w (initialized m)) (\<lambda>_. and_then (w_fit w (compute_size m)) (\<lambda>_. Inr (write m))))"

definition parse_from_bytes ::
    "wire \<Rightarrow> (nat \<Rightarrow> 'm \<Rightarrow> bytes \<Rightarrow> string + 'm \<times> bytes) \<Rightarrow> ('m \<Rightarrow> bool) \<Rightarrow> 'm \<Rightarrow> bytes \<Rightarrow> string + 'm" where
  "parse_from_bytes w f initialized new b =
     and_then (merge_from w f new b) (\<lambda>m. and_then (w_check w (initialized m)) (\<lambda>_. Inr m))"

lemma write_to_bytesD:
  assumes "wire_law w" and "write_to_bytes w typed initialized compute_size write m = Inr buf"
  shows "typed m" "initialized m" "compute_size m < 2 ^ 32" "buf = write m"
  using assms by (auto simp: write_to_bytes_def and_then_Inr_iff wire_law_def split: if_splits) (cases "initialized m", auto)

lemma write_to_bytes_ok:
  "wire_law w \<Longrightarrow> typed m \<Longrightarrow> initialized m \<Longrightarrow> compute_size m < 2 ^ 31 \<Longrightarrow>
     write_to_bytes w typed initialized compute_size write m = Inr (write m)"
  by (simp add: write_to_bytes_def wire_law_def)

text \<open>What makes a codec keep \<open>message_law\<close>.\<close>

lemma message_law_generated:
  assumes "wire_law w"
    and "\<And>m. typed m \<Longrightarrow> compute_size m < 2 ^ 32 \<Longrightarrow> reads w f (write m) new m \<and> length (write m) = compute_size m"
  shows "message_law (write_to_bytes w typed initialized compute_size write) (parse_from_bytes w f initialized new)"
  unfolding message_law_def
proof (intro allI impI)
  fix m buf
  assume "write_to_bytes w typed initialized compute_size write m = Inr buf"
  note d = write_to_bytesD [OF assms(1) this]
  have "w_check w True = Inr ()" using assms(1) by (simp add: wire_law_def)
  with assms(2) [OF d(1,3)] d(2,3,4)
  show "length buf < 2 ^ 64 \<and> parse_from_bytes w f initialized new buf = Inr m"
    by (auto simp: parse_from_bytes_def dest: reads_merge)
qed

lemma codec_roundtrip:
  assumes "wire_law w" and "typed m" and "initialized m" and "compute_size m < 2 ^ 31"
    and "reads w f (wr m) new m" and "length (wr m) = compute_size m"
  shows "\<exists>buf. write_to_bytes w typed initialized compute_size wr m = Inr buf \<and> length buf = compute_size m \<and>
    parse_from_bytes w f initialized new buf = Inr m"
proof -
  have "w_check w True = Inr ()" using assms(1) by (simp add: wire_law_def)
  with assms show ?thesis by (simp add: write_to_bytes_ok parse_from_bytes_def reads_merge)
qed

text \<open>A message that lacks a required field is neither written nor read.\<close>

lemma uninitialized_write:
  assumes "wire_law w" and "\<not> initialized m"
  shows "\<exists>e. write_to_bytes w typed initialized compute_size write m = Inl e"
proof -
  obtain e where "w_check w False = Inl e" using assms(1) by (auto simp: wire_law_def)
  with assms(2) show ?thesis by (simp add: write_to_bytes_def)
qed

lemma parsed_initialized:
  assumes "wire_law w" and "parse_from_bytes w f initialized new b = Inr m"
  shows "initialized m"
proof -
  obtain e where "w_check w False = Inl e" using assms(1) by (auto simp: wire_law_def)
  with assms(2) show ?thesis by (cases "initialized m") (auto simp: parse_from_bytes_def and_then_Inr_iff)
qed

section \<open>The loop ends\<close>

text \<open>Every arm of the match leaves at most what it was given, so that the turns do not run out.\<close>

definition takes :: "(nat \<Rightarrow> 'm \<Rightarrow> bytes \<Rightarrow> string + 'm \<times> bytes) \<Rightarrow> bool" where
  "takes f \<longleftrightarrow> (\<forall>tag m. shrinks (f tag m))"

lemma shrinks_arms:
  "shrinks rd \<Longrightarrow> shrinks (store_field rd put)"
  "wire_law w \<Longrightarrow> shrinks (skip_field w tag m)"
  "wire_law w \<Longrightarrow> shrinks (read_message w f new)"
  "wire_law w \<Longrightarrow> shrinks (message_field w f new old)"
  "wire_law w \<Longrightarrow> shrinks (read_enum w dec)"
  by (fastforce simp: shrinks_def store_field_def skip_field_def read_message_def message_field_def read_enum_def wire_law_def
      and_then_Inr_iff)+

lemma shrinks_readers:
  "wire_law w \<Longrightarrow> shrinks (wi_int32 w)" "wire_law w \<Longrightarrow> shrinks (wi_uint32 w)" "wire_law w \<Longrightarrow> shrinks (wi_uint64 w)"
  "wire_law w \<Longrightarrow> shrinks (wi_bytes w)" "wire_law w \<Longrightarrow> shrinks (wi_string w)"
  by (simp_all add: wire_law_def)

lemmas takes_simps = takes_def shrinks_arms shrinks_readers

lemma merge_loop_enough:
  assumes "wire_law w" and "takes f"
  shows "length b < k \<Longrightarrow> length b < k' \<Longrightarrow> merge_loop w f k m b = merge_loop w f k' m b"
proof (induction k arbitrary: k' m b)
  case (Suc k)
  then obtain j where j: "k' = Suc j" by (cases k') auto
  have "merge_loop w f k m1 r1 = merge_loop w f j m1 r1"
    if "wi_tag w b = Inr (Some (tag, r))" "f tag m r = Inr (m1, r1)" for tag r m1 r1
  proof (rule Suc.IH)
    have "length r1 \<le> length r" using that(2) assms(2) unfolding takes_def shrinks_def by blast
    moreover have "length r < length b" using that(1) assms(1) unfolding wire_law_def by blast
    ultimately show "length r1 < k" "length r1 < j" using Suc.prems j by linarith+
  qed
  then show ?case unfolding j by (auto simp: and_then_def split: sum.splits option.splits)
qed simp

text \<open>So \<open>merge_from\<close> is the loop of the code, on every input.\<close>

definition runs_as_loop :: "wire \<Rightarrow> (nat \<Rightarrow> 'm \<Rightarrow> bytes \<Rightarrow> string + 'm \<times> bytes) \<Rightarrow> bool" where
  "runs_as_loop w f \<longleftrightarrow>
     (\<forall>m b. merge_from w f m b = and_then (wi_tag w b) (\<lambda>next. case next of None \<Rightarrow> Inr m
           | Some (tag, b) \<Rightarrow> and_then (f tag m b) (\<lambda>(m, b). merge_from w f m b)))"

lemma merge_from_loop:
  assumes "wire_law w" and "takes f"
  shows "runs_as_loop w f"
proof -
  have "merge_loop w f (length b) m1 r1 = merge_from w f m1 r1"
    if "wi_tag w b = Inr (Some (tag, r))" "f tag m r = Inr (m1, r1)" for b m tag r m1 r1
    unfolding merge_from_def
  proof (rule merge_loop_enough [OF assms])
    have "length r1 \<le> length r" using that(2) assms(2) unfolding takes_def shrinks_def by blast
    moreover have "length r < length b" using that(1) assms(1) unfolding wire_law_def by blast
    ultimately show "length r1 < length b" "length r1 < Suc (length r1)" by linarith+
  qed
  then have "merge_from w f m b = and_then (wi_tag w b) (\<lambda>next. case next of None \<Rightarrow> Inr m
           | Some (tag, b) \<Rightarrow> and_then (f tag m b) (\<lambda>(m, b). merge_from w f m b))" for m b
    by (subst merge_from_def) (auto simp: and_then_def split: sum.splits option.splits)
  then show ?thesis unfolding runs_as_loop_def by blast
qed

section \<open>The encoding\<close>

text \<open>
  Protobuf's own encoding keeps the law: a tag and every number are varints, an \<open>int32\<close> is extended to 64 bits with its sign,
  bytes and strings follow their length. The bytes of a string are its characters; groups are refused.
\<close>

definition std_varint :: "bytes \<Rightarrow> string + 'a::len word \<times> bytes" where
  "std_varint b = and_then (unleb b) (\<lambda>(n, r). Inr (of_nat n, r))"

definition std_body :: "bytes \<Rightarrow> string + bytes \<times> bytes" where
  "std_body b = and_then (unleb b) (\<lambda>(n, r). if n \<le> length r then Inr (take n r, drop n r) else Inl ''eof'')"

definition std_string :: "bytes \<Rightarrow> string + string \<times> bytes" where
  "std_string b = and_then (std_body b) (\<lambda>(v, r). Inr (map (\<lambda>x. char_of (unat x)) v, r))"

definition std_int32 :: "nat \<Rightarrow> 32 word \<Rightarrow> bytes" where
  "std_int32 n v = leb (8 * n) @ leb (unat (scast v :: 64 word))"

definition std_uint :: "nat \<Rightarrow> 'a::len word \<Rightarrow> bytes" where
  "std_uint n v = leb (8 * n) @ leb (unat v)"

definition std_head :: "nat \<Rightarrow> nat \<Rightarrow> bytes" where
  "std_head n len = leb (8 * n + 2) @ leb len"

definition std_bytes :: "nat \<Rightarrow> bytes \<Rightarrow> bytes" where
  "std_bytes n v = std_head n (length v) @ v"

definition std_text :: "nat \<Rightarrow> string \<Rightarrow> bytes" where
  "std_text n v = std_bytes n (map (\<lambda>c. of_nat (of_char c)) v)"

definition std_next :: "bytes \<Rightarrow> string + (nat \<times> bytes) option" where
  "std_next b = (if b = [] then Inr None else and_then (unleb b) (\<lambda>(t, r). Inr (Some (t, r))))"

definition std_unknown :: "nat \<Rightarrow> bytes \<Rightarrow> string + bytes" where
  "std_unknown tag b =
     (if tag mod 8 = 0 then and_then (unleb b) (\<lambda>(_, r). Inr r)
      else if tag mod 8 = 1 \<and> 8 \<le> length b then Inr (drop 8 b)
      else if tag mod 8 = 2 then and_then (std_body b) (\<lambda>(_, r). Inr r)
      else if tag mod 8 = 5 \<and> 4 \<le> length b then Inr (drop 4 b)
      else Inl ''unknown wire type'')"

definition std_wire :: "bool \<Rightarrow> wire" where
  "std_wire merges =
     \<lparr>wi_tag = std_next, wi_enum = std_varint, wi_int32 = std_varint, wi_uint32 = std_varint, wi_uint64 = std_varint,
      wi_bytes = std_body, wi_string = std_string, wi_body = std_body, wi_unknown = std_unknown, wi_merges = merges,
      wo_enum = std_int32, wo_int32 = std_int32, wo_uint32 = std_uint, wo_uint64 = std_uint, wo_bytes = std_bytes,
      wo_string = std_text, wo_head = std_head, ws_int32 = (\<lambda>n v. length (std_int32 n v)),
      ws_uint32 = (\<lambda>n v. length (std_uint n v)), ws_uint64 = (\<lambda>n v. length (std_uint n v)),
      ws_bytes = (\<lambda>n v. length (std_bytes n v)), ws_string = (\<lambda>n v. length (std_text n v)),
      ws_varint = (\<lambda>n. length (leb n)),
      w_check = (\<lambda>ok. if ok then Inr () else Inl ''Message is not initialized''),
      w_fit = (\<lambda>len. if len < 2 ^ 31 then Inr () else Inl ''message is too large'')\<rparr>"

lemma std_wire_sel [simp]:
  "wi_tag (std_wire merges) = std_next"
  "wi_enum (std_wire merges) = std_varint"
  "wi_int32 (std_wire merges) = std_varint"
  "wi_uint32 (std_wire merges) = std_varint"
  "wi_uint64 (std_wire merges) = std_varint"
  "wi_bytes (std_wire merges) = std_body"
  "wi_string (std_wire merges) = std_string"
  "wi_body (std_wire merges) = std_body"
  "wi_unknown (std_wire merges) = std_unknown"
  "wi_merges (std_wire merges) = merges"
  "wo_enum (std_wire merges) = std_int32"
  "wo_int32 (std_wire merges) = std_int32"
  "wo_uint32 (std_wire merges) = std_uint"
  "wo_uint64 (std_wire merges) = std_uint"
  "wo_bytes (std_wire merges) = std_bytes"
  "wo_string (std_wire merges) = std_text"
  "wo_head (std_wire merges) = std_head"
  "ws_int32 (std_wire merges) n v = length (std_int32 n v)"
  "ws_uint32 (std_wire merges) n v = length (std_uint n v)"
  "ws_uint64 (std_wire merges) n u = length (std_uint n u)"
  "ws_bytes (std_wire merges) n b = length (std_bytes n b)"
  "ws_string (std_wire merges) n s = length (std_text n s)"
  "ws_varint (std_wire merges) len = length (leb len)"
  "w_check (std_wire merges) ok = (if ok then Inr () else Inl ''Message is not initialized'')"
  "w_fit (std_wire merges) len = (if len < 2 ^ 31 then Inr () else Inl ''message is too large'')"
  by (simp_all add: std_wire_def)

lemma unleb_less: "unleb b = Inr (n, r) \<Longrightarrow> length r < length b"
  by (induction b arbitrary: n) (fastforce split: if_splits sum.splits)+

lemma leb_ne [simp]: "leb n \<noteq> []"
  by (subst leb.simps) simp

lemma leb_tag: "n \<in> {1..15} \<Longrightarrow> length (leb (8 * n + 2)) = 1"
  by (subst leb.simps) simp

lemma ucast_scast [simp]: "ucast (scast (v :: 32 word) :: 64 word) = v"
  by (rule bit_word_eqI) (simp add: bit_simps)

lemma std_shrinks:
  "shrinks (std_varint :: bytes \<Rightarrow> string + 'a::len word \<times> bytes)" "shrinks std_body" "shrinks std_string"
  "std_unknown tag b = Inr r \<Longrightarrow> length r \<le> length b"
proof -
  show body: "shrinks std_body"
    by (auto simp: shrinks_def std_body_def and_then_Inr_iff split: if_splits dest!: unleb_less)
  show "shrinks (std_varint :: bytes \<Rightarrow> string + 'a word \<times> bytes)"
    by (auto simp: shrinks_def std_varint_def and_then_Inr_iff dest!: unleb_less)
  show "shrinks std_string"
    using body by (fastforce simp: shrinks_def std_string_def and_then_Inr_iff)
  show "length r \<le> length b" if "std_unknown tag b = Inr r"
    using that body
    by (fastforce simp: shrinks_def std_unknown_def and_then_Inr_iff split: if_splits dest: unleb_less)
qed

lemma std_carriesI:
  "(\<And>r. rd (body @ r) = Inr (v, r)) \<Longrightarrow> out = leb tag @ body \<Longrightarrow> carries (std_wire merges) tag rd out v"
  by (simp add: carries_def std_next_def unleb_leb)

lemma std_body_leb [simp]: "std_body (leb (length v) @ v @ r) = Inr (v, r)"
  by (simp add: std_body_def unleb_leb)

lemma std_carries:
  "carries (std_wire g) (8 * n) std_varint (std_int32 n v) v"
  "carries (std_wire g) (8 * n) std_varint (std_uint n u) (u :: 'a::len word)"
  "carries (std_wire g) (8 * n + 2) std_body (std_bytes n b) b"
  "carries (std_wire g) (8 * n + 2) std_string (std_text n s) s"
  "carries (std_wire g) (8 * n + 2) std_body (std_head n (length b) @ b) b"
proof -
  have chars: "map (\<lambda>x :: 8 word. char_of (unat x)) (map (\<lambda>c. of_nat (of_char c)) s) = s"
    by (induction s) (simp_all add: unat_of_nat take_bit_eq_mod)
  show "carries (std_wire g) (8 * n) std_varint (std_int32 n v) v"
    by (rule std_carriesI) (simp_all add: std_varint_def std_int32_def unleb_leb)
  show "carries (std_wire g) (8 * n) std_varint (std_uint n u) u"
    by (rule std_carriesI) (simp_all add: std_varint_def std_uint_def unleb_leb)
  show "carries (std_wire g) (8 * n + 2) std_body (std_bytes n b) b"
    "carries (std_wire g) (8 * n + 2) std_body (std_head n (length b) @ b) b"
    by (rule std_carriesI [where body = "leb (length b) @ b"]; simp add: std_bytes_def std_head_def)+
  show "carries (std_wire g) (8 * n + 2) std_string (std_text n s) s"
    by (rule std_carriesI [where body = "leb (length s) @ map (\<lambda>c. of_nat (of_char c)) s"])
      (use chars std_body_leb [of "map (\<lambda>c. of_nat (of_char c)) s"] in \<open>simp_all add: std_text_def std_bytes_def std_head_def std_string_def\<close>)
qed

lemma std_wire_law: "wire_law (std_wire g)"
proof -
  have "std_next [] = Inr None" by (simp add: std_next_def)
  moreover have "length r < length b" if "std_next b = Inr (Some (t, r))" for b t r
    using that by (auto simp: std_next_def and_then_Inr_iff split: if_splits dest: unleb_less)
  ultimately show ?thesis
    unfolding wire_law_def using std_shrinks(4)
    by (auto simp: std_carries std_carries [simplified] std_carries(5) [simplified std_head_def, simplified] std_shrinks std_head_def leb_tag [simplified])
qed

end
