(* ===== verification/IdentityProto.thy ===== *)
theory IdentityProto
  imports SwitchCore Protobuf
begin

text \<open>
  \<open>xstack/src/proto/identity.rs\<close>: the generated message of the identify protocol, its reader and writer in the order of the source, and
  what the sources use of its accessors. It is the codec of \<open>identity_push\<close> and \<open>identity_response\<close>.
\<close>

section \<open>\<open>Identity\<close>\<close>

definition identity_new :: identity_msg where
  "identity_new = \<lparr>im_protocol_version = None, im_agent_version = None, im_public_key = None, im_listen_addrs = [], im_observed_addr = None, im_protocols = [], im_signed_record = None\<rparr>"

definition identity_merge :: "wire \<Rightarrow> nat \<Rightarrow> identity_msg \<Rightarrow> bytes \<Rightarrow> string + identity_msg \<times> bytes" where
  "identity_merge w tag m =
     (if tag = 42 then store_field (wi_string w) (\<lambda>v. m\<lparr>im_protocol_version := Some v\<rparr>)
      else if tag = 50 then store_field (wi_string w) (\<lambda>v. m\<lparr>im_agent_version := Some v\<rparr>)
      else if tag = 10 then store_field (wi_bytes w) (\<lambda>v. m\<lparr>im_public_key := Some v\<rparr>)
      else if tag = 18 then store_field (wi_bytes w) (\<lambda>v. m\<lparr>im_listen_addrs := im_listen_addrs m @ [v]\<rparr>)
      else if tag = 34 then store_field (wi_bytes w) (\<lambda>v. m\<lparr>im_observed_addr := Some v\<rparr>)
      else if tag = 26 then store_field (wi_string w) (\<lambda>v. m\<lparr>im_protocols := im_protocols m @ [v]\<rparr>)
      else if tag = 66 then store_field (wi_bytes w) (\<lambda>v. m\<lparr>im_signed_record := Some v\<rparr>)
      else skip_field w tag m)"

definition identity_size :: "wire \<Rightarrow> identity_msg \<Rightarrow> nat" where
  "identity_size w m =
     opt_size (ws_string w 5) (im_protocol_version m) +
     opt_size (ws_string w 6) (im_agent_version m) +
     opt_size (ws_bytes w 1) (im_public_key m) +
     sum_list (map (ws_bytes w 2) (im_listen_addrs m)) +
     opt_size (ws_bytes w 4) (im_observed_addr m) +
     sum_list (map (ws_string w 3) (im_protocols m)) +
     opt_size (ws_bytes w 8) (im_signed_record m)"

definition identity_write :: "wire \<Rightarrow> identity_msg \<Rightarrow> bytes" where
  "identity_write w m =
     concat [opt_write (wo_string w 5) (im_protocol_version m),
       opt_write (wo_string w 6) (im_agent_version m),
       opt_write (wo_bytes w 1) (im_public_key m),
       concat (map (wo_bytes w 2) (im_listen_addrs m)),
       opt_write (wo_bytes w 4) (im_observed_addr m),
       concat (map (wo_string w 3) (im_protocols m)),
       opt_write (wo_bytes w 8) (im_signed_record m)]"

lemma identity_codec:
  assumes "wire_law w"
  shows "reads w (identity_merge w) (identity_write w m) identity_new m" "length (identity_write w m) = identity_size w m"
proof -
  note field = proto_simps assms(1) identity_new_def identity_merge_def
  show "reads w (identity_merge w) (identity_write w m) identity_new m"
    unfolding identity_write_def concat.simps
    by (rule reads_opt [where tag = 42 and rd = "wi_string w"
        and put = "\<lambda>x. \<lparr>im_protocol_version = x, im_agent_version = None, im_public_key = None, im_listen_addrs = [], im_observed_addr = None, im_protocols = [], im_signed_record = None\<rparr>"],
      simp_all add: field del: append_Nil2,
      rule reads_opt [where tag = 50 and rd = "wi_string w"
        and put = "\<lambda>x. \<lparr>im_protocol_version = im_protocol_version m, im_agent_version = x, im_public_key = None, im_listen_addrs = [], im_observed_addr = None, im_protocols = [], im_signed_record = None\<rparr>"],
      simp_all add: field del: append_Nil2,
      rule reads_opt [where tag = 10 and rd = "wi_bytes w"
        and put = "\<lambda>x. \<lparr>im_protocol_version = im_protocol_version m, im_agent_version = im_agent_version m, im_public_key = x, im_listen_addrs = [], im_observed_addr = None, im_protocols = [], im_signed_record = None\<rparr>"],
      simp_all add: field del: append_Nil2,
      rule reads_list [where tag = 18 and rd = "wi_bytes w"
        and put = "\<lambda>x. \<lparr>im_protocol_version = im_protocol_version m, im_agent_version = im_agent_version m, im_public_key = im_public_key m, im_listen_addrs = x, im_observed_addr = None, im_protocols = [], im_signed_record = None\<rparr>"],
      simp_all add: field del: append_Nil2,
      rule reads_opt [where tag = 34 and rd = "wi_bytes w"
        and put = "\<lambda>x. \<lparr>im_protocol_version = im_protocol_version m, im_agent_version = im_agent_version m, im_public_key = im_public_key m, im_listen_addrs = im_listen_addrs m, im_observed_addr = x, im_protocols = [], im_signed_record = None\<rparr>"],
      simp_all add: field del: append_Nil2,
      rule reads_list [where tag = 26 and rd = "wi_string w"
        and put = "\<lambda>x. \<lparr>im_protocol_version = im_protocol_version m, im_agent_version = im_agent_version m, im_public_key = im_public_key m, im_listen_addrs = im_listen_addrs m, im_observed_addr = im_observed_addr m, im_protocols = x, im_signed_record = None\<rparr>"],
      simp_all add: field del: append_Nil2,
      rule reads_opt [where tag = 66 and rd = "wi_bytes w"
        and put = "\<lambda>x. \<lparr>im_protocol_version = im_protocol_version m, im_agent_version = im_agent_version m, im_public_key = im_public_key m, im_listen_addrs = im_listen_addrs m, im_observed_addr = im_observed_addr m, im_protocols = im_protocols m, im_signed_record = x\<rparr>"],
      simp_all add: field del: append_Nil2, rule reads_end [OF assms(1)], cases m, simp)
  show "length (identity_write w m) = identity_size w m" by (simp add: identity_write_def identity_size_def field cong: map_cong)
qed

lemma identity_takes: "wire_law w \<Longrightarrow> takes (identity_merge w)"
  by (simp add: identity_merge_def takes_simps)

section \<open>The codec of the calls\<close>

definition generated_identity :: "wire \<Rightarrow> codec \<Rightarrow> codec" where
  "generated_identity w k = k\<lparr>
     wr_identity := write_to_bytes w (\<lambda>_. True) (\<lambda>_. True) (identity_size w) (identity_write w),
     parse_identity := parse_from_bytes w (identity_merge w) (\<lambda>_. True) identity_new\<rparr>"

lemma generated_identity_law:
  assumes "wire_law w" and "codec_law k"
  shows "codec_law (generated_identity w k)"
  using assms(2) identity_codec [OF assms(1)]
    message_law_generated [OF assms(1), of "\<lambda>_. True" "identity_size w" "identity_merge w" "identity_write w"]
  by (simp add: codec_law_def generated_identity_def)

lemma generated_identity_writes:
  assumes "wire_law w" and "identity_size w m < 2 ^ 31"
  shows "\<exists>buf. wr_identity (generated_identity w k) m = Inr buf \<and> length buf = identity_size w m \<and>
    parse_identity (generated_identity w k) buf = Inr m"
  using codec_roundtrip [OF assms(1), where typed = "\<lambda>_. True" and initialized = "\<lambda>_. True"
      and compute_size = "identity_size w" and wr = "identity_write w" and f = "identity_merge w" and new = identity_new]
    identity_codec [OF assms(1)] assms(2)
  by (simp add: generated_identity_def)

text \<open>C21: The identify message. Every message below 2 GiB is written, in exactly the number of bytes that was computed for it, and is
  read back as itself; so the codec that the file makes keeps the law that the identify protocol relies on.\<close>

theorem identity_messages:
  assumes "wire_law w" and "codec_law k"
  shows "codec_law (generated_identity w k) \<and>
    (\<forall>m. identity_size w m < 2 ^ 31 \<longrightarrow>
       (\<exists>buf. wr_identity (generated_identity w k) m = Inr buf \<and> length buf = identity_size w m \<and>
          parse_identity (generated_identity w k) buf = Inr m))"
  using generated_identity_law [OF assms] generated_identity_writes [OF assms(1)] by blast

definition small_identity :: identity_msg where
  "small_identity = identity_new\<lparr>im_agent_version := Some ''x'', im_public_key := Some [1, 2], im_listen_addrs := [[3], []]\<rparr>"

lemma small_identity_size: "identity_size (std_wire g) small_identity = 12"
  by (simp add: small_identity_def identity_new_def identity_size_def std_text_def std_bytes_def std_head_def leb.simps)

theorem identity_messages_witness:
  "\<exists>buf. wr_identity (generated_identity (std_wire True) (one_message_codec identity_new)) small_identity = Inr buf \<and> length buf = 12 \<and>
     parse_identity (generated_identity (std_wire True) (one_message_codec identity_new)) buf = Inr small_identity"
  using identity_messages [OF std_wire_law one_message_codec_law, of True identity_new] small_identity_size [of True] by force

end
