(* ===== verification/EndToEnd.thy ===== *)
theory EndToEnd
  imports IdentityProto
begin

text \<open>
  The handshake over real bytes: the identify answer of one switch (\<open>switch/protocols.rs\<close>), written by the generated message code
  (\<open>proto/identity.rs\<close>), is read by the handshake of another (\<open>switch/switch.rs\<close>).
\<close>

lemma identity_response_writes:
  assumes "wr_identity k (identity_of k key agent ps nats relay addr peer) = Inr buf" and "st_room out = None"
  shows "identity_response k key agent ps nats relay addr peer out =
    (Inr (), out\<lparr>st_out := st_out out @ enc_varint k (length buf) @ buf\<rparr>)"
  using assms by (simp add: identity_response_def act_bind_def write_all_def)

lemma identity_too_long:
  assumes "varint_law (enc_varint k) (dec_varint k)" and "st_in io = enc_varint k len @ rest" and "len < 2 ^ 64" and "n < len"
  shows "identity_push k n now p io s = (Inl (Overflow len), s)"
proof -
  have "dec_varint k (enc_varint k len @ rest) = Inr (len, rest)" using assms(1,3) by (simp add: varint_law_def)
  then have "fst (xstack_recv_identity (dec_varint k) (parse_identity k) n io) = Inl (Overflow len)"
    using assms(2,4) by (simp add: xstack_recv_identity_def act_bind_def read_usize_def)
  then show ?thesis by (simp add: identity_push_cases)
qed

text \<open>C11: The handshake over real bytes. A peer answers identify on a stream that takes all it writes, and the answer, in the wire format of the
  generated code, is what the dialling side reads. The handshake then succeeds exactly when the computed size of the message is within
  the packet limit of the reader. If it is, the reader's peer book holds the peer under the id of its key, with exactly the addresses it
  listens on and the protocols it serves, the held back streams are released and success is announced; otherwise the handshake fails
  with \<open>Overflow\<close> of that size, the peer book and the observed addresses are as they were and failure is announced.\<close>

theorem handshake_over_the_wire:
  assumes "wire_law w" and "codec_law k0" and "k = generated_identity w k0" and "disp_ok (sw_disp s)" and "st_room out = None"
    and "len = identity_size w (identity_of k key agent ps nats relay addr peer)" and "len < 2 ^ 31"
    and "identity_response k key agent ps nats relay addr peer out = (r, out')"
    and "st_in io = drop (length (st_out out)) (st_out out')"
  shows "\<exists>s'. handshake k n now conn (key_peer k key) (Some (Inr io)) s = Some (if len \<le> n then Inr () else Inl (Overflow len), s') \<and>
    unauth_streams (sw_disp s') conn = None \<and>
    (if len \<le> n
     then sw_events s' = sw_events s @ [EvHandshakeSuccess conn (key_peer k key)] \<and>
       book_get (sw_book s') (key_peer k key) =
         Inr (Some \<lparr>pi_id = key_peer k key, pi_addrs = listen_addrs nats (sw_mut peer),
                    pi_protos = merge_protos (disp_protos ps (sw_disp peer)), pi_appear = Some now, pi_disappear = None\<rparr>)
     else sw_events s' = sw_events s @ [EvHandshakeFailed conn (key_peer k key)] \<and> sw_book s' = sw_book s \<and> sw_mut s' = sw_mut s)"
proof -
  let ?m = "identity_of k key agent ps nats relay addr peer" and ?s = "s\<lparr>sw_disp := disp_handshake conn (sw_disp s)\<rparr>"
  have law: "codec_law k" unfolding assms(3) by (rule generated_identity_law [OF assms(1,2)])
  obtain buf where buf: "wr_identity k ?m = Inr buf" "length buf = len"
    using generated_identity_writes [OF assms(1), of ?m k0] assms(3,6,7) by blast
  have out: "r = Inr ()" "st_out out' = st_out out @ enc_varint k len @ buf"
    using identity_response_writes [OF buf(1) assms(5)] assms(8) buf(2) by auto
  show ?thesis
  proof (cases "len \<le> n")
    case True
    have "identity_push k n now (key_peer k key) io ?s = (Inr (), snd (identity_push k n now (key_peer k key) io ?s)) \<and>
        book_get (sw_book (snd (identity_push k n now (key_peer k key) io ?s))) (key_peer k key) =
          Inr (Some \<lparr>pi_id = key_peer k key, pi_addrs = listen_addrs nats (sw_mut peer),
                    pi_protos = merge_protos (disp_protos ps (sw_disp peer)), pi_appear = Some now, pi_disappear = None\<rparr>)"
      using identify_exchange [OF law, of key agent ps nats relay addr peer out out' io n now ?s] assms(8,9) out(1) buf True
      by (simp add: book_get_def stored_def)
    with handshake_push [OF assms(4), of k n now "key_peer k key" io conn] True show ?thesis by fastforce
  next
    case False
    have "identity_push k n now (key_peer k key) io ?s = (Inl (Overflow len), ?s)"
      using identity_too_long [of k io len buf n] law assms(7,9) out(2) False by (simp add: codec_law_def)
    from handshake_push [OF assms(4) this] False show ?thesis by fastforce
  qed
qed

definition wire_codec :: codec where
  "wire_codec = generated_identity (std_wire True) (one_message_codec identity_new)"

lemma wire_codec_identity:
  "identity_of wire_codec (PublicKey 3) ''a'' [] [] True [Ip4 5] empty_switch =
     identity_new\<lparr>im_agent_version := Some ''a'', im_public_key := Some [0, 0, 0],
       im_protocols := [PROTOCOL_IPFS_ID, PROTOCOL_IPFS_PUSH_ID, PROTOCOL_IPFS_PING]\<rparr>"
  by (simp add: wire_codec_def generated_identity_def one_message_codec_def identity_of_def empty_switch_def mutable_new_def
      listen_addrs_def auto_nat_default_def disp_protos_def merge_protos_def identity_new_def eval_nat_numeral)

lemma std_text_size: "length (std_text n v) = length (std_head n (length v)) + length v"
  by (simp add: std_text_def std_bytes_def)

lemma wire_codec_size: "identity_size (std_wire True) (identity_of wire_codec (PublicKey 3) ''a'' [] [] True [Ip4 5] empty_switch) = 63"
  unfolding wire_codec_identity
  by (simp add: identity_size_def identity_new_def std_text_size std_bytes_def std_head_def leb.simps PROTOCOL_IPFS_ID_def PROTOCOL_IPFS_PUSH_ID_def PROTOCOL_IPFS_PING_def)

theorem handshake_over_the_wire_witness:
  "(\<exists>io s'. handshake wire_codec 63 9 ''c1'' (PeerId 3) (Some (Inr io)) empty_switch = Some (Inr (), s') \<and>
     sw_events s' = [EvHandshakeSuccess ''c1'' (PeerId 3)]) \<and>
   (\<exists>io s'. handshake wire_codec 62 9 ''c1'' (PeerId 3) (Some (Inr io)) empty_switch = Some (Inl (Overflow 63), s') \<and>
     sw_events s' = [EvHandshakeFailed ''c1'' (PeerId 3)])"
proof -
  let ?answer = "identity_response wire_codec (PublicKey 3) ''a'' [] [] True [Ip4 5] empty_switch quiet"
  have ok: "disp_ok (sw_disp empty_switch)" by (simp add: empty_switch_def disp_new_ok)
  have answer: "?answer = (fst ?answer, snd ?answer)" by simp
  have peer: "key_peer wire_codec (PublicKey 3) = PeerId 3"
    by (simp add: wire_codec_def generated_identity_def one_message_codec_def)
  have io: "st_in (quiet\<lparr>st_in := st_out (snd ?answer)\<rparr>) = drop (length (st_out quiet)) (st_out (snd ?answer))"
    by (simp add: quiet_def)
  note over = handshake_over_the_wire [OF std_wire_law one_message_codec_law wire_codec_def ok _ wire_codec_size [symmetric] _ answer io,
      where now = 9 and conn = "''c1''", unfolded peer]
  have "sw_events empty_switch = []" "st_room quiet = None" by (simp_all add: empty_switch_def quiet_def)
  then show ?thesis using over [of 63] over [of 62] by fastforce
qed

end
