(* ===== verification/TwoNodes.thy ===== *)
theory TwoNodes
  imports EndToEnd SwitchRun
begin

text \<open>
  Two nodes that connect: the TCP transport and TLS (SecureConn), the handshake over the bytes of the generated messages (EndToEnd), the tasks
  of the switches and their pools (SwitchRun), from the dial of one node and the accept of the other until each finds the other in its pool.
\<close>

section \<open>Identify\<close>

text \<open>The stream \<open>io\<close> holds what the node with this key and this switch writes when it is asked to identify itself, in a message of
  at most \<open>n\<close> bytes.\<close>

definition identify_stream ::
    "wire \<Rightarrow> codec \<Rightarrow> nat \<Rightarrow> public_key \<Rightarrow> string list \<Rightarrow> multiaddr list \<Rightarrow> switch_st \<Rightarrow> stream \<Rightarrow> bool" where
  "identify_stream w k n key ps nats s io \<longleftrightarrow>
     (\<exists>agent relay addr out out'. st_room out = None \<and>
        identity_response k key agent ps nats relay addr s out = (Inr (), out') \<and>
        st_in io = drop (length (st_out out)) (st_out out') \<and>
        identity_size w (identity_of k key agent ps nats relay addr s) \<le> n \<and>
        identity_size w (identity_of k key agent ps nats relay addr s) < 2 ^ 31)"

text \<open>What the other node then knows of it.\<close>

definition known_as :: "codec \<Rightarrow> public_key \<Rightarrow> string list \<Rightarrow> multiaddr list \<Rightarrow> switch_st \<Rightarrow> nat \<Rightarrow> peer_info" where
  "known_as k key ps nats s now =
     \<lparr>pi_id = key_peer k key, pi_addrs = listen_addrs nats (sw_mut s), pi_protos = merge_protos (disp_protos ps (sw_disp s)),
      pi_appear = Some now, pi_disappear = None\<rparr>"

lemma handshake_wire:
  assumes "wire_law w" and "codec_law k0" and "k = generated_identity w k0" and "disp_ok (sw_disp s)"
    and "identify_stream w k n key ps nats peer io"
  shows "\<exists>s'. handshake k n now conn (key_peer k key) (Some (Inr io)) s = Some (Inr (), s') \<and>
    book_get (sw_book s') (key_peer k key) = Inr (Some (known_as k key ps nats peer now))"
proof -
  have law: "codec_law k" unfolding assms(3) by (rule generated_identity_law [OF assms(1,2)])
  from assms(5) obtain agent relay addr out out' where id: "st_room out = None"
    "identity_response k key agent ps nats relay addr peer out = (Inr (), out')" "st_in io = drop (length (st_out out)) (st_out out')"
    "identity_size w (identity_of k key agent ps nats relay addr peer) \<le> n"
    "identity_size w (identity_of k key agent ps nats relay addr peer) < 2 ^ 31"
    unfolding identify_stream_def by blast
  obtain buf where buf: "wr_identity k (identity_of k key agent ps nats relay addr peer) = Inr buf" "length buf \<le> n"
    using generated_identity_writes [OF assms(1) id(5), of k0] assms(3) id(4) by auto
  let ?s = "s\<lparr>sw_disp := disp_handshake conn (sw_disp s)\<rparr>"
  obtain s1 where s1: "identity_push k n now (key_peer k key) io ?s = (Inr (), s1)"
    "book_get (sw_book s1) (key_peer k key) = Inr (Some (known_as k key ps nats peer now))"
    using identify_exchange [OF law id(2,3), of n now ?s] buf by (simp add: book_get_def stored_def known_as_def)
  from handshake_push [OF assms(4) s1(1)] s1(2) show ?thesis by auto
qed

section \<open>The pool\<close>

lemma pool_add_first:
  "\<exists>p. pool_add obs c inbound (pool_new n) = Some p \<and> by_peer_id r p (conn_peer c) = Some (Some c) \<and>
     (\<not> inbound \<longrightarrow> by_raddr r p (conn_peer_addr c) = Some (Some c))"
  by (simp add: pool_add_def check_limits_def pool_new_def by_peer_id_def by_raddr_def choose_one_def Let_def)

lemma add_first:
  assumes "nd_ready s = [(c, inbound)]" and "nd_pool s = pool_new n"
  shows "\<exists>s'. add_ready obs 0 None s = Some s' \<and> nd_switch s' = nd_switch s \<and> by_peer_id r (nd_pool s') (conn_peer c) = Some (Some c) \<and>
     (\<not> inbound \<longrightarrow> by_raddr r (nd_pool s') (conn_peer_addr c) = Some (Some c))"
  using pool_add_first [of obs c inbound n r] assms by (auto simp: add_ready_def)

section \<open>A new node dials, and a new node accepts\<close>

lemma dial_joins:
  assumes "get_transport_by_address ops raddr = Some t" and "dial t = Some (Inr c)" and "opened c = Some (Inr io)"
    and "conn_peer c = key_peer k key" and "conn_peer_addr c = raddr"
    and "\<And>s. disp_ok (sw_disp s) \<Longrightarrow>
      \<exists>s'. handshake k (so_max_packet_size ops) now (conn_id c) (key_peer k key) (Some (Inr io)) s = Some (Inr (), s') \<and>
        book_get (sw_book s') (key_peer k key) = Inr (Some info)"
  shows "\<exists>s s'. node_do k ops (NDial now dial opened raddr) (node_new m z) = Some s \<and> node_do k ops (NAdd obs 0 None) s = Some s' \<and>
    by_peer_id r (nd_pool s') (key_peer k key) = Some (Some c) \<and> by_raddr r (nd_pool s') raddr = Some (Some c) \<and>
    book_get (sw_book (nd_switch s')) (key_peer k key) = Inr (Some info)"
proof -
  have "disp_ok (sw_disp (nd_switch (node_new m z)))" by (simp add: node_new_def disp_new_ok)
  from assms(6) [OF this] obtain sw where sw:
    "handshake k (so_max_packet_size ops) now (conn_id c) (key_peer k key) (Some (Inr io)) (nd_switch (node_new m z)) = Some (Inr (), sw)"
    "book_get (sw_book sw) (key_peer k key) = Inr (Some info)" by blast
  define s where "s = (node_new m z)\<lparr>nd_switch := sw, nd_ready := [(c, False)]\<rparr>"
  have 1: "node_do k ops (NDial now dial opened raddr) (node_new m z) = Some s"
    using assms(1-4) sw(1) by (simp add: dial_conn_def transport_connect_def s_def) (simp add: node_new_def)
  have "nd_ready s = [(c, False)]" "nd_pool s = pool_new z" "nd_switch s = sw" by (simp_all add: s_def node_new_def)
  with add_first [of s c False z obs r] obtain s' where "add_ready obs 0 None s = Some s'" "nd_switch s' = sw"
    "by_peer_id r (nd_pool s') (conn_peer c) = Some (Some c)" "by_raddr r (nd_pool s') (conn_peer_addr c) = Some (Some c)" by auto
  with 1 sw(2) assms(4,5) show ?thesis by (intro exI [of _ s] exI [of _ s']) simp
qed

lemma accept_joins:
  assumes "conn_peer c = key_peer k key"
    and "\<And>s. disp_ok (sw_disp s) \<Longrightarrow>
      \<exists>s'. handshake k (so_max_packet_size ops) now (conn_id c) (key_peer k key) (Some (Inr io)) s = Some (Inr (), s') \<and>
        book_get (sw_book s') (key_peer k key) = Inr (Some info)"
  shows "\<exists>s s'. node_do k ops (NIncoming now (Some (Inr io)) c) (node_new m z) = Some s \<and> node_do k ops (NAdd obs 0 None) s = Some s' \<and>
    by_peer_id r (nd_pool s') (key_peer k key) = Some (Some c) \<and>
    book_get (sw_book (nd_switch s')) (key_peer k key) = Inr (Some info)"
proof -
  have "disp_ok (sw_disp (nd_switch (node_new m z)))" by (simp add: node_new_def disp_new_ok)
  from assms(2) [OF this] obtain sw where sw:
    "handshake k (so_max_packet_size ops) now (conn_id c) (key_peer k key) (Some (Inr io)) (nd_switch (node_new m z)) = Some (Inr (), sw)"
    "book_get (sw_book sw) (key_peer k key) = Inr (Some info)" by blast
  define s where "s = (node_new m z)\<lparr>nd_switch := sw, nd_ready := [(c, True)]\<rparr>"
  have 1: "node_do k ops (NIncoming now (Some (Inr io)) c) (node_new m z) = Some s"
    using assms(1) sw(1) by (simp add: setup_conn_def s_def) (simp add: node_new_def)
  have "nd_ready s = [(c, True)]" "nd_pool s = pool_new z" "nd_switch s = sw" by (simp_all add: s_def node_new_def)
  with add_first [of s c True z obs r] obtain s' where "add_ready obs 0 None s = Some s'" "nd_switch s' = sw"
    "by_peer_id r (nd_pool s') (conn_peer c) = Some (Some c)" by auto
  with 1 sw(2) assms(1) show ?thesis by (intro exI [of _ s] exI [of _ s']) simp
qed

lemma tcp_connect_honest:
  assumes "verify v t2 (tl_cert cfg_s) = Inr server" and "verify v t3 (tl_cert cfg_s) = Inr server"
    and "create_ssl_config d v sg t1 ks (\<lambda>_. Inr ()) = Inr cfg" and "to_sockaddr raddr = Inr a" and "link a = Inr (honest_net cfg_s, Inr local)"
  shows "fst (tcp_connect d v ks sg (t1, t2, t3) uuid link raddr n) =
    Inr (fst (tls_conn_new uuid server (tcp_multiaddr local) raddr False n))"
  using tls_connect_honest [OF assms(1-4)] assms(4,5) by (simp add: tcp_connect_def act_lift_bind)

lemma listener_accept_honest:
  assumes "verify v u2 (tl_cert cfg_c) = Inr client" and "verify v u3 (tl_cert cfg_c) = Inr client"
    and "create_ssl_config d v sg u1 ks (\<lambda>_. Inr ()) = Inr cfg"
  shows "fst (tls_listener_accept d v ks sg (u1, u2, u3) uuid la relay (Inr (Some (honest_net cfg_c, ra))) n) =
    Inr (fst (tls_conn_new uuid client la ra relay n))"
  using tls_accept_honest [OF assms(1,2)] assms(3) by (simp add: tls_listener_accept_def act_lift_bind honest_net_def [THEN arg_cong, of tn_config])

text \<open>C2: Two nodes that have just started connect. One node dials the TCP address of another, whose listener accepts; both start
  with an empty pool, peer book and dispatcher, and the dial (or the accept) and the one task that adds the connection to the pool
  are the only things that a node does. The certificates of both are at most four
  seconds old, no timer fires, the network carries what they write, and each answers identify within the packet limit of the other. Then each node
  finds this connection in its pool under the peer id of the other's key (the dialer also under the address), and its peer book
  holds the other with the addresses it listens on and the protocols it serves.\<close>

theorem two_nodes_connect:
  assumes "x509_law v" and "keystore_law v ks_c client" and "keystore_law v ks_s server"
    and "create_ssl_config d v sg_c t1 ks_c (\<lambda>_. Inr ()) = Inr cfg_c" and "create_ssl_config d v sg_s u1 ks_s (\<lambda>_. Inr ()) = Inr cfg_s"
    and "u1 \<le> t2 \<and> t2 \<le> u1 + 4 * 10 ^ 9" and "u1 \<le> t3 \<and> t3 \<le> u1 + 4 * 10 ^ 9"
    and "t1 \<le> u2 \<and> u2 \<le> t1 + 4 * 10 ^ 9" and "t1 \<le> u3 \<and> u3 \<le> t1 + 4 * 10 ^ 9"
    and "wire_law w" and "codec_law k0" and "k = generated_identity w k0"
    and "get_transport_by_address ops_c raddr = Some t" and "to_sockaddr raddr = Inr a" and "link a = Inr (honest_net cfg_s, Inr local)"
    and "dial t = Some (case fst (tcp_connect d v ks_c sg_c (t1, t2, t3) id1 link raddr n1) of
                          Inl e \<Rightarrow> Inl (error_of_io e) | Inr c \<Rightarrow> Inr (tls_p2p_conn (key_peer k) c))"
    and "identify_stream w k (so_max_packet_size ops_c) server ps_s nats_s sw_s io_c"
    and "identify_stream w k (so_max_packet_size ops_s) client ps_c nats_c sw_c io_s"
  shows "(\<exists>c s s'. fst (tcp_connect d v ks_c sg_c (t1, t2, t3) id1 link raddr n1) = Inr c \<and> tc_public_key c = server \<and>
        node_do k ops_c (NDial now_c dial (\<lambda>_. Some (Inr io_c)) raddr) (node_new m_c z_c) = Some s \<and>
        node_do k ops_c (NAdd obs_c 0 None) s = Some s' \<and>
        by_peer_id r (nd_pool s') (key_peer k server) = Some (Some (tls_p2p_conn (key_peer k) c)) \<and>
        by_raddr r (nd_pool s') raddr = Some (Some (tls_p2p_conn (key_peer k) c)) \<and>
        book_get (sw_book (nd_switch s')) (key_peer k server) = Inr (Some (known_as k server ps_s nats_s sw_s now_c))) \<and>
    (\<exists>c s s'. fst (tls_listener_accept d v ks_s sg_s (u1, u2, u3) id2 la False (Inr (Some (honest_net cfg_c, ra))) n2) = Inr c \<and>
        tc_public_key c = client \<and>
        node_do k ops_s (NIncoming now_s (Some (Inr io_s)) (tls_p2p_conn (key_peer k) c)) (node_new m_s z_s) = Some s \<and>
        node_do k ops_s (NAdd obs_s 0 None) s = Some s' \<and>
        by_peer_id r (nd_pool s') (key_peer k client) = Some (Some (tls_p2p_conn (key_peer k) c)) \<and>
        book_get (sw_book (nd_switch s')) (key_peer k client) = Inr (Some (known_as k client ps_c nats_c sw_c now_s)))"
proof
  have s: "verify v t2 (tl_cert cfg_s) = Inr server" "verify v t3 (tl_cert cfg_s) = Inr server"
    using config_cert [OF assms(1,3,5)] assms(6,7) by blast+
  have c: "verify v u2 (tl_cert cfg_c) = Inr client" "verify v u3 (tl_cert cfg_c) = Inr client"
    using config_cert [OF assms(1,2,4)] assms(8,9) by blast+
  let ?d = "fst (tls_conn_new id1 server (tcp_multiaddr local) raddr False n1)"
  have dialed: "fst (tcp_connect d v ks_c sg_c (t1, t2, t3) id1 link raddr n1) = Inr ?d"
    by (rule tcp_connect_honest [where link = link, OF s assms(4,14,15)])
  have dial: "dial t = Some (Inr (tls_p2p_conn (key_peer k) ?d))" using assms(16) dialed by simp
  have peer: "conn_peer (tls_p2p_conn (key_peer k) ?d) = key_peer k server" "conn_peer_addr (tls_p2p_conn (key_peer k) ?d) = raddr"
    "tc_public_key ?d = server" by (simp_all add: tls_p2p_conn_def tls_conn_new_def)
  show "\<exists>c s s'. fst (tcp_connect d v ks_c sg_c (t1, t2, t3) id1 link raddr n1) = Inr c \<and> tc_public_key c = server \<and>
        node_do k ops_c (NDial now_c dial (\<lambda>_. Some (Inr io_c)) raddr) (node_new m_c z_c) = Some s \<and>
        node_do k ops_c (NAdd obs_c 0 None) s = Some s' \<and>
        by_peer_id r (nd_pool s') (key_peer k server) = Some (Some (tls_p2p_conn (key_peer k) c)) \<and>
        by_raddr r (nd_pool s') raddr = Some (Some (tls_p2p_conn (key_peer k) c)) \<and>
        book_get (sw_book (nd_switch s')) (key_peer k server) = Inr (Some (known_as k server ps_s nats_s sw_s now_c))"
    using dial_joins [where dial = dial and opened = "\<lambda>_. Some (Inr io_c)" and m = m_c and z = z_c and
      obs = obs_c and r = r and now = now_c, OF assms(13) dial refl peer(1,2) handshake_wire [OF assms(10-12) _ assms(17)]] dialed peer(3) by blast
  let ?a = "fst (tls_conn_new id2 client la ra False n2)"
  have accepted: "fst (tls_listener_accept d v ks_s sg_s (u1, u2, u3) id2 la False (Inr (Some (honest_net cfg_c, ra))) n2) = Inr ?a"
    by (rule listener_accept_honest [OF c assms(5)])
  have peer: "conn_peer (tls_p2p_conn (key_peer k) ?a) = key_peer k client" "tc_public_key ?a = client"
    by (simp_all add: tls_p2p_conn_def tls_conn_new_def)
  from accept_joins [where m = m_s and z = z_s and obs = obs_s and r = r and now = now_s, OF peer(1) handshake_wire [OF assms(10-12) _ assms(18)]] accepted peer(2)
  show "\<exists>c s s'. fst (tls_listener_accept d v ks_s sg_s (u1, u2, u3) id2 la False (Inr (Some (honest_net cfg_c, ra))) n2) = Inr c \<and>
        tc_public_key c = client \<and>
        node_do k ops_s (NIncoming now_s (Some (Inr io_s)) (tls_p2p_conn (key_peer k) c)) (node_new m_s z_s) = Some s \<and>
        node_do k ops_s (NAdd obs_s 0 None) s = Some s' \<and>
        by_peer_id r (nd_pool s') (key_peer k client) = Some (Some (tls_p2p_conn (key_peer k) c)) \<and>
        book_get (sw_book (nd_switch s')) (key_peer k client) = Inr (Some (known_as k client ps_c nats_c sw_c now_s))"
    by blast
qed

text \<open>Both nodes have the same key here; the dialer's transport takes every address.\<close>

definition any_transport :: transport where
  "any_transport = \<lparr>tr_name = ''tcp'', tr_hint = (\<lambda>_. True)\<rparr>"

definition sample_ops :: switch_options where
  "sample_ops = (options_new ''a'')\<lparr>so_max_packet_size := 63, so_transports := [any_transport]\<rparr>"

definition sample_answer :: stream where
  "sample_answer =
     quiet\<lparr>st_in := st_out (snd (identity_response wire_codec (PublicKey 3) ''a'' [] [] True [Ip4 5] empty_switch quiet))\<rparr>"

lemma sample_identify: "identify_stream (std_wire True) wire_codec 63 (PublicKey 3) [] [] empty_switch sample_answer"
proof -
  let ?m = "identity_of wire_codec (PublicKey 3) ''a'' [] [] True [Ip4 5] empty_switch"
  have small: "identity_size (std_wire True) ?m < 2 ^ 31" unfolding wire_codec_size by simp
  obtain buf where buf: "wr_identity wire_codec ?m = Inr buf"
    using generated_identity_writes [OF std_wire_law small, of "one_message_codec identity_new"] by (auto simp: wire_codec_def)
  have room: "st_room quiet = None" by (simp add: quiet_def)
  note out = identity_response_writes [OF buf room]
  have "st_in sample_answer = drop (length (st_out quiet)) (st_out (snd (identity_response wire_codec (PublicKey 3) ''a'' [] [] True [Ip4 5] empty_switch quiet)))"
    by (simp add: sample_answer_def quiet_def)
  then show ?thesis
    unfolding identify_stream_def using room out wire_codec_size by fastforce
qed

theorem two_nodes_connect_witness:
  "\<exists>c s s'. node_do wire_codec sample_ops (NDial 9 (\<lambda>_. Some (Inr (tls_p2p_conn (key_peer wire_codec) c))) (\<lambda>_. Some (Inr sample_answer)) [Ip4 1, Tcp 2])
       (node_new (mutable_new 5) 20) = Some s \<and>
     node_do wire_codec sample_ops (NAdd all_idle 0 None) s = Some s' \<and>
     by_peer_id 7 (nd_pool s') (PeerId 3) = Some (Some (tls_p2p_conn (key_peer wire_codec) c)) \<and> tc_public_key c = PublicKey 3"
proof -
  let ?v = "toy_env toy_generated" and ?ks = "memory_keystore (PublicKey 3) Inr" and ?cfg = "\<lparr>tl_cert = [1], tl_key = [9]\<rparr>"
  let ?link = "\<lambda>a :: sock_addr. Inr (honest_net ?cfg, Inr (V4 9, 9)) :: io_error + tls_net \<times> (io_error + sock_addr)"
  let ?c = "fst (tls_conn_new ''c'' (PublicKey 3) (tcp_multiaddr (V4 9, 9)) [Ip4 1, Tcp 2] False 0)"
  have key: "verify ?v 2 (tl_cert ?cfg) = Inr (PublicKey 3)" "verify ?v 3 (tl_cert ?cfg) = Inr (PublicKey 3)"
    using config_cert [OF toy_env_law toy_keystore toy_config, of 2] config_cert [OF toy_env_law toy_keystore toy_config, of 3] by simp_all
  have a: "to_sockaddr [Ip4 1, Tcp 2] = Inr (V4 1, 2)" by simp
  have peer: "key_peer wire_codec (PublicKey 3) = PeerId 3"
    by (simp add: wire_codec_def generated_identity_def one_message_codec_def)
  have dialed: "fst (tcp_connect (\<lambda>_. []) ?v ?ks 0 (0, 2, 3) ''c'' ?link [Ip4 1, Tcp 2] 0) = Inr ?c"
    by (rule tcp_connect_honest [where link = ?link, OF key toy_config a refl])
  have t: "get_transport_by_address sample_ops [Ip4 1, Tcp 2] = Some any_transport"
    by (simp add: get_transport_by_address_def sample_ops_def any_transport_def)
  have io: "identify_stream (std_wire True) wire_codec (so_max_packet_size sample_ops) (PublicKey 3) [] [] empty_switch sample_answer"
    using sample_identify by (simp add: sample_ops_def)
  show ?thesis
    using conjunct1 [OF two_nodes_connect [where ?t2.0 = 2 and ?t3.0 = 3 and ?u2.0 = 2 and ?u3.0 = 3 and link = ?link and
      dial = "\<lambda>_. Some (Inr (tls_p2p_conn (key_peer wire_codec) ?c))" and d = "\<lambda>_. []" and ?id1.0 = "''c''" and
      ?n1.0 = 0 and now_c = 9 and m_c = "mutable_new 5" and z_c = 20 and obs_c = all_idle and r = 7, OF toy_env_law toy_keystore toy_keystore
      toy_config toy_config _ _ _ _ std_wire_law one_message_codec_law wire_codec_def t a refl _ io io]]
    unfolding dialed peer by auto
qed

end
