(* ===== verification/Reachability.thy ===== *)
theory Reachability
  imports CircuitStop CircuitNode DnsAddr TwoNodes NodeContext
begin

text \<open>
  How others reach a node behind a NAT. The stop server (CircuitStop) makes the relays' answers the NAT addresses of its switch, the
  switch announces them when it identifies itself (SwitchCore, TwoNodes), the peer books of the others hold them (PeerBook), and a
  peer that connects by id hands them to its transports (ConnPool, SwitchRun).
\<close>

section \<open>Where the NAT addresses come from\<close>

text \<open>The reservations that the relays have granted in a run, and what of them a switch may announce.\<close>

definition granted :: "hop_event list \<Rightarrow> reservation set" where
  "granted es = {r. \<exists>i. Reserved i (Inr r) \<in> set es}"

fun waits_on :: "task_wait \<Rightarrow> reservation set" where
  "waits_on (WPingOpen r) = {r}"
| "waits_on (WPing r) = {r}"
| "waits_on (WPingSleep r) = {r}"
| "waits_on _ = {}"

definition from_relays :: "reservation set \<Rightarrow> hop_client \<Rightarrow> bool" where
  "from_relays R s \<longleftrightarrow> (\<forall>t\<in>set (hc_tasks s). waits_on (snd t) \<subseteq> R) \<and>
     ms_nat_addrs (hc_switch s) \<subseteq> (\<Union>r\<in>R. set (circuit_addrs r))"

lemma from_relaysD: "from_relays R s \<Longrightarrow> map_of (hc_tasks s) i = Some w \<Longrightarrow> waits_on w \<subseteq> R"
  unfolding from_relays_def by (fastforce dest: map_of_SomeD)

lemma from_relays_mono: "from_relays R s \<Longrightarrow> R \<subseteq> R' \<Longrightarrow> from_relays R' s"
  unfolding from_relays_def by blast

lemma from_relays_frame [simp]:
  "from_relays R (count_up s) = from_relays R s" "from_relays R (count_down s) = from_relays R s"
  "from_relays R (switch_do (set_nat st) s) = from_relays R s"
  by (simp_all add: from_relays_def count_up_def count_down_def switch_do_def set_nat_def)

lemma from_relays_set: "from_relays R s \<Longrightarrow> waits_on w \<subseteq> R \<Longrightarrow> from_relays R (task_set i w s)"
  by (fastforce simp: from_relays_def task_set_def split: if_splits)

lemma from_relays_fresh: "from_relays R s \<Longrightarrow> from_relays R (refill limit s)" "from_relays R s \<Longrightarrow> from_relays R (client_start limit s)"
  by (auto simp: from_relays_def refill_def client_start_def Let_def)

lemma from_relays_end: "from_relays R s \<Longrightarrow> from_relays R (task_end limit i s)"
  by (auto simp: task_end_def Let_def intro!: from_relays_fresh) (auto simp: from_relays_def)

lemma from_relays_remove: "from_relays R s \<Longrightarrow> from_relays R (switch_do (remove_net_addrs as) s)"
  by (auto simp: from_relays_def switch_do_def remove_net_addrs_def)

lemma from_relays_add: "from_relays R s \<Longrightarrow> r \<in> R \<Longrightarrow> from_relays R (switch_do (set_net_addrs (circuit_addrs r)) s)"
  by (auto simp: from_relays_def switch_do_def set_net_addrs_def)

lemmas from_relays_intros = from_relays_set from_relays_fresh from_relays_end from_relays_remove from_relays_add

lemma from_relays_head: "from_relays R s \<Longrightarrow> r \<in> R \<Longrightarrow> from_relays R (ping_head limit i now r s)"
  by (auto simp: ping_head_def intro!: from_relays_intros)

lemma hop_do_from_relays:
  assumes "from_relays R s" and "hop_do limit e s = Some s'"
  shows "from_relays (R \<union> granted [e]) s'"
proof -
  note m = from_relays_mono [OF _ Un_upper1] from_relays_mono [OF _ subset_insertI]
  note i = from_relays_intros from_relays_head
  note d = from_relaysD [OF assms(1)]
  show ?thesis
  proof (cases e)
    case (Reserved i res)
    with assms obtain p where "map_of (hc_tasks s) i = Some (WReserve p)" by (auto split: option.splits task_wait.splits)
    with assms Reserved show ?thesis
      by (auto simp: granted_def split: sum.splits intro!: i intro: m)
  next
    case (PingOpened i res)
    with assms obtain r where r: "map_of (hc_tasks s) i = Some (WPingOpen r)" by (auto split: option.splits task_wait.splits)
    with assms PingOpened d [OF r] show ?thesis by (auto split: sum.splits intro!: m i)
  next
    case (Pinged i res)
    with assms obtain r where r: "map_of (hc_tasks s) i = Some (WPing r)" by (auto split: option.splits task_wait.splits)
    with assms Pinged d [OF r] show ?thesis by (auto split: sum.splits if_splits intro!: m i)
  next
    case (Woke i now)
    with assms obtain r where r: "map_of (hc_tasks s) i = Some (WPingSleep r)" by (auto split: option.splits task_wait.splits)
    with assms Woke d [OF r] show ?thesis by (auto intro!: m i)
  qed (use assms in \<open>auto split: option.splits task_wait.splits sum.splits list.splits if_splits intro!: m i\<close>)
qed

lemma hop_run_from_relays:
  "from_relays R s \<Longrightarrow> hop_run limit es s = Some s' \<Longrightarrow> from_relays (R \<union> granted es) s'"
proof (induction es arbitrary: R s)
  case Nil
  then show ?case by (auto intro: from_relays_mono)
next
  case (Cons e es)
  then obtain t where t: "hop_do limit e s = Some t" "hop_run limit es t = Some s'" by (auto simp: bind_eq_Some_conv)
  have "granted (e # es) = granted [e] \<union> granted es" by (auto simp: granted_def)
  with Cons.IH [OF hop_do_from_relays [OF Cons.prems(1) t(1)] t(2)] show ?case by (simp add: Un_assoc)
qed

lemma nat_addrs_granted:
  assumes "hop_run limit es (client_new m) = Some s" and "ms_nat_addrs m = {}" and "a \<in> ms_nat_addrs (hc_switch s)"
  obtains r hop where "r \<in> granted es" "hop \<in> set (rs_addrs r)" "a = hop @ [P2pCircuit]"
proof -
  have "from_relays {} (client_new m)" using assms(2) by (simp add: from_relays_def client_new_def)
  from hop_run_from_relays [OF this assms(1)] assms(3) that show thesis
    by (auto simp: from_relays_def circuit_addrs_def)
qed

section \<open>The transports and the addresses\<close>

text \<open>The transports of the repository: their hints are these four.\<close>

definition known_transports :: "(protocol \<Rightarrow> string) \<Rightarrow> switch_options \<Rightarrow> bool" where
  "known_transports tag ops \<longleftrightarrow>
     (\<forall>t\<in>set (so_transports ops). tr_hint t \<in> {is_tcp_transport tag, is_quic_transport tag, dns_hint, circuit_hint})"

definition with_p2p_law :: "(multiaddr \<Rightarrow> peer_id \<Rightarrow> multiaddr option) \<Rightarrow> bool" where
  "with_p2p_law w \<longleftrightarrow> (\<forall>a p. (\<forall>i. a = [] \<or> last a \<noteq> P2p i) \<longrightarrow> w a p = Some (a @ [P2p p]))"

lemma announced_unsupported:
  assumes "tag_law tag" and "known_transports tag ops" and "no_names hop"
  shows "get_transport_by_address ops (hop @ [P2pCircuit]) = None"
proof -
  have "\<not> is_tcp_transport tag (hop @ [P2pCircuit])" "\<not> is_quic_transport tag (hop @ [P2pCircuit])"
    using assms(1) by (simp_all add: tcp_stack_shape quic_stack_shape)
  moreover have "\<not> dns_hint (hop @ [P2pCircuit])" using assms(3) by (auto simp: dns_hint_def is_dnsaddr_iff)
  moreover have "\<not> circuit_hint (hop @ [P2pCircuit])" by (simp add: circuit_hint_iff)
  ultimately show ?thesis using assms(2) by (auto simp: get_transport_by_address_def find_None_iff known_transports_def)
qed

lemma completed_supported:
  assumes "tag_law tag" and "known_transports tag ops" and "no_names hop" and "\<exists>t\<in>set (so_transports ops). tr_hint t = circuit_hint"
  shows "\<exists>t\<in>set (so_transports ops). get_transport_by_address ops (hop @ [P2pCircuit, P2p p]) = Some t \<and> tr_hint t = circuit_hint"
proof -
  let ?a = "hop @ [P2pCircuit, P2p p]"
  have "circuit_hint ?a" by (simp add: circuit_hint_iff)
  with assms(4) have "get_transport_by_address ops ?a \<noteq> None" by (auto simp: get_transport_by_address_def find_None_iff)
  then obtain t where t: "get_transport_by_address ops ?a = Some t" by blast
  then have h: "t \<in> set (so_transports ops)" "tr_hint t ?a" by (auto simp: get_transport_by_address_def find_Some_iff)
  have "\<not> is_tcp_transport tag ?a" "\<not> is_quic_transport tag ?a"
    using assms(1) by (simp_all add: tcp_stack_shape quic_stack_shape)
  moreover have "\<not> dns_hint ?a" using assms(3) by (auto simp: dns_hint_def is_dnsaddr_iff)
  ultimately have "tr_hint t = circuit_hint" using h assms(2) by (auto simp: known_transports_def)
  with t h show ?thesis by blast
qed

section \<open>Reaching the node\<close>

lemma dial_first_unsupported:
  assumes "\<forall>a\<in>set order. dial a = Inl (UnspportMultiAddr a)" and "order \<noteq> []"
  shows "\<exists>a\<in>set order. dial_first dial order e = Inl (Some (UnspportMultiAddr a))"
  using assms(2) dial_first_cases [of order dial e] assms(1) by fastforce

lemma by_peer_none:
  assumes "pool_ok C pool" and "\<forall>cid c. conns pool cid = Some c \<longrightarrow> conn_peer c \<noteq> p"
  shows "by_peer_id r pool p = Some None"
proof -
  from pool_find_law [OF assms(1), of r p] obtain found where f: "by_peer_id r pool p = Some found"
    and k: "case found of Some c \<Rightarrow> holds_conn pool c \<and> conn_peer c = p | None \<Rightarrow> (\<forall>c. holds_conn pool c \<longrightarrow> conn_peer c \<noteq> p)"
    by blast
  have "found = None"
  proof (cases found)
    case (Some c)
    with k have "conns pool (conn_id c) = Some c" "conn_peer c = p" by (simp_all add: holds_conn_def)
    with assms(2) show ?thesis by blast
  qed simp
  with f show ?thesis by simp
qed

text \<open>C13: A node behind a NAT, in two parts. Whoever knows the node only by what it says of itself when it identifies cannot connect to it by its
  peer id: the addresses it announces, those of its relays with \<open>/p2p-circuit\<close> after them, are dialed as they are, and none of the
  transports of the repository takes an address that ends there. The dial fails with \<open>UnspportMultiAddr\<close>, the pool is left as other
  tasks have made it. But \<open>choose_nat_peers\<close> of the same peer book gives each of these addresses with the peer id after it; such an
  address goes to the circuit transport, which finds in it the address of a relay that granted the node a reservation, and the
  node's peer id. The addresses of the relays are assumed to be given by IP.\<close>

theorem nat_node_reached:
  assumes "hop_run limit es (client_new m) = Some s" and "ms_nat_addrs m = {}" and "ms_nat (hc_switch s) = NAT"
    and "sw_mut sw = hc_switch s" and "set nats = ms_nat_addrs (hc_switch s)" and "nats \<noteq> []"
    and "\<forall>r\<in>granted es. \<forall>hop\<in>set (rs_addrs r). no_names hop"
    and "tag_law tag" and "known_transports tag ops" and "\<exists>t\<in>set (so_transports ops). tr_hint t = circuit_hint"
    and "info = known_as k key ps nats sw now" and "sw_book node = snd (book_insert b info)"
    and "with_p2p_law w" and "set order = dom (peer_addrs (sw_book node))"
    and "pool_ok C pool" and "\<forall>cid c. conns pool cid = Some c \<longrightarrow> conn_peer c \<noteq> key_peer k key" and "shuffle_law shuffle"
    and "\<forall>a. \<exists>k now raw op st clos st'. transport_connect k ops now raw op a st = Some (dial a, clos, st')"
  shows "(\<exists>a\<in>ms_nat_addrs (hc_switch s). switch_connect obs dial r shuffle mid (switch_lookup_peer_info node) opened select
       (Inr (ToPeerId (key_peer k key))) protocols pool = Some (Inl (error_of_io (error_to_io (UnspportMultiAddr a))), mid pool)) \<and>
    (\<exists>addrs. book_choose_nat_peers w order (sw_book node) 0 = Inr addrs \<and>
      (\<forall>a\<in>ms_nat_addrs (hc_switch s). \<exists>hop t. a @ [P2p (key_peer k key)] \<in> set addrs \<and>
         (\<exists>r\<in>granted es. hop \<in> set (rs_addrs r)) \<and> circuit_target (a @ [P2p (key_peer k key)]) = Inr (hop, key_peer k key) \<and>
         get_transport_by_address ops (a @ [P2p (key_peer k key)]) = Some t \<and> tr_hint t = circuit_hint))"
proof -
  let ?p = "key_peer k key" and ?N = "ms_nat_addrs (hc_switch s)"
  have info: "pi_addrs info = nats" "pi_id info = ?p"
    using assms(3,4) by (simp_all add: assms(11) known_as_def listen_addrs_def)
  have shape: "\<exists>hop. a = hop @ [P2pCircuit] \<and> (\<exists>r\<in>granted es. hop \<in> set (rs_addrs r)) \<and> no_names hop" if "a \<in> ?N" for a
    using nat_addrs_granted [OF assms(1,2) that] assms(7) by metis
  have unsupported: "dial a = Inl (UnspportMultiAddr a)" if "a \<in> ?N" for a
  proof -
    from shape [OF that] obtain hop where "a = hop @ [P2pCircuit]" "no_names hop" by blast
    with announced_unsupported [OF assms(8,9)] have "get_transport_by_address ops a = None" by simp
    moreover from assms(18) obtain k now raw op st clos st' where
      "transport_connect k ops now raw op a st = Some (dial a, clos, st')" by blast
    ultimately show ?thesis by (simp add: transport_connect_def)
  qed
  have set: "set (shuffle nats) = ?N" using shuffle_set [OF assms(17), of nats] assms(5) by simp
  with assms(5,6) have "shuffle nats \<noteq> []" by (metis set_empty)
  with dial_first_unsupported [of "shuffle nats" dial None] unsupported set obtain a where
    a: "a \<in> ?N" "dial_first dial (shuffle nats) None = Inl (Some (UnspportMultiAddr a))" by blast
  have found: "book_get (sw_book node) ?p = Inr (Some (stored info))" by (simp add: assms(12) book_get_def info)
  have "pool_connect_to obs dial r shuffle mid (switch_lookup_peer_info node) ?p pool =
      Some (Inl (error_to_io (UnspportMultiAddr a)), mid pool)"
    using a(2) assms(6) by (simp add: pool_connect_to_def by_peer_none [OF assms(15,16)] found info connect_raddrs_def switch_lookup_peer_info_def)
  then have first: "switch_connect obs dial r shuffle mid (switch_lookup_peer_info node) opened select
       (Inr (ToPeerId ?p)) protocols pool = Some (Inl (error_of_io (error_to_io (UnspportMultiAddr a))), mid pool)"
    by (simp add: switch_connect_def)
  have chosen: "book_choose_nat_peers w order (sw_book node) 0 = Inr (List.map_filter (relayed w (peer_addrs (sw_book node))) order)"
    by (simp add: book_choose_nat_peers_def nat_peers_loop_eq)
  have second: "\<exists>hop t. a @ [P2p ?p] \<in> set (List.map_filter (relayed w (peer_addrs (sw_book node))) order) \<and>
         (\<exists>r\<in>granted es. hop \<in> set (rs_addrs r)) \<and> circuit_target (a @ [P2p ?p]) = Inr (hop, ?p) \<and>
         get_transport_by_address ops (a @ [P2p ?p]) = Some t \<and> tr_hint t = circuit_hint" if "a \<in> ?N" for a
  proof -
    from shape [OF that] obtain hop where hop: "a = hop @ [P2pCircuit]" "\<exists>r\<in>granted es. hop \<in> set (rs_addrs r)" "no_names hop" by blast
    have m: "peer_addrs (sw_book node) a = Some ?p" using that assms(5) by (simp add: assms(12) book_insert_addrs info)
    moreover have "w a ?p = Some (a @ [P2p ?p])" using assms(13) hop(1) by (simp add: with_p2p_law_def)
    ultimately have "relayed w (peer_addrs (sw_book node)) a = Some (a @ [P2p ?p])" using hop(1) by (simp add: relayed_def suffix_def)
    moreover from m assms(14) have "a \<in> set order" by blast
    ultimately have "a @ [P2p ?p] \<in> set (List.map_filter (relayed w (peer_addrs (sw_book node))) order)"
      by (force simp: List.map_filter_def)
    moreover have "circuit_target (a @ [P2p ?p]) = Inr (hop, ?p)" by (simp add: circuit_target_iff hop(1))
    moreover from completed_supported [OF assms(8,9) hop(3) assms(10)] hop(1) obtain t where
      "get_transport_by_address ops (a @ [P2p ?p]) = Some t" "tr_hint t = circuit_hint" by auto
    ultimately show ?thesis using hop(2) by blast
  qed
  from first a(1) chosen second show ?thesis by blast
qed

definition all_transports :: switch_options where
  "all_transports = (options_new ''agent'')\<lparr>so_transports :=
     [\<lparr>tr_name = ''quic'', tr_hint = is_quic_transport std_tag\<rparr>, \<lparr>tr_name = ''tcp'', tr_hint = is_tcp_transport std_tag\<rparr>,
      \<lparr>tr_name = ''dnsaddr'', tr_hint = dns_hint\<rparr>, \<lparr>tr_name = ''circuit'', tr_hint = circuit_hint\<rparr>]\<rparr>"

text \<open>A node that is behind a NAT and holds a reservation, and a network in which no dial is answered.\<close>

definition behind_nat :: mutable_switch where
  "behind_nat = \<lparr>max_observed_addrs_len = 5, ms_laddrs = [], ms_observed = [], ms_nat_addrs = {[Ip4 1, Tcp 2, P2pCircuit]}, ms_nat = NAT\<rparr>"

definition no_answer :: "multiaddr \<Rightarrow> xs_error + p2p_conn" where
  "no_answer a = (if get_transport_by_address all_transports a = None then Inl (UnspportMultiAddr a) else Inl Timeout)"

lemma behind_nat_run:
  "\<exists>s. hop_run 1 (take 6 expiry_run) (client_new (mutable_new 5)) = Some s \<and> hc_switch s = behind_nat"
  by (simp add: expiry_run_def hop_steps upt_rec behind_nat_def)

lemma no_answer_dials:
  "\<exists>k now raw op st clos st'. transport_connect k all_transports now raw op a st = Some (no_answer a, clos, st')"
  by (intro exI [of _ undefined] exI [of _ "\<lambda>_. None"] exI [of _ None])
    (simp add: transport_connect_def no_answer_def split: option.split)

theorem nat_node_reached_witness:
  "\<exists>info pool'. pi_addrs info = [[Ip4 1, Tcp 2, P2pCircuit]] \<and>
     switch_connect all_idle no_answer 0 (\<lambda>xs. xs) (\<lambda>s. s) (switch_lookup_peer_info (empty_switch\<lparr>sw_book := snd (book_insert book_empty info)\<rparr>))
       (\<lambda>_. Inr ()) (\<lambda>_ _. Inr ''/kad'') (Inr (ToPeerId (PeerId 3))) [''/kad''] (pool_new 20) =
     Some (Inl (error_of_io (error_to_io (UnspportMultiAddr [Ip4 1, Tcp 2, P2pCircuit]))), pool')"
proof -
  from behind_nat_run obtain s where s: "hop_run 1 (take 6 expiry_run) (client_new (mutable_new 5)) = Some s" "hc_switch s = behind_nat"
    by blast
  let ?k = "one_message_codec sample_identity" and ?sw = "empty_switch\<lparr>sw_mut := behind_nat\<rparr>"
    and ?nats = "[[Ip4 1, Tcp 2, P2pCircuit]]"
  let ?info = "known_as ?k (PublicKey 3) [] ?nats ?sw 9"
  let ?node = "empty_switch\<lparr>sw_book := snd (book_insert book_empty ?info)\<rparr>"
  have p: "key_peer ?k (PublicKey 3) = PeerId 3" by (simp add: one_message_codec_def)
  have nat: "ms_nat_addrs behind_nat = set ?nats" "ms_nat behind_nat = NAT" by (simp_all add: behind_nat_def)
  have info: "pi_addrs ?info = ?nats" by (simp add: known_as_def listen_addrs_def nat)
  have granted: "granted (take 6 expiry_run) = {short_reservation}" by (auto simp: granted_def expiry_run_def)
  have known: "known_transports std_tag all_transports" "\<exists>t\<in>set (so_transports all_transports). tr_hint t = circuit_hint"
    by (simp_all add: known_transports_def all_transports_def)
  have dom: "set ?nats = dom (peer_addrs (sw_book ?node))"
    by (auto simp: book_insert_addrs info book_empty_def split: if_splits)
  have "\<exists>a\<in>ms_nat_addrs (hc_switch s). switch_connect all_idle no_answer 0 (\<lambda>xs. xs) (\<lambda>s. s)
      (switch_lookup_peer_info ?node) (\<lambda>_. Inr ()) (\<lambda>_ _. Inr ''/kad'')
      (Inr (ToPeerId (key_peer ?k (PublicKey 3)))) [''/kad''] (pool_new 20) =
      Some (Inl (error_of_io (error_to_io (UnspportMultiAddr a))), pool_new 20)"
    by (rule conjunct1 [OF nat_node_reached [OF s(1), where sw = ?sw and nats = ?nats and tag = std_tag and ops = all_transports
        and k = ?k and key = "PublicKey 3" and ps = "[]" and now = 9 and info = ?info and b = book_empty and node = ?node
        and w = "\<lambda>a p. Some (a @ [P2p p])" and order = ?nats and C = "{}"]])
      (simp_all only: s(2) nat granted known refl pool_new_ok inj_on_empty dom no_answer_dials tag_law_std,
       simp_all add: mutable_new_def short_reservation_def with_p2p_law_def pool_new_def shuffle_law_def)
  with s(2) nat(1) p info show ?thesis by auto
qed

end
