(* ===== verification/KadProto.thy ===== *)
theory KadProto
  imports KadNode Protobuf
begin

text \<open>
  \<open>kad/src/proto/rpc.rs\<close>: the generated messages of Kademlia, in the order of the source, and the codec of the remote
  calls that they make. A field of proto3 is written unless it has its default value.
\<close>

section \<open>Enums\<close>

definition message_type_value :: "message_type \<Rightarrow> 32 word" where
  "message_type_value t =
     (case t of PUT_VALUE \<Rightarrow> 0 | GET_VALUE \<Rightarrow> 1 | ADD_PROVIDER \<Rightarrow> 2 | GET_PROVIDERS \<Rightarrow> 3 | FIND_NODE \<Rightarrow> 4 | PING \<Rightarrow> 5
      | OtherMessage v \<Rightarrow> v)"

definition message_type_of :: "32 word \<Rightarrow> message_type" where
  "message_type_of v =
     (if v = 0 then PUT_VALUE
      else if v = 1 then GET_VALUE
      else if v = 2 then ADD_PROVIDER
      else if v = 3 then GET_PROVIDERS
      else if v = 4 then FIND_NODE
      else if v = 5 then PING else OtherMessage v)"

definition connection_value :: "connection_type \<Rightarrow> 32 word" where
  "connection_value t =
     (case t of NOT_CONNECTED \<Rightarrow> 0 | CONNECTED \<Rightarrow> 1 | CAN_CONNECT \<Rightarrow> 2 | CANNOT_CONNECT \<Rightarrow> 3
      | OtherConnection v \<Rightarrow> v)"

definition connection_type_of :: "32 word \<Rightarrow> connection_type" where
  "connection_type_of v =
     (if v = 0 then NOT_CONNECTED
      else if v = 1 then CONNECTED
      else if v = 2 then CAN_CONNECT
      else if v = 3 then CANNOT_CONNECT else OtherConnection v)"

lemma kad_enum_numbers [simp]:
  "message_type_value (message_type_of v) = v" "connection_value (connection_type_of v) = v"
  by (simp_all add: message_type_value_def message_type_of_def connection_value_def connection_type_of_def)

lemma kad_enum_names:
  "message_type_of (message_type_value t0) = t0 \<longleftrightarrow> (\<forall>v. t0 = OtherMessage v \<longrightarrow> v \<notin> {0, 1, 2, 3, 4, 5})"
  "connection_type_of (connection_value t1) = t1 \<longleftrightarrow> (\<forall>v. t1 = OtherConnection v \<longrightarrow> v \<notin> {0, 1, 2, 3})"
  subgoal by (cases t0) (simp_all add: message_type_value_def message_type_of_def)
  subgoal by (cases t1) (simp_all add: connection_value_def connection_type_of_def)
  done

section \<open>\<open>Record\<close>\<close>

definition record_new :: kad_record where
  "record_new = \<lparr>kr_key = [], kr_value = [], kr_time = []\<rparr>"

definition record_merge :: "wire \<Rightarrow> nat \<Rightarrow> kad_record \<Rightarrow> bytes \<Rightarrow> string + kad_record \<times> bytes" where
  "record_merge w tag m =
     (if tag = 10 then store_field (wi_bytes w) (\<lambda>v. m\<lparr>kr_key := v\<rparr>)
      else if tag = 18 then store_field (wi_bytes w) (\<lambda>v. m\<lparr>kr_value := v\<rparr>)
      else if tag = 42 then store_field (wi_string w) (\<lambda>v. m\<lparr>kr_time := v\<rparr>)
      else skip_field w tag m)"

definition record_size :: "wire \<Rightarrow> kad_record \<Rightarrow> nat" where
  "record_size w m =
     unless_size [] (ws_bytes w 1) (kr_key m) +
     unless_size [] (ws_bytes w 2) (kr_value m) +
     unless_size [] (ws_string w 5) (kr_time m)"

definition record_write :: "wire \<Rightarrow> kad_record \<Rightarrow> bytes" where
  "record_write w m =
     concat [unless_write [] (wo_bytes w 1) (kr_key m),
       unless_write [] (wo_bytes w 2) (kr_value m),
       unless_write [] (wo_string w 5) (kr_time m)]"

lemma record_codec:
  assumes "wire_law w"
  shows "reads w (record_merge w) (record_write w m) record_new m" "length (record_write w m) = record_size w m"
proof -
  note field = proto_simps assms(1) record_new_def record_merge_def
  show "reads w (record_merge w) (record_write w m) record_new m"
    unfolding record_write_def concat.simps
    by (rule reads_default [where tag = 10 and rd = "wi_bytes w"
        and put = "\<lambda>x. \<lparr>kr_key = x, kr_value = [], kr_time = []\<rparr>"],
      simp_all add: field del: append_Nil2,
      rule reads_default [where tag = 18 and rd = "wi_bytes w"
        and put = "\<lambda>x. \<lparr>kr_key = kr_key m, kr_value = x, kr_time = []\<rparr>"],
      simp_all add: field del: append_Nil2,
      rule reads_default [where tag = 42 and rd = "wi_string w"
        and put = "\<lambda>x. \<lparr>kr_key = kr_key m, kr_value = kr_value m, kr_time = x\<rparr>"],
      simp_all add: field del: append_Nil2, rule reads_end [OF assms(1)], cases m, simp)
  show "length (record_write w m) = record_size w m" by (simp add: record_write_def record_size_def field cong: map_cong)
qed

lemma record_takes: "wire_law w \<Longrightarrow> takes (record_merge w)"
  by (simp add: record_merge_def takes_simps)

section \<open>\<open>message::Peer\<close>\<close>

definition kad_peer_new :: kad_peer where
  "kad_peer_new = \<lparr>kp_id = [], kp_addrs = [], kp_connection = NOT_CONNECTED\<rparr>"

definition kad_peer_merge :: "wire \<Rightarrow> nat \<Rightarrow> kad_peer \<Rightarrow> bytes \<Rightarrow> string + kad_peer \<times> bytes" where
  "kad_peer_merge w tag m =
     (if tag = 10 then store_field (wi_bytes w) (\<lambda>v. m\<lparr>kp_id := v\<rparr>)
      else if tag = 18 then store_field (wi_bytes w) (\<lambda>v. m\<lparr>kp_addrs := kp_addrs m @ [v]\<rparr>)
      else if tag = 24 then store_field (read_enum w connection_type_of) (\<lambda>v. m\<lparr>kp_connection := v\<rparr>)
      else skip_field w tag m)"

definition kad_peer_size :: "wire \<Rightarrow> kad_peer \<Rightarrow> nat" where
  "kad_peer_size w m =
     unless_size [] (ws_bytes w 1) (kp_id m) +
     sum_list (map (ws_bytes w 2) (kp_addrs m)) +
     unless_size NOT_CONNECTED (\<lambda>v. ws_int32 w 3 (connection_value v)) (kp_connection m)"

definition kad_peer_write :: "wire \<Rightarrow> kad_peer \<Rightarrow> bytes" where
  "kad_peer_write w m =
     concat [unless_write [] (wo_bytes w 1) (kp_id m),
       concat (map (wo_bytes w 2) (kp_addrs m)),
       unless_write NOT_CONNECTED (\<lambda>v. wo_enum w 3 (connection_value v)) (kp_connection m)]"

definition kad_peer_typed :: "kad_peer \<Rightarrow> bool" where
  "kad_peer_typed m \<longleftrightarrow> connection_type_of (connection_value (kp_connection m)) = kp_connection m"

lemma kad_peer_codec:
  assumes "wire_law w" and "kad_peer_typed m"
  shows "reads w (kad_peer_merge w) (kad_peer_write w m) kad_peer_new m" "length (kad_peer_write w m) = kad_peer_size w m"
proof -
  have num1: "connection_type_of (connection_value (kp_connection m)) = kp_connection m" using assms(2) by (simp add: kad_peer_typed_def)
  note field = proto_simps assms(1) kad_peer_new_def kad_peer_merge_def num1
  show "reads w (kad_peer_merge w) (kad_peer_write w m) kad_peer_new m"
    unfolding kad_peer_write_def concat.simps
    by (rule reads_default [where tag = 10 and rd = "wi_bytes w"
        and put = "\<lambda>x. \<lparr>kp_id = x, kp_addrs = [], kp_connection = NOT_CONNECTED\<rparr>"],
      simp_all add: field del: append_Nil2,
      rule reads_list [where tag = 18 and rd = "wi_bytes w"
        and put = "\<lambda>x. \<lparr>kp_id = kp_id m, kp_addrs = x, kp_connection = NOT_CONNECTED\<rparr>"],
      simp_all add: field del: append_Nil2,
      rule reads_default [where tag = 24 and rd = "read_enum w connection_type_of"
        and put = "\<lambda>x. \<lparr>kp_id = kp_id m, kp_addrs = kp_addrs m, kp_connection = x\<rparr>"],
      simp_all add: field del: append_Nil2, rule reads_end [OF assms(1)], cases m, simp)
  show "length (kad_peer_write w m) = kad_peer_size w m" by (simp add: kad_peer_write_def kad_peer_size_def field cong: map_cong)
qed

lemma kad_peer_takes: "wire_law w \<Longrightarrow> takes (kad_peer_merge w)"
  by (simp add: kad_peer_merge_def takes_simps)

section \<open>\<open>Message\<close>\<close>

definition kad_new :: kad_message where
  "kad_new = \<lparr>km_type = PUT_VALUE, km_cluster_level = 0, km_key = [], km_record = None, km_closer = [], km_provider = []\<rparr>"

definition kad_merge :: "wire \<Rightarrow> nat \<Rightarrow> kad_message \<Rightarrow> bytes \<Rightarrow> string + kad_message \<times> bytes" where
  "kad_merge w tag m =
     (if tag = 8 then store_field (read_enum w message_type_of) (\<lambda>v. m\<lparr>km_type := v\<rparr>)
      else if tag = 80 then store_field (wi_int32 w) (\<lambda>v. m\<lparr>km_cluster_level := v\<rparr>)
      else if tag = 18 then store_field (wi_bytes w) (\<lambda>v. m\<lparr>km_key := v\<rparr>)
      else if tag = 26 then store_field (message_field w (record_merge w) record_new (km_record m)) (\<lambda>v. m\<lparr>km_record := Some v\<rparr>)
      else if tag = 66 then store_field (read_message w (kad_peer_merge w) kad_peer_new) (\<lambda>v. m\<lparr>km_closer := km_closer m @ [v]\<rparr>)
      else if tag = 74 then store_field (read_message w (kad_peer_merge w) kad_peer_new) (\<lambda>v. m\<lparr>km_provider := km_provider m @ [v]\<rparr>)
      else skip_field w tag m)"

definition kad_size :: "wire \<Rightarrow> kad_message \<Rightarrow> nat" where
  "kad_size w m =
     unless_size PUT_VALUE (\<lambda>v. ws_int32 w 1 (message_type_value v)) (km_type m) +
     unless_size 0 (ws_int32 w 10) (km_cluster_level m) +
     unless_size [] (ws_bytes w 2) (km_key m) +
     opt_size (\<lambda>v. message_size w (record_size w v)) (km_record m) +
     sum_list (map (\<lambda>v. message_size w (kad_peer_size w v)) (km_closer m)) +
     sum_list (map (\<lambda>v. message_size w (kad_peer_size w v)) (km_provider m))"

definition kad_write :: "wire \<Rightarrow> kad_message \<Rightarrow> bytes" where
  "kad_write w m =
     concat [unless_write PUT_VALUE (\<lambda>v. wo_enum w 1 (message_type_value v)) (km_type m),
       unless_write 0 (wo_int32 w 10) (km_cluster_level m),
       unless_write [] (wo_bytes w 2) (km_key m),
       opt_write (\<lambda>v. write_message w 3 (record_size w v) (record_write w v)) (km_record m),
       concat (map (\<lambda>v. write_message w 8 (kad_peer_size w v) (kad_peer_write w v)) (km_closer m)),
       concat (map (\<lambda>v. write_message w 9 (kad_peer_size w v) (kad_peer_write w v)) (km_provider m))]"

definition kad_typed :: "kad_message \<Rightarrow> bool" where
  "kad_typed m \<longleftrightarrow> message_type_of (message_type_value (km_type m)) = km_type m \<and> list_all kad_peer_typed (km_closer m) \<and> list_all kad_peer_typed (km_provider m)"

lemma kad_codec:
  assumes "wire_law w" and "kad_typed m" and "kad_size w m < 2 ^ 32"
  shows "reads w (kad_merge w) (kad_write w m) kad_new m" "length (kad_write w m) = kad_size w m"
proof -
  have sub1: "reads w (record_merge w) (record_write w v) record_new v" "length (record_write w v) = record_size w v" "record_size w v < 4294967296"
    if "km_record m = Some v" for v
  proof -
    show size: "record_size w v < 4294967296" using that assms(3) by (simp add: kad_size_def message_size_def)
    show "reads w (record_merge w) (record_write w v) record_new v" "length (record_write w v) = record_size w v"
      using record_codec [OF assms(1)] by simp_all
  qed
  have sub2: "reads w (kad_peer_merge w) (kad_peer_write w v) kad_peer_new v" "length (kad_peer_write w v) = kad_peer_size w v" "kad_peer_size w v < 4294967296"
    if "v \<in> set (km_closer m)" for v
  proof -
    have "message_size w (kad_peer_size w v) \<le> kad_size w m"
      using list_size_ge [OF that, of "\<lambda>v. message_size w (kad_peer_size w v)"] by (simp add: kad_size_def)
    then show size: "kad_peer_size w v < 4294967296" using assms(3) message_size_ge [of "kad_peer_size w v" w] by simp
    have "kad_peer_typed v" using that assms(2) by (auto simp: kad_typed_def list_all_iff)
    then show "reads w (kad_peer_merge w) (kad_peer_write w v) kad_peer_new v" "length (kad_peer_write w v) = kad_peer_size w v"
      using kad_peer_codec [OF assms(1)] by simp_all
  qed
  have sub3: "reads w (kad_peer_merge w) (kad_peer_write w v) kad_peer_new v" "length (kad_peer_write w v) = kad_peer_size w v" "kad_peer_size w v < 4294967296"
    if "v \<in> set (km_provider m)" for v
  proof -
    have "message_size w (kad_peer_size w v) \<le> kad_size w m"
      using list_size_ge [OF that, of "\<lambda>v. message_size w (kad_peer_size w v)"] by (simp add: kad_size_def)
    then show size: "kad_peer_size w v < 4294967296" using assms(3) message_size_ge [of "kad_peer_size w v" w] by simp
    have "kad_peer_typed v" using that assms(2) by (auto simp: kad_typed_def list_all_iff)
    then show "reads w (kad_peer_merge w) (kad_peer_write w v) kad_peer_new v" "length (kad_peer_write w v) = kad_peer_size w v"
      using kad_peer_codec [OF assms(1)] by simp_all
  qed
  have num1: "message_type_of (message_type_value (km_type m)) = km_type m" using assms(2) by (simp add: kad_typed_def)
  note field = proto_simps assms(1) kad_new_def kad_merge_def sub1 sub2 sub3 num1
  show "reads w (kad_merge w) (kad_write w m) kad_new m"
    unfolding kad_write_def concat.simps
    by (rule reads_default [where tag = 8 and rd = "read_enum w message_type_of"
        and put = "\<lambda>x. \<lparr>km_type = x, km_cluster_level = 0, km_key = [], km_record = None, km_closer = [], km_provider = []\<rparr>"],
      simp_all add: field del: append_Nil2,
      rule reads_default [where tag = 80 and rd = "wi_int32 w"
        and put = "\<lambda>x. \<lparr>km_type = km_type m, km_cluster_level = x, km_key = [], km_record = None, km_closer = [], km_provider = []\<rparr>"],
      simp_all add: field del: append_Nil2,
      rule reads_default [where tag = 18 and rd = "wi_bytes w"
        and put = "\<lambda>x. \<lparr>km_type = km_type m, km_cluster_level = km_cluster_level m, km_key = x, km_record = None, km_closer = [], km_provider = []\<rparr>"],
      simp_all add: field del: append_Nil2,
      rule reads_opt [where tag = 26 and rd = "read_message w (record_merge w) record_new"
        and put = "\<lambda>x. \<lparr>km_type = km_type m, km_cluster_level = km_cluster_level m, km_key = km_key m, km_record = x, km_closer = [], km_provider = []\<rparr>"],
      simp_all add: field del: append_Nil2,
      rule reads_list [where tag = 66 and rd = "read_message w (kad_peer_merge w) kad_peer_new"
        and put = "\<lambda>x. \<lparr>km_type = km_type m, km_cluster_level = km_cluster_level m, km_key = km_key m, km_record = km_record m, km_closer = x, km_provider = []\<rparr>"],
      simp_all add: field del: append_Nil2,
      rule reads_list [where tag = 74 and rd = "read_message w (kad_peer_merge w) kad_peer_new"
        and put = "\<lambda>x. \<lparr>km_type = km_type m, km_cluster_level = km_cluster_level m, km_key = km_key m, km_record = km_record m, km_closer = km_closer m, km_provider = x\<rparr>"],
      simp_all add: field del: append_Nil2, rule reads_end [OF assms(1)], cases m, simp)
  show "length (kad_write w m) = kad_size w m"
    by (cases "km_record m") (simp_all add: kad_write_def kad_size_def field cong: map_cong)
qed

lemma kad_takes: "wire_law w \<Longrightarrow> takes (kad_merge w)"
  by (simp add: kad_merge_def takes_simps)

section \<open>The codec of the calls\<close>

definition generated_kad :: "wire \<Rightarrow> kad_codec \<Rightarrow> kad_codec" where
  "generated_kad w k = k\<lparr>
     kc_wr := write_to_bytes w kad_typed (\<lambda>_. True) (kad_size w) (kad_write w),
     kc_parse := parse_from_bytes w (kad_merge w) (\<lambda>_. True) kad_new\<rparr>"

text \<open>C17: The messages of Kademlia. Every message below 2 GiB is written, in exactly the number of bytes that was computed for it, and is
  read back as itself: fields that were left out because they have their default value, records, and all peers in their order. So the
  codec that the file makes keeps the law that the remote calls rely on.\<close>

theorem kad_messages:
  assumes "wire_law w" and "kad_codec_law k"
  shows "kad_codec_law (generated_kad w k) \<and>
    (\<forall>m. kad_typed m \<longrightarrow> kad_size w m < 2 ^ 31 \<longrightarrow>
       (\<exists>buf. kc_wr (generated_kad w k) m = Inr buf \<and> length buf = kad_size w m \<and> kc_parse (generated_kad w k) buf = Inr m))"
proof
  note c = kad_codec [OF assms(1)]
  show "kad_codec_law (generated_kad w k)"
    using assms(2) message_law_generated [OF assms(1), of kad_typed "kad_size w" "kad_merge w" "kad_write w"] c
    by (simp add: kad_codec_law_def generated_kad_def)
  show "\<forall>m. kad_typed m \<longrightarrow> kad_size w m < 2 ^ 31 \<longrightarrow>
       (\<exists>buf. kc_wr (generated_kad w k) m = Inr buf \<and> length buf = kad_size w m \<and> kc_parse (generated_kad w k) buf = Inr m)"
    using codec_roundtrip [OF assms(1), where typed = kad_typed and initialized = "\<lambda>_. True"
        and compute_size = "kad_size w" and wr = "kad_write w" and f = "kad_merge w" and new = kad_new] c
    by (simp add: generated_kad_def)
qed

definition small_reply :: kad_message where
  "small_reply = (message_new FIND_NODE [7])\<lparr>km_record := Some \<lparr>kr_key = [7], kr_value = [], kr_time = ''t''\<rparr>,
     km_closer := [\<lparr>kp_id = [1], kp_addrs = [[2, 3]], kp_connection = CAN_CONNECT\<rparr>, kad_peer_new]\<rparr>"

lemma small_reply_size: "kad_typed small_reply" "kad_size (std_wire g) small_reply = 26"
  by (simp_all add: small_reply_def kad_peer_new_def message_new_def kad_typed_def kad_peer_typed_def message_type_of_def connection_type_of_def kad_size_def
      record_size_def kad_peer_size_def unless_size_def message_size_def std_int32_def std_text_def std_bytes_def std_head_def leb.simps
      message_type_value_def connection_value_def)

theorem kad_messages_witness:
  "\<exists>buf. kc_wr (generated_kad (std_wire True) (list_codec [])) small_reply = Inr buf \<and> length buf = 26 \<and>
     kc_parse (generated_kad (std_wire True) (list_codec [])) buf = Inr small_reply"
  using kad_messages [OF std_wire_law list_codec_law, of True "[]"] small_reply_size(1) small_reply_size(2) [of True] by force

end
