(* ===== verification/AutonatProto.thy ===== *)
theory AutonatProto
  imports Autonat Protobuf
begin

text \<open>
  \<open>autonat/src/proto/autonat.rs\<close>: the generated messages of AutoNAT, in the order of the source, and the codec of
  \<open>autonat_request\<close> that they make. (\<open>xstack/src/proto/autonat.rs\<close> is a copy of the file that nothing uses.)
\<close>

section \<open>Enums\<close>

definition autonat_type_value :: "autonat_type \<Rightarrow> 32 word" where
  "autonat_type_value t =
     (case t of DIAL \<Rightarrow> 0 | DIAL_RESPONSE \<Rightarrow> 1
      | OtherType v \<Rightarrow> v)"

definition autonat_type_of :: "32 word \<Rightarrow> autonat_type" where
  "autonat_type_of v =
     (if v = 0 then DIAL
      else if v = 1 then DIAL_RESPONSE else OtherType v)"

definition dial_status_value :: "dial_status \<Rightarrow> 32 word" where
  "dial_status_value t =
     (case t of StatusOK \<Rightarrow> 0 | E_DIAL_ERROR \<Rightarrow> 100 | E_DIAL_REFUSED \<Rightarrow> 101 | E_BAD_REQUEST \<Rightarrow> 200 | E_INTERNAL_ERROR \<Rightarrow> 300
      | OtherStatus v \<Rightarrow> v)"

definition dial_status_of :: "32 word \<Rightarrow> dial_status" where
  "dial_status_of v =
     (if v = 0 then StatusOK
      else if v = 100 then E_DIAL_ERROR
      else if v = 101 then E_DIAL_REFUSED
      else if v = 200 then E_BAD_REQUEST
      else if v = 300 then E_INTERNAL_ERROR else OtherStatus v)"

lemma autonat_enum_numbers [simp]:
  "autonat_type_value (autonat_type_of v) = v" "dial_status_value (dial_status_of v) = v"
  by (simp_all add: autonat_type_value_def autonat_type_of_def dial_status_value_def dial_status_of_def)

lemma autonat_enum_names:
  "autonat_type_of (autonat_type_value t0) = t0 \<longleftrightarrow> (\<forall>v. t0 = OtherType v \<longrightarrow> v \<notin> {0, 1})"
  "dial_status_of (dial_status_value t1) = t1 \<longleftrightarrow> (\<forall>v. t1 = OtherStatus v \<longrightarrow> v \<notin> {0, 100, 101, 200, 300})"
  subgoal by (cases t0) (simp_all add: autonat_type_value_def autonat_type_of_def)
  subgoal by (cases t1) (simp_all add: dial_status_value_def dial_status_of_def)
  done

section \<open>\<open>PeerInfo\<close>\<close>

definition autonat_peer_new :: autonat_peer where
  "autonat_peer_new = \<lparr>ap_id = None, ap_addrs = []\<rparr>"

definition autonat_peer_merge :: "wire \<Rightarrow> nat \<Rightarrow> autonat_peer \<Rightarrow> bytes \<Rightarrow> string + autonat_peer \<times> bytes" where
  "autonat_peer_merge w tag m =
     (if tag = 10 then store_field (wi_bytes w) (\<lambda>v. m\<lparr>ap_id := Some v\<rparr>)
      else if tag = 18 then store_field (wi_bytes w) (\<lambda>v. m\<lparr>ap_addrs := ap_addrs m @ [v]\<rparr>)
      else skip_field w tag m)"

definition autonat_peer_size :: "wire \<Rightarrow> autonat_peer \<Rightarrow> nat" where
  "autonat_peer_size w m =
     opt_size (ws_bytes w 1) (ap_id m) +
     sum_list (map (ws_bytes w 2) (ap_addrs m))"

definition autonat_peer_write :: "wire \<Rightarrow> autonat_peer \<Rightarrow> bytes" where
  "autonat_peer_write w m =
     concat [opt_write (wo_bytes w 1) (ap_id m),
       concat (map (wo_bytes w 2) (ap_addrs m))]"

lemma autonat_peer_codec:
  assumes "wire_law w"
  shows "reads w (autonat_peer_merge w) (autonat_peer_write w m) autonat_peer_new m" "length (autonat_peer_write w m) = autonat_peer_size w m"
proof -
  note field = proto_simps assms(1) autonat_peer_new_def autonat_peer_merge_def
  show "reads w (autonat_peer_merge w) (autonat_peer_write w m) autonat_peer_new m"
    unfolding autonat_peer_write_def concat.simps
    by (rule reads_opt [where tag = 10 and rd = "wi_bytes w"
        and put = "\<lambda>x. \<lparr>ap_id = x, ap_addrs = []\<rparr>"],
      simp_all add: field del: append_Nil2,
      rule reads_list [where tag = 18 and rd = "wi_bytes w"
        and put = "\<lambda>x. \<lparr>ap_id = ap_id m, ap_addrs = x\<rparr>"],
      simp_all add: field del: append_Nil2, rule reads_end [OF assms(1)], cases m, simp)
  show "length (autonat_peer_write w m) = autonat_peer_size w m" by (simp add: autonat_peer_write_def autonat_peer_size_def field cong: map_cong)
qed

lemma autonat_peer_takes: "wire_law w \<Longrightarrow> takes (autonat_peer_merge w)"
  by (simp add: autonat_peer_merge_def takes_simps)

section \<open>\<open>Dial\<close>\<close>

definition dial_new :: dial_field where
  "dial_new = \<lparr>di_peer = None\<rparr>"

definition dial_merge :: "wire \<Rightarrow> nat \<Rightarrow> dial_field \<Rightarrow> bytes \<Rightarrow> string + dial_field \<times> bytes" where
  "dial_merge w tag m =
     (if tag = 10 then store_field (message_field w (autonat_peer_merge w) autonat_peer_new (di_peer m)) (\<lambda>v. m\<lparr>di_peer := Some v\<rparr>)
      else skip_field w tag m)"

definition dial_size :: "wire \<Rightarrow> dial_field \<Rightarrow> nat" where
  "dial_size w m =
     opt_size (\<lambda>v. message_size w (autonat_peer_size w v)) (di_peer m)"

definition dial_write :: "wire \<Rightarrow> dial_field \<Rightarrow> bytes" where
  "dial_write w m =
     concat [opt_write (\<lambda>v. write_message w 1 (autonat_peer_size w v) (autonat_peer_write w v)) (di_peer m)]"

lemma dial_codec:
  assumes "wire_law w" and "dial_size w m < 2 ^ 32"
  shows "reads w (dial_merge w) (dial_write w m) dial_new m" "length (dial_write w m) = dial_size w m"
proof -
  have sub1: "reads w (autonat_peer_merge w) (autonat_peer_write w v) autonat_peer_new v" "length (autonat_peer_write w v) = autonat_peer_size w v" "autonat_peer_size w v < 4294967296"
    if "di_peer m = Some v" for v
  proof -
    show size: "autonat_peer_size w v < 4294967296" using that assms(2) by (simp add: dial_size_def message_size_def)
    show "reads w (autonat_peer_merge w) (autonat_peer_write w v) autonat_peer_new v" "length (autonat_peer_write w v) = autonat_peer_size w v"
      using autonat_peer_codec [OF assms(1)] by simp_all
  qed
  note field = proto_simps assms(1) dial_new_def dial_merge_def sub1
  show "reads w (dial_merge w) (dial_write w m) dial_new m"
    unfolding dial_write_def concat.simps
    by (rule reads_opt [where tag = 10 and rd = "read_message w (autonat_peer_merge w) autonat_peer_new"
        and put = "\<lambda>x. \<lparr>di_peer = x\<rparr>"],
      simp_all add: field del: append_Nil2, rule reads_end [OF assms(1)], cases m, simp)
  show "length (dial_write w m) = dial_size w m"
    by (cases "di_peer m") (simp_all add: dial_write_def dial_size_def field cong: map_cong)
qed

lemma dial_takes: "wire_law w \<Longrightarrow> takes (dial_merge w)"
  by (simp add: dial_merge_def takes_simps)

section \<open>\<open>DialResponse\<close>\<close>

definition dial_response_new :: dial_response where
  "dial_response_new = \<lparr>dr_status = None, dr_text = None, dr_addr = None\<rparr>"

definition dial_response_merge :: "wire \<Rightarrow> nat \<Rightarrow> dial_response \<Rightarrow> bytes \<Rightarrow> string + dial_response \<times> bytes" where
  "dial_response_merge w tag m =
     (if tag = 8 then store_field (read_enum w dial_status_of) (\<lambda>v. m\<lparr>dr_status := Some v\<rparr>)
      else if tag = 18 then store_field (wi_string w) (\<lambda>v. m\<lparr>dr_text := Some v\<rparr>)
      else if tag = 26 then store_field (wi_bytes w) (\<lambda>v. m\<lparr>dr_addr := Some v\<rparr>)
      else skip_field w tag m)"

definition dial_response_size :: "wire \<Rightarrow> dial_response \<Rightarrow> nat" where
  "dial_response_size w m =
     opt_size (\<lambda>v. ws_int32 w 1 (dial_status_value v)) (dr_status m) +
     opt_size (ws_string w 2) (dr_text m) +
     opt_size (ws_bytes w 3) (dr_addr m)"

definition dial_response_write :: "wire \<Rightarrow> dial_response \<Rightarrow> bytes" where
  "dial_response_write w m =
     concat [opt_write (\<lambda>v. wo_enum w 1 (dial_status_value v)) (dr_status m),
       opt_write (wo_string w 2) (dr_text m),
       opt_write (wo_bytes w 3) (dr_addr m)]"

definition dial_response_typed :: "dial_response \<Rightarrow> bool" where
  "dial_response_typed m \<longleftrightarrow> pred_option (\<lambda>v. dial_status_of (dial_status_value v) = v) (dr_status m)"

lemma dial_response_codec:
  assumes "wire_law w" and "dial_response_typed m"
  shows "reads w (dial_response_merge w) (dial_response_write w m) dial_response_new m" "length (dial_response_write w m) = dial_response_size w m"
proof -
  have num1: "dial_status_of (dial_status_value v) = v" if "dr_status m = Some v" for v using that assms(2) by (simp add: dial_response_typed_def)
  note field = proto_simps assms(1) dial_response_new_def dial_response_merge_def num1
  show "reads w (dial_response_merge w) (dial_response_write w m) dial_response_new m"
    unfolding dial_response_write_def concat.simps
    by (rule reads_opt [where tag = 8 and rd = "read_enum w dial_status_of"
        and put = "\<lambda>x. \<lparr>dr_status = x, dr_text = None, dr_addr = None\<rparr>"],
      simp_all add: field del: append_Nil2,
      rule reads_opt [where tag = 18 and rd = "wi_string w"
        and put = "\<lambda>x. \<lparr>dr_status = dr_status m, dr_text = x, dr_addr = None\<rparr>"],
      simp_all add: field del: append_Nil2,
      rule reads_opt [where tag = 26 and rd = "wi_bytes w"
        and put = "\<lambda>x. \<lparr>dr_status = dr_status m, dr_text = dr_text m, dr_addr = x\<rparr>"],
      simp_all add: field del: append_Nil2, rule reads_end [OF assms(1)], cases m, simp)
  show "length (dial_response_write w m) = dial_response_size w m" by (simp add: dial_response_write_def dial_response_size_def field cong: map_cong)
qed

lemma dial_response_takes: "wire_law w \<Longrightarrow> takes (dial_response_merge w)"
  by (simp add: dial_response_merge_def takes_simps)

section \<open>\<open>Message\<close>\<close>

definition autonat_new :: autonat_msg where
  "autonat_new = \<lparr>am_type = None, am_dial = None, am_response = None\<rparr>"

definition autonat_merge :: "wire \<Rightarrow> nat \<Rightarrow> autonat_msg \<Rightarrow> bytes \<Rightarrow> string + autonat_msg \<times> bytes" where
  "autonat_merge w tag m =
     (if tag = 8 then store_field (read_enum w autonat_type_of) (\<lambda>v. m\<lparr>am_type := Some v\<rparr>)
      else if tag = 18 then store_field (message_field w (dial_merge w) dial_new (am_dial m)) (\<lambda>v. m\<lparr>am_dial := Some v\<rparr>)
      else if tag = 26 then store_field (message_field w (dial_response_merge w) dial_response_new (am_response m)) (\<lambda>v. m\<lparr>am_response := Some v\<rparr>)
      else skip_field w tag m)"

definition autonat_size :: "wire \<Rightarrow> autonat_msg \<Rightarrow> nat" where
  "autonat_size w m =
     opt_size (\<lambda>v. ws_int32 w 1 (autonat_type_value v)) (am_type m) +
     opt_size (\<lambda>v. message_size w (dial_size w v)) (am_dial m) +
     opt_size (\<lambda>v. message_size w (dial_response_size w v)) (am_response m)"

definition autonat_write :: "wire \<Rightarrow> autonat_msg \<Rightarrow> bytes" where
  "autonat_write w m =
     concat [opt_write (\<lambda>v. wo_enum w 1 (autonat_type_value v)) (am_type m),
       opt_write (\<lambda>v. write_message w 2 (dial_size w v) (dial_write w v)) (am_dial m),
       opt_write (\<lambda>v. write_message w 3 (dial_response_size w v) (dial_response_write w v)) (am_response m)]"

definition autonat_typed :: "autonat_msg \<Rightarrow> bool" where
  "autonat_typed m \<longleftrightarrow> pred_option (\<lambda>v. autonat_type_of (autonat_type_value v) = v) (am_type m) \<and> pred_option dial_response_typed (am_response m)"

lemma autonat_codec:
  assumes "wire_law w" and "autonat_typed m" and "autonat_size w m < 2 ^ 32"
  shows "reads w (autonat_merge w) (autonat_write w m) autonat_new m" "length (autonat_write w m) = autonat_size w m"
proof -
  have sub1: "reads w (dial_merge w) (dial_write w v) dial_new v" "length (dial_write w v) = dial_size w v" "dial_size w v < 4294967296"
    if "am_dial m = Some v" for v
  proof -
    show size: "dial_size w v < 4294967296" using that assms(3) by (simp add: autonat_size_def message_size_def)
    from size show "reads w (dial_merge w) (dial_write w v) dial_new v" "length (dial_write w v) = dial_size w v"
      using dial_codec [OF assms(1)] by simp_all
  qed
  have sub2: "reads w (dial_response_merge w) (dial_response_write w v) dial_response_new v" "length (dial_response_write w v) = dial_response_size w v" "dial_response_size w v < 4294967296"
    if "am_response m = Some v" for v
  proof -
    show size: "dial_response_size w v < 4294967296" using that assms(3) by (simp add: autonat_size_def message_size_def)
    have "dial_response_typed v" using that assms(2) by (auto simp: autonat_typed_def list_all_iff)
    then show "reads w (dial_response_merge w) (dial_response_write w v) dial_response_new v" "length (dial_response_write w v) = dial_response_size w v"
      using dial_response_codec [OF assms(1)] by simp_all
  qed
  have num1: "autonat_type_of (autonat_type_value v) = v" if "am_type m = Some v" for v using that assms(2) by (simp add: autonat_typed_def)
  note field = proto_simps assms(1) autonat_new_def autonat_merge_def sub1 sub2 num1
  show "reads w (autonat_merge w) (autonat_write w m) autonat_new m"
    unfolding autonat_write_def concat.simps
    by (rule reads_opt [where tag = 8 and rd = "read_enum w autonat_type_of"
        and put = "\<lambda>x. \<lparr>am_type = x, am_dial = None, am_response = None\<rparr>"],
      simp_all add: field del: append_Nil2,
      rule reads_opt [where tag = 18 and rd = "read_message w (dial_merge w) dial_new"
        and put = "\<lambda>x. \<lparr>am_type = am_type m, am_dial = x, am_response = None\<rparr>"],
      simp_all add: field del: append_Nil2,
      rule reads_opt [where tag = 26 and rd = "read_message w (dial_response_merge w) dial_response_new"
        and put = "\<lambda>x. \<lparr>am_type = am_type m, am_dial = am_dial m, am_response = x\<rparr>"],
      simp_all add: field del: append_Nil2, rule reads_end [OF assms(1)], cases m, simp)
  show "length (autonat_write w m) = autonat_size w m"
    by (cases "am_dial m"; cases "am_response m") (simp_all add: autonat_write_def autonat_size_def field cong: map_cong)
qed

lemma autonat_takes: "wire_law w \<Longrightarrow> takes (autonat_merge w)"
  by (simp add: autonat_merge_def takes_simps)

section \<open>The codec of the calls\<close>

definition generated_autonat :: "wire \<Rightarrow> autonat_codec \<Rightarrow> autonat_codec" where
  "generated_autonat w k = k\<lparr>
     an_wr := write_to_bytes w autonat_typed (\<lambda>_. True) (autonat_size w) (autonat_write w),
     an_parse := parse_from_bytes w (autonat_merge w) (\<lambda>_. True) autonat_new\<rparr>"

text \<open>C23: The messages of AutoNAT. Every message below 2 GiB is written, in exactly the number of bytes that was computed for it, and is
  read back as itself, nested messages and statuses without a name too; so the codec that the file makes keeps the law that the
  requests rely on.\<close>

theorem autonat_messages:
  assumes "wire_law w" and "autonat_law k"
  shows "autonat_law (generated_autonat w k) \<and>
    (\<forall>m. autonat_typed m \<longrightarrow> autonat_size w m < 2 ^ 31 \<longrightarrow>
       (\<exists>buf. an_wr (generated_autonat w k) m = Inr buf \<and> length buf = autonat_size w m \<and> an_parse (generated_autonat w k) buf = Inr m))"
proof
  note c = autonat_codec [OF assms(1)]
  show "autonat_law (generated_autonat w k)"
    using assms(2) message_law_generated [OF assms(1), of autonat_typed "autonat_size w" "autonat_merge w" "autonat_write w"] c
    by (simp add: autonat_law_def generated_autonat_def)
  show "\<forall>m. autonat_typed m \<longrightarrow> autonat_size w m < 2 ^ 31 \<longrightarrow>
       (\<exists>buf. an_wr (generated_autonat w k) m = Inr buf \<and> length buf = autonat_size w m \<and> an_parse (generated_autonat w k) buf = Inr m)"
    using codec_roundtrip [OF assms(1), where typed = autonat_typed and initialized = "\<lambda>_. True"
        and compute_size = "autonat_size w" and wr = "autonat_write w" and f = "autonat_merge w" and new = autonat_new] c
    by (simp add: generated_autonat_def)
qed

definition odd_answer :: autonat_msg where
  "odd_answer = \<lparr>am_type = Some DIAL_RESPONSE, am_dial = Some \<lparr>di_peer = Some \<lparr>ap_id = Some [], ap_addrs = [[1]]\<rparr>\<rparr>,
     am_response = Some \<lparr>dr_status = Some (OtherStatus 7), dr_text = Some ''no'', dr_addr = None\<rparr>\<rparr>"

lemma odd_answer_size: "autonat_typed odd_answer" "autonat_size (std_wire g) odd_answer = 19"
  by (simp_all add: odd_answer_def autonat_typed_def dial_response_typed_def autonat_type_of_def dial_status_of_def autonat_size_def dial_size_def
      autonat_peer_size_def dial_response_size_def message_size_def std_int32_def std_text_def std_bytes_def std_head_def leb.simps
      autonat_type_value_def dial_status_value_def)

theorem autonat_messages_witness:
  "\<exists>buf. an_wr (generated_autonat (std_wire True) (two_message_codec odd_answer odd_answer)) odd_answer = Inr buf \<and> length buf = 19 \<and>
     an_parse (generated_autonat (std_wire True) (two_message_codec odd_answer odd_answer)) buf = Inr odd_answer"
  using autonat_messages [OF std_wire_law two_message_codec_law, of True odd_answer odd_answer] odd_answer_size(1)
    odd_answer_size(2) [of True] by force

end
