(* ===== verification/CircuitProto.thy ===== *)
theory CircuitProto
  imports CircuitRpc Protobuf
begin

text \<open>
  \<open>circuit/src/proto/circuit.rs\<close> and \<open>circuit/src/proto/DCUtR.rs\<close>: the generated messages of the relay and of hole punching. For each
  message: the match of its \<open>merge_from\<close>, \<open>compute_size\<close> and \<open>write_to_with_cached_sizes\<close>, in the order of the source;
  what is written has the computed size and is read back as the same message. The codec of the calls, \<open>circuit_codec\<close>, is made of them.
\<close>

section \<open>Enums\<close>

text \<open>\<open>EnumOrUnknown\<close>: a number is the value with that number if there is one.\<close>

definition hop_type_value :: "hop_type \<Rightarrow> 32 word" where
  "hop_type_value t = (case t of HopReserve \<Rightarrow> 0 | HopConnect \<Rightarrow> 1 | HopStatus \<Rightarrow> 2 | HopOther v \<Rightarrow> v)"

definition hop_type_of :: "32 word \<Rightarrow> hop_type" where
  "hop_type_of v = (if v = 0 then HopReserve else if v = 1 then HopConnect else if v = 2 then HopStatus else HopOther v)"

definition stop_type_value :: "stop_type \<Rightarrow> 32 word" where
  "stop_type_value t = (case t of StopConnect \<Rightarrow> 0 | StopStatus \<Rightarrow> 1 | StopOther v \<Rightarrow> v)"

definition stop_type_of :: "32 word \<Rightarrow> stop_type" where
  "stop_type_of v = (if v = 0 then StopConnect else if v = 1 then StopStatus else StopOther v)"

definition status_value :: "circuit_status \<Rightarrow> 32 word" where
  "status_value t =
     (case t of UNUSED \<Rightarrow> 0 | StOK \<Rightarrow> 100 | RESERVATION_REFUSED \<Rightarrow> 200 | RESOURCE_LIMIT_EXCEEDED \<Rightarrow> 201
      | PERMISSION_DENIED \<Rightarrow> 202 | CONNECTION_FAILED \<Rightarrow> 203 | NO_RESERVATION \<Rightarrow> 204 | MALFORMED_MESSAGE \<Rightarrow> 400
      | UNEXPECTED_MESSAGE \<Rightarrow> 401 | StOther v \<Rightarrow> v)"

definition status_of :: "32 word \<Rightarrow> circuit_status" where
  "status_of v =
     (if v = 0 then UNUSED else if v = 100 then StOK else if v = 200 then RESERVATION_REFUSED
      else if v = 201 then RESOURCE_LIMIT_EXCEEDED else if v = 202 then PERMISSION_DENIED
      else if v = 203 then CONNECTION_FAILED else if v = 204 then NO_RESERVATION
      else if v = 400 then MALFORMED_MESSAGE else if v = 401 then UNEXPECTED_MESSAGE else StOther v)"

definition punch_type_value :: "punch_type \<Rightarrow> 32 word" where
  "punch_type_value t = (case t of PunchConnect \<Rightarrow> 100 | PunchSync \<Rightarrow> 300 | PunchOther v \<Rightarrow> v)"

definition punch_type_of :: "32 word \<Rightarrow> punch_type" where
  "punch_type_of v = (if v = 100 then PunchConnect else if v = 300 then PunchSync else PunchOther v)"

text \<open>A number is the same number again; a value of the type survives unless it is an unknown number that has a name.\<close>

lemma enum_numbers [simp]:
  "hop_type_value (hop_type_of v) = v" "stop_type_value (stop_type_of v) = v" "status_value (status_of v) = v"
  "punch_type_value (punch_type_of v) = v"
  by (simp_all add: hop_type_value_def hop_type_of_def stop_type_value_def stop_type_of_def status_value_def status_of_def
      punch_type_value_def punch_type_of_def)

lemma enum_names:
  "hop_type_of (hop_type_value t) = t \<longleftrightarrow> (\<forall>v. t = HopOther v \<longrightarrow> v \<notin> {0, 1, 2})"
  "stop_type_of (stop_type_value s) = s \<longleftrightarrow> (\<forall>v. s = StopOther v \<longrightarrow> v \<notin> {0, 1})"
  "status_of (status_value c) = c \<longleftrightarrow> (\<forall>v. c = StOther v \<longrightarrow> v \<notin> {0, 100, 200, 201, 202, 203, 204, 400, 401})"
  "punch_type_of (punch_type_value p) = p \<longleftrightarrow> (\<forall>v. p = PunchOther v \<longrightarrow> v \<notin> {100, 300})"
  subgoal by (cases t) (simp_all add: hop_type_value_def hop_type_of_def)
  subgoal by (cases s) (simp_all add: stop_type_value_def stop_type_of_def)
  subgoal by (cases c) (simp_all add: status_value_def status_of_def)
  subgoal by (cases p) (simp_all add: punch_type_value_def punch_type_of_def)
  done

section \<open>\<open>Peer\<close>\<close>

definition peer_new :: peer_field where
  "peer_new = \<lparr>pf_id = None, pf_addrs = []\<rparr>"

definition peer_merge :: "wire \<Rightarrow> nat \<Rightarrow> peer_field \<Rightarrow> bytes \<Rightarrow> string + peer_field \<times> bytes" where
  "peer_merge w tag m =
     (if tag = 10 then store_field (wi_bytes w) (\<lambda>v. m\<lparr>pf_id := Some v\<rparr>)
      else if tag = 18 then store_field (wi_bytes w) (\<lambda>v. m\<lparr>pf_addrs := pf_addrs m @ [v]\<rparr>)
      else skip_field w tag m)"

definition peer_size :: "wire \<Rightarrow> peer_field \<Rightarrow> nat" where
  "peer_size w m =
     opt_size (ws_bytes w 1) (pf_id m) +
     sum_list (map (ws_bytes w 2) (pf_addrs m))"

definition peer_write :: "wire \<Rightarrow> peer_field \<Rightarrow> bytes" where
  "peer_write w m =
     concat [opt_write (wo_bytes w 1) (pf_id m),
       concat (map (wo_bytes w 2) (pf_addrs m))]"

lemma peer_codec:
  assumes "wire_law w"
  shows "reads w (peer_merge w) (peer_write w m) peer_new m" "length (peer_write w m) = peer_size w m"
proof -
  note field = proto_simps assms(1) peer_new_def peer_merge_def
  show "reads w (peer_merge w) (peer_write w m) peer_new m"
    unfolding peer_write_def concat.simps
    by (rule reads_opt [where tag = 10 and rd = "wi_bytes w"
        and put = "\<lambda>x. \<lparr>pf_id = x, pf_addrs = []\<rparr>"],
      simp_all add: field del: append_Nil2,
      rule reads_list [where tag = 18 and rd = "wi_bytes w"
        and put = "\<lambda>x. \<lparr>pf_id = pf_id m, pf_addrs = x\<rparr>"],
      simp_all add: field del: append_Nil2, rule reads_end [OF assms(1)], cases m, simp)
  show "length (peer_write w m) = peer_size w m" by (simp add: peer_write_def peer_size_def field cong: map_cong)
qed

lemma peer_takes: "wire_law w \<Longrightarrow> takes (peer_merge w)"
  by (simp add: peer_merge_def takes_simps)

section \<open>\<open>Reservation\<close>\<close>

definition reservation_new :: reservation_field where
  "reservation_new = \<lparr>rf_expire = None, rf_addrs = [], rf_voucher = None\<rparr>"

definition reservation_merge :: "wire \<Rightarrow> nat \<Rightarrow> reservation_field \<Rightarrow> bytes \<Rightarrow> string + reservation_field \<times> bytes" where
  "reservation_merge w tag m =
     (if tag = 8 then store_field (wi_uint64 w) (\<lambda>v. m\<lparr>rf_expire := Some v\<rparr>)
      else if tag = 18 then store_field (wi_bytes w) (\<lambda>v. m\<lparr>rf_addrs := rf_addrs m @ [v]\<rparr>)
      else if tag = 26 then store_field (wi_bytes w) (\<lambda>v. m\<lparr>rf_voucher := Some v\<rparr>)
      else skip_field w tag m)"

definition reservation_size :: "wire \<Rightarrow> reservation_field \<Rightarrow> nat" where
  "reservation_size w m =
     opt_size (ws_uint64 w 1) (rf_expire m) +
     sum_list (map (ws_bytes w 2) (rf_addrs m)) +
     opt_size (ws_bytes w 3) (rf_voucher m)"

definition reservation_write :: "wire \<Rightarrow> reservation_field \<Rightarrow> bytes" where
  "reservation_write w m =
     concat [opt_write (wo_uint64 w 1) (rf_expire m),
       concat (map (wo_bytes w 2) (rf_addrs m)),
       opt_write (wo_bytes w 3) (rf_voucher m)]"

lemma reservation_codec:
  assumes "wire_law w"
  shows "reads w (reservation_merge w) (reservation_write w m) reservation_new m" "length (reservation_write w m) = reservation_size w m"
proof -
  note field = proto_simps assms(1) reservation_new_def reservation_merge_def
  show "reads w (reservation_merge w) (reservation_write w m) reservation_new m"
    unfolding reservation_write_def concat.simps
    by (rule reads_opt [where tag = 8 and rd = "wi_uint64 w"
        and put = "\<lambda>x. \<lparr>rf_expire = x, rf_addrs = [], rf_voucher = None\<rparr>"],
      simp_all add: field del: append_Nil2,
      rule reads_list [where tag = 18 and rd = "wi_bytes w"
        and put = "\<lambda>x. \<lparr>rf_expire = rf_expire m, rf_addrs = x, rf_voucher = None\<rparr>"],
      simp_all add: field del: append_Nil2,
      rule reads_opt [where tag = 26 and rd = "wi_bytes w"
        and put = "\<lambda>x. \<lparr>rf_expire = rf_expire m, rf_addrs = rf_addrs m, rf_voucher = x\<rparr>"],
      simp_all add: field del: append_Nil2, rule reads_end [OF assms(1)], cases m, simp)
  show "length (reservation_write w m) = reservation_size w m" by (simp add: reservation_write_def reservation_size_def field cong: map_cong)
qed

lemma reservation_takes: "wire_law w \<Longrightarrow> takes (reservation_merge w)"
  by (simp add: reservation_merge_def takes_simps)

section \<open>\<open>Limit\<close>\<close>

definition limit_new :: limit_field where
  "limit_new = \<lparr>lf_duration = None, lf_data = None\<rparr>"

definition limit_merge :: "wire \<Rightarrow> nat \<Rightarrow> limit_field \<Rightarrow> bytes \<Rightarrow> string + limit_field \<times> bytes" where
  "limit_merge w tag m =
     (if tag = 8 then store_field (wi_uint32 w) (\<lambda>v. m\<lparr>lf_duration := Some v\<rparr>)
      else if tag = 16 then store_field (wi_uint64 w) (\<lambda>v. m\<lparr>lf_data := Some v\<rparr>)
      else skip_field w tag m)"

definition limit_size :: "wire \<Rightarrow> limit_field \<Rightarrow> nat" where
  "limit_size w m =
     opt_size (ws_uint32 w 1) (lf_duration m) +
     opt_size (ws_uint64 w 2) (lf_data m)"

definition limit_write :: "wire \<Rightarrow> limit_field \<Rightarrow> bytes" where
  "limit_write w m =
     concat [opt_write (wo_uint32 w 1) (lf_duration m),
       opt_write (wo_uint64 w 2) (lf_data m)]"

lemma limit_codec:
  assumes "wire_law w"
  shows "reads w (limit_merge w) (limit_write w m) limit_new m" "length (limit_write w m) = limit_size w m"
proof -
  note field = proto_simps assms(1) limit_new_def limit_merge_def
  show "reads w (limit_merge w) (limit_write w m) limit_new m"
    unfolding limit_write_def concat.simps
    by (rule reads_opt [where tag = 8 and rd = "wi_uint32 w"
        and put = "\<lambda>x. \<lparr>lf_duration = x, lf_data = None\<rparr>"],
      simp_all add: field del: append_Nil2,
      rule reads_opt [where tag = 16 and rd = "wi_uint64 w"
        and put = "\<lambda>x. \<lparr>lf_duration = lf_duration m, lf_data = x\<rparr>"],
      simp_all add: field del: append_Nil2, rule reads_end [OF assms(1)], cases m, simp)
  show "length (limit_write w m) = limit_size w m" by (simp add: limit_write_def limit_size_def field cong: map_cong)
qed

lemma limit_takes: "wire_law w \<Longrightarrow> takes (limit_merge w)"
  by (simp add: limit_merge_def takes_simps)

section \<open>\<open>Voucher\<close>\<close>

record voucher =
  vo_relay :: "bytes option"
  vo_peer :: "bytes option"
  vo_expiration :: "64 word option"

definition voucher_new :: voucher where
  "voucher_new = \<lparr>vo_relay = None, vo_peer = None, vo_expiration = None\<rparr>"

definition voucher_merge :: "wire \<Rightarrow> nat \<Rightarrow> voucher \<Rightarrow> bytes \<Rightarrow> string + voucher \<times> bytes" where
  "voucher_merge w tag m =
     (if tag = 10 then store_field (wi_bytes w) (\<lambda>v. m\<lparr>vo_relay := Some v\<rparr>)
      else if tag = 18 then store_field (wi_bytes w) (\<lambda>v. m\<lparr>vo_peer := Some v\<rparr>)
      else if tag = 24 then store_field (wi_uint64 w) (\<lambda>v. m\<lparr>vo_expiration := Some v\<rparr>)
      else skip_field w tag m)"

definition voucher_size :: "wire \<Rightarrow> voucher \<Rightarrow> nat" where
  "voucher_size w m =
     opt_size (ws_bytes w 1) (vo_relay m) +
     opt_size (ws_bytes w 2) (vo_peer m) +
     opt_size (ws_uint64 w 3) (vo_expiration m)"

definition voucher_write :: "wire \<Rightarrow> voucher \<Rightarrow> bytes" where
  "voucher_write w m =
     concat [opt_write (wo_bytes w 1) (vo_relay m),
       opt_write (wo_bytes w 2) (vo_peer m),
       opt_write (wo_uint64 w 3) (vo_expiration m)]"

lemma voucher_codec:
  assumes "wire_law w"
  shows "reads w (voucher_merge w) (voucher_write w m) voucher_new m" "length (voucher_write w m) = voucher_size w m"
proof -
  note field = proto_simps assms(1) voucher_new_def voucher_merge_def
  show "reads w (voucher_merge w) (voucher_write w m) voucher_new m"
    unfolding voucher_write_def concat.simps
    by (rule reads_opt [where tag = 10 and rd = "wi_bytes w"
        and put = "\<lambda>x. \<lparr>vo_relay = x, vo_peer = None, vo_expiration = None\<rparr>"],
      simp_all add: field del: append_Nil2,
      rule reads_opt [where tag = 18 and rd = "wi_bytes w"
        and put = "\<lambda>x. \<lparr>vo_relay = vo_relay m, vo_peer = x, vo_expiration = None\<rparr>"],
      simp_all add: field del: append_Nil2,
      rule reads_opt [where tag = 24 and rd = "wi_uint64 w"
        and put = "\<lambda>x. \<lparr>vo_relay = vo_relay m, vo_peer = vo_peer m, vo_expiration = x\<rparr>"],
      simp_all add: field del: append_Nil2, rule reads_end [OF assms(1)], cases m, simp)
  show "length (voucher_write w m) = voucher_size w m" by (simp add: voucher_write_def voucher_size_def field cong: map_cong)
qed

lemma voucher_takes: "wire_law w \<Longrightarrow> takes (voucher_merge w)"
  by (simp add: voucher_merge_def takes_simps)

section \<open>\<open>HopMessage\<close>\<close>

definition hop_merge :: "wire \<Rightarrow> nat \<Rightarrow> hop_message \<Rightarrow> bytes \<Rightarrow> string + hop_message \<times> bytes" where
  "hop_merge w tag m =
     (if tag = 8 then store_field (read_enum w hop_type_of) (\<lambda>v. m\<lparr>hm_type := Some v\<rparr>)
      else if tag = 18 then store_field (message_field w (peer_merge w) peer_new (hm_peer m)) (\<lambda>v. m\<lparr>hm_peer := Some v\<rparr>)
      else if tag = 26 then store_field (message_field w (reservation_merge w) reservation_new (hm_reservation m)) (\<lambda>v. m\<lparr>hm_reservation := Some v\<rparr>)
      else if tag = 34 then store_field (message_field w (limit_merge w) limit_new (hm_limit m)) (\<lambda>v. m\<lparr>hm_limit := Some v\<rparr>)
      else if tag = 40 then store_field (read_enum w status_of) (\<lambda>v. m\<lparr>hm_status := Some v\<rparr>)
      else skip_field w tag m)"

definition hop_size :: "wire \<Rightarrow> hop_message \<Rightarrow> nat" where
  "hop_size w m =
     opt_size (\<lambda>v. ws_int32 w 1 (hop_type_value v)) (hm_type m) +
     opt_size (\<lambda>v. message_size w (peer_size w v)) (hm_peer m) +
     opt_size (\<lambda>v. message_size w (reservation_size w v)) (hm_reservation m) +
     opt_size (\<lambda>v. message_size w (limit_size w v)) (hm_limit m) +
     opt_size (\<lambda>v. ws_int32 w 5 (status_value v)) (hm_status m)"

definition hop_write :: "wire \<Rightarrow> hop_message \<Rightarrow> bytes" where
  "hop_write w m =
     concat [opt_write (\<lambda>v. wo_enum w 1 (hop_type_value v)) (hm_type m),
       opt_write (\<lambda>v. write_message w 2 (peer_size w v) (peer_write w v)) (hm_peer m),
       opt_write (\<lambda>v. write_message w 3 (reservation_size w v) (reservation_write w v)) (hm_reservation m),
       opt_write (\<lambda>v. write_message w 4 (limit_size w v) (limit_write w v)) (hm_limit m),
       opt_write (\<lambda>v. wo_enum w 5 (status_value v)) (hm_status m)]"

definition hop_typed :: "hop_message \<Rightarrow> bool" where
  "hop_typed m \<longleftrightarrow> pred_option (\<lambda>v. hop_type_of (hop_type_value v) = v) (hm_type m) \<and> pred_option (\<lambda>v. status_of (status_value v) = v) (hm_status m)"

lemma hop_codec:
  assumes "wire_law w" and "hop_typed m" and "hop_size w m < 2 ^ 32"
  shows "reads w (hop_merge w) (hop_write w m) hop_new m" "length (hop_write w m) = hop_size w m"
proof -
  have sub1: "reads w (peer_merge w) (peer_write w v) peer_new v" "length (peer_write w v) = peer_size w v" "peer_size w v < 4294967296"
    if "hm_peer m = Some v" for v
  proof -
    show size: "peer_size w v < 4294967296" using that assms(3) by (simp add: hop_size_def message_size_def)
    show "reads w (peer_merge w) (peer_write w v) peer_new v" "length (peer_write w v) = peer_size w v"
      using peer_codec [OF assms(1)] by simp_all
  qed
  have sub2: "reads w (reservation_merge w) (reservation_write w v) reservation_new v" "length (reservation_write w v) = reservation_size w v" "reservation_size w v < 4294967296"
    if "hm_reservation m = Some v" for v
  proof -
    show size: "reservation_size w v < 4294967296" using that assms(3) by (simp add: hop_size_def message_size_def)
    show "reads w (reservation_merge w) (reservation_write w v) reservation_new v" "length (reservation_write w v) = reservation_size w v"
      using reservation_codec [OF assms(1)] by simp_all
  qed
  have sub3: "reads w (limit_merge w) (limit_write w v) limit_new v" "length (limit_write w v) = limit_size w v" "limit_size w v < 4294967296"
    if "hm_limit m = Some v" for v
  proof -
    show size: "limit_size w v < 4294967296" using that assms(3) by (simp add: hop_size_def message_size_def)
    show "reads w (limit_merge w) (limit_write w v) limit_new v" "length (limit_write w v) = limit_size w v"
      using limit_codec [OF assms(1)] by simp_all
  qed
  have num1: "hop_type_of (hop_type_value v) = v" if "hm_type m = Some v" for v using that assms(2) by (simp add: hop_typed_def)
  have num2: "status_of (status_value v) = v" if "hm_status m = Some v" for v using that assms(2) by (simp add: hop_typed_def)
  note field = proto_simps assms(1) hop_new_def hop_merge_def sub1 sub2 sub3 num1 num2
  show "reads w (hop_merge w) (hop_write w m) hop_new m"
    unfolding hop_write_def concat.simps
    by (rule reads_opt [where tag = 8 and rd = "read_enum w hop_type_of"
        and put = "\<lambda>x. \<lparr>hm_type = x, hm_peer = None, hm_reservation = None, hm_limit = None, hm_status = None\<rparr>"],
      simp_all add: field del: append_Nil2,
      rule reads_opt [where tag = 18 and rd = "read_message w (peer_merge w) peer_new"
        and put = "\<lambda>x. \<lparr>hm_type = hm_type m, hm_peer = x, hm_reservation = None, hm_limit = None, hm_status = None\<rparr>"],
      simp_all add: field del: append_Nil2,
      rule reads_opt [where tag = 26 and rd = "read_message w (reservation_merge w) reservation_new"
        and put = "\<lambda>x. \<lparr>hm_type = hm_type m, hm_peer = hm_peer m, hm_reservation = x, hm_limit = None, hm_status = None\<rparr>"],
      simp_all add: field del: append_Nil2,
      rule reads_opt [where tag = 34 and rd = "read_message w (limit_merge w) limit_new"
        and put = "\<lambda>x. \<lparr>hm_type = hm_type m, hm_peer = hm_peer m, hm_reservation = hm_reservation m, hm_limit = x, hm_status = None\<rparr>"],
      simp_all add: field del: append_Nil2,
      rule reads_opt [where tag = 40 and rd = "read_enum w status_of"
        and put = "\<lambda>x. \<lparr>hm_type = hm_type m, hm_peer = hm_peer m, hm_reservation = hm_reservation m, hm_limit = hm_limit m, hm_status = x\<rparr>"],
      simp_all add: field del: append_Nil2, rule reads_end [OF assms(1)], cases m, simp)
  show "length (hop_write w m) = hop_size w m"
    by (cases "hm_peer m"; cases "hm_reservation m"; cases "hm_limit m") (simp_all add: hop_write_def hop_size_def field cong: map_cong)
qed

lemma hop_takes: "wire_law w \<Longrightarrow> takes (hop_merge w)"
  by (simp add: hop_merge_def takes_simps)

section \<open>\<open>StopMessage\<close>\<close>

definition stop_merge :: "wire \<Rightarrow> nat \<Rightarrow> stop_message \<Rightarrow> bytes \<Rightarrow> string + stop_message \<times> bytes" where
  "stop_merge w tag m =
     (if tag = 8 then store_field (read_enum w stop_type_of) (\<lambda>v. m\<lparr>sm_type := Some v\<rparr>)
      else if tag = 18 then store_field (message_field w (peer_merge w) peer_new (sm_peer m)) (\<lambda>v. m\<lparr>sm_peer := Some v\<rparr>)
      else if tag = 26 then store_field (message_field w (limit_merge w) limit_new (sm_limit m)) (\<lambda>v. m\<lparr>sm_limit := Some v\<rparr>)
      else if tag = 32 then store_field (read_enum w status_of) (\<lambda>v. m\<lparr>sm_status := Some v\<rparr>)
      else skip_field w tag m)"

definition stop_size :: "wire \<Rightarrow> stop_message \<Rightarrow> nat" where
  "stop_size w m =
     opt_size (\<lambda>v. ws_int32 w 1 (stop_type_value v)) (sm_type m) +
     opt_size (\<lambda>v. message_size w (peer_size w v)) (sm_peer m) +
     opt_size (\<lambda>v. message_size w (limit_size w v)) (sm_limit m) +
     opt_size (\<lambda>v. ws_int32 w 4 (status_value v)) (sm_status m)"

definition stop_write :: "wire \<Rightarrow> stop_message \<Rightarrow> bytes" where
  "stop_write w m =
     concat [opt_write (\<lambda>v. wo_enum w 1 (stop_type_value v)) (sm_type m),
       opt_write (\<lambda>v. write_message w 2 (peer_size w v) (peer_write w v)) (sm_peer m),
       opt_write (\<lambda>v. write_message w 3 (limit_size w v) (limit_write w v)) (sm_limit m),
       opt_write (\<lambda>v. wo_enum w 4 (status_value v)) (sm_status m)]"

definition stop_typed :: "stop_message \<Rightarrow> bool" where
  "stop_typed m \<longleftrightarrow> pred_option (\<lambda>v. stop_type_of (stop_type_value v) = v) (sm_type m) \<and> pred_option (\<lambda>v. status_of (status_value v) = v) (sm_status m)"

lemma stop_codec:
  assumes "wire_law w" and "stop_typed m" and "stop_size w m < 2 ^ 32"
  shows "reads w (stop_merge w) (stop_write w m) stop_new m" "length (stop_write w m) = stop_size w m"
proof -
  have sub1: "reads w (peer_merge w) (peer_write w v) peer_new v" "length (peer_write w v) = peer_size w v" "peer_size w v < 4294967296"
    if "sm_peer m = Some v" for v
  proof -
    show size: "peer_size w v < 4294967296" using that assms(3) by (simp add: stop_size_def message_size_def)
    show "reads w (peer_merge w) (peer_write w v) peer_new v" "length (peer_write w v) = peer_size w v"
      using peer_codec [OF assms(1)] by simp_all
  qed
  have sub2: "reads w (limit_merge w) (limit_write w v) limit_new v" "length (limit_write w v) = limit_size w v" "limit_size w v < 4294967296"
    if "sm_limit m = Some v" for v
  proof -
    show size: "limit_size w v < 4294967296" using that assms(3) by (simp add: stop_size_def message_size_def)
    show "reads w (limit_merge w) (limit_write w v) limit_new v" "length (limit_write w v) = limit_size w v"
      using limit_codec [OF assms(1)] by simp_all
  qed
  have num1: "stop_type_of (stop_type_value v) = v" if "sm_type m = Some v" for v using that assms(2) by (simp add: stop_typed_def)
  have num2: "status_of (status_value v) = v" if "sm_status m = Some v" for v using that assms(2) by (simp add: stop_typed_def)
  note field = proto_simps assms(1) stop_new_def stop_merge_def sub1 sub2 num1 num2
  show "reads w (stop_merge w) (stop_write w m) stop_new m"
    unfolding stop_write_def concat.simps
    by (rule reads_opt [where tag = 8 and rd = "read_enum w stop_type_of"
        and put = "\<lambda>x. \<lparr>sm_type = x, sm_peer = None, sm_limit = None, sm_status = None\<rparr>"],
      simp_all add: field del: append_Nil2,
      rule reads_opt [where tag = 18 and rd = "read_message w (peer_merge w) peer_new"
        and put = "\<lambda>x. \<lparr>sm_type = sm_type m, sm_peer = x, sm_limit = None, sm_status = None\<rparr>"],
      simp_all add: field del: append_Nil2,
      rule reads_opt [where tag = 26 and rd = "read_message w (limit_merge w) limit_new"
        and put = "\<lambda>x. \<lparr>sm_type = sm_type m, sm_peer = sm_peer m, sm_limit = x, sm_status = None\<rparr>"],
      simp_all add: field del: append_Nil2,
      rule reads_opt [where tag = 32 and rd = "read_enum w status_of"
        and put = "\<lambda>x. \<lparr>sm_type = sm_type m, sm_peer = sm_peer m, sm_limit = sm_limit m, sm_status = x\<rparr>"],
      simp_all add: field del: append_Nil2, rule reads_end [OF assms(1)], cases m, simp)
  show "length (stop_write w m) = stop_size w m"
    by (cases "sm_peer m"; cases "sm_limit m") (simp_all add: stop_write_def stop_size_def field cong: map_cong)
qed

lemma stop_takes: "wire_law w \<Longrightarrow> takes (stop_merge w)"
  by (simp add: stop_merge_def takes_simps)

section \<open>\<open>HolePunch\<close>\<close>

definition punch_merge :: "wire \<Rightarrow> nat \<Rightarrow> hole_punch \<Rightarrow> bytes \<Rightarrow> string + hole_punch \<times> bytes" where
  "punch_merge w tag m =
     (if tag = 8 then store_field (read_enum w punch_type_of) (\<lambda>v. m\<lparr>hp_type := Some v\<rparr>)
      else if tag = 18 then store_field (wi_bytes w) (\<lambda>v. m\<lparr>hp_obs_addrs := hp_obs_addrs m @ [v]\<rparr>)
      else skip_field w tag m)"

definition punch_size :: "wire \<Rightarrow> hole_punch \<Rightarrow> nat" where
  "punch_size w m =
     opt_size (\<lambda>v. ws_int32 w 1 (punch_type_value v)) (hp_type m) +
     sum_list (map (ws_bytes w 2) (hp_obs_addrs m))"

definition punch_write :: "wire \<Rightarrow> hole_punch \<Rightarrow> bytes" where
  "punch_write w m =
     concat [opt_write (\<lambda>v. wo_enum w 1 (punch_type_value v)) (hp_type m),
       concat (map (wo_bytes w 2) (hp_obs_addrs m))]"

definition punch_typed :: "hole_punch \<Rightarrow> bool" where
  "punch_typed m \<longleftrightarrow> pred_option (\<lambda>v. punch_type_of (punch_type_value v) = v) (hp_type m)"

lemma punch_codec:
  assumes "wire_law w" and "punch_typed m"
  shows "reads w (punch_merge w) (punch_write w m) punch_new m" "length (punch_write w m) = punch_size w m"
proof -
  have num1: "punch_type_of (punch_type_value v) = v" if "hp_type m = Some v" for v using that assms(2) by (simp add: punch_typed_def)
  note field = proto_simps assms(1) punch_new_def punch_merge_def num1
  show "reads w (punch_merge w) (punch_write w m) punch_new m"
    unfolding punch_write_def concat.simps
    by (rule reads_opt [where tag = 8 and rd = "read_enum w punch_type_of"
        and put = "\<lambda>x. \<lparr>hp_type = x, hp_obs_addrs = []\<rparr>"],
      simp_all add: field del: append_Nil2,
      rule reads_list [where tag = 18 and rd = "wi_bytes w"
        and put = "\<lambda>x. \<lparr>hp_type = hp_type m, hp_obs_addrs = x\<rparr>"],
      simp_all add: field del: append_Nil2, rule reads_end [OF assms(1)], cases m, simp)
  show "length (punch_write w m) = punch_size w m" by (simp add: punch_write_def punch_size_def field cong: map_cong)
qed

lemma punch_takes: "wire_law w \<Longrightarrow> takes (punch_merge w)"
  by (simp add: punch_merge_def takes_simps)

section \<open>The codec of the calls\<close>

text \<open>\<open>is_initialized\<close> of \<open>HolePunch\<close>: its type is a required field.\<close>

definition punch_initialized :: "hole_punch \<Rightarrow> bool" where
  "punch_initialized m = (if hp_type m = None then False else True)"

definition generated_circuit :: "wire \<Rightarrow> circuit_codec \<Rightarrow> circuit_codec" where
  "generated_circuit w k = k\<lparr>
     cc_wr_hop := write_to_bytes w hop_typed (\<lambda>_. True) (hop_size w) (hop_write w),
     cc_parse_hop := parse_from_bytes w (hop_merge w) (\<lambda>_. True) hop_new,
     cc_wr_stop := write_to_bytes w stop_typed (\<lambda>_. True) (stop_size w) (stop_write w),
     cc_parse_stop := parse_from_bytes w (stop_merge w) (\<lambda>_. True) stop_new,
     cc_wr_punch := write_to_bytes w punch_typed punch_initialized (punch_size w) (punch_write w),
     cc_parse_punch := parse_from_bytes w (punch_merge w) punch_initialized punch_new\<rparr>"

lemma generated_circuit_law:
  assumes "wire_law w" and "circuit_law k"
  shows "circuit_law (generated_circuit w k)"
  using assms(2) message_law_generated [OF assms(1), of hop_typed "hop_size w" "hop_merge w" "hop_write w"] hop_codec [OF assms(1)]
    message_law_generated [OF assms(1), of stop_typed "stop_size w" "stop_merge w" "stop_write w"] stop_codec [OF assms(1)]
    message_law_generated [OF assms(1), of punch_typed "punch_size w" "punch_merge w" "punch_write w"] punch_codec [OF assms(1)]
  by (simp add: circuit_law_def generated_circuit_def)

text \<open>C16: The messages of the relay and of hole punching. Every message below 2 GiB is written, in exactly the number of bytes that was
  computed for it, and is read back as itself, nested messages and statuses without a name too; a hole punching message without its type
  is neither written nor read. So the codec that the files make keeps the law that the calls rely on.\<close>

theorem circuit_messages:
  assumes "wire_law w" and "circuit_law k"
  shows "circuit_law (generated_circuit w k) \<and>
    (\<forall>m. hop_typed m \<longrightarrow> hop_size w m < 2 ^ 31 \<longrightarrow>
       (\<exists>buf. cc_wr_hop (generated_circuit w k) m = Inr buf \<and> length buf = hop_size w m \<and>
          cc_parse_hop (generated_circuit w k) buf = Inr m)) \<and>
    (\<forall>m. stop_typed m \<longrightarrow> stop_size w m < 2 ^ 31 \<longrightarrow>
       (\<exists>buf. cc_wr_stop (generated_circuit w k) m = Inr buf \<and> length buf = stop_size w m \<and>
          cc_parse_stop (generated_circuit w k) buf = Inr m)) \<and>
    (\<forall>m. punch_typed m \<longrightarrow> punch_size w m < 2 ^ 31 \<longrightarrow> hp_type m \<noteq> None \<longrightarrow>
       (\<exists>buf. cc_wr_punch (generated_circuit w k) m = Inr buf \<and> length buf = punch_size w m \<and>
          cc_parse_punch (generated_circuit w k) buf = Inr m)) \<and>
    (\<forall>m. hp_type m = None \<longrightarrow> (\<exists>e. cc_wr_punch (generated_circuit w k) m = Inl e) \<and>
       (\<forall>buf. cc_parse_punch (generated_circuit w k) buf \<noteq> Inr m))"
proof (intro conjI allI impI)
  note g = generated_circuit_def
  note rt = codec_roundtrip [OF assms(1)]
  fix m :: hole_punch
  show "circuit_law (generated_circuit w k)" by (rule generated_circuit_law [OF assms])
  show "\<exists>buf. cc_wr_hop (generated_circuit w k) m = Inr buf \<and> length buf = hop_size w m \<and> cc_parse_hop (generated_circuit w k) buf = Inr m"
    if "hop_typed m" "hop_size w m < 2 ^ 31" for m
    using rt [where typed = hop_typed and initialized = "\<lambda>_. True"
        and compute_size = "hop_size w" and wr = "hop_write w" and f = "hop_merge w" and new = hop_new] hop_codec [OF assms(1)] that by (simp add: g)
  show "\<exists>buf. cc_wr_stop (generated_circuit w k) m = Inr buf \<and> length buf = stop_size w m \<and> cc_parse_stop (generated_circuit w k) buf = Inr m"
    if "stop_typed m" "stop_size w m < 2 ^ 31" for m
    using rt [where typed = stop_typed and initialized = "\<lambda>_. True"
        and compute_size = "stop_size w" and wr = "stop_write w" and f = "stop_merge w" and new = stop_new] stop_codec [OF assms(1)] that by (simp add: g)
  show "\<exists>buf. cc_wr_punch (generated_circuit w k) m = Inr buf \<and> length buf = punch_size w m \<and> cc_parse_punch (generated_circuit w k) buf = Inr m"
    if "punch_typed m" "punch_size w m < 2 ^ 31" "hp_type m \<noteq> None"
    using rt [where typed = punch_typed and initialized = punch_initialized
        and compute_size = "punch_size w" and wr = "punch_write w" and f = "punch_merge w" and new = punch_new] punch_codec [OF assms(1)] that
    by (simp add: g punch_initialized_def)
  assume none: "hp_type m = None"
  then show "\<exists>e. cc_wr_punch (generated_circuit w k) m = Inl e"
    using uninitialized_write [OF assms(1), of punch_initialized] by (simp add: g punch_initialized_def)
  show "cc_parse_punch (generated_circuit w k) buf \<noteq> Inr m" for buf
  proof
    assume "cc_parse_punch (generated_circuit w k) buf = Inr m"
    then have "punch_initialized m" using parsed_initialized [OF assms(1)] by (auto simp: g)
    with none show False by (simp add: punch_initialized_def)
  qed
qed

lemma far_reservation_size: "hop_typed far_reservation" "hop_size (std_wire g) far_reservation < 2 ^ 31"
  by (simp_all add: far_reservation_def hop_new_def hop_typed_def hop_type_of_def status_of_def hop_size_def reservation_size_def message_size_def
      std_int32_def std_uint_def leb.simps hop_type_value_def status_value_def)

theorem circuit_messages_witness:
  "\<exists>buf. cc_wr_hop (generated_circuit (std_wire True) (sample_codec [] [] [])) far_reservation = Inr buf \<and>
     cc_parse_hop (generated_circuit (std_wire True) (sample_codec [] [] [])) buf = Inr far_reservation"
  using conjunct1 [OF conjunct2 [OF circuit_messages [OF std_wire_law sample_codec_law, of True "[]" "[]" "[]"]]]
    far_reservation_size(1) far_reservation_size(2) [of True] by blast

end
