(* ===== verification/ProtoCompat.thy ===== *)
theory ProtoCompat
  imports IdentityProto KadProto AutonatProto CircuitProto
begin

text \<open>
  What the generated readers make of input that goes on after a message: the fields that follow are merged into what has been read, and
  fields of other numbers, which a newer version of the protocol may have, are skipped.
\<close>

section \<open>Readers that look only at what they take\<close>

definition streams :: "(bytes \<Rightarrow> string + 'a \<times> bytes) \<Rightarrow> bool" where
  "streams rd \<longleftrightarrow> (\<forall>a b v r. rd a = Inr (v, r) \<longrightarrow> rd (a @ b) = Inr (v, r @ b))"

text \<open>The runtime reads a value from the front of its input, whatever follows, and reports the end of the input only there.\<close>

definition wire_streams :: "wire \<Rightarrow> bool" where
  "wire_streams w \<longleftrightarrow>
     (\<forall>a b t r. wi_tag w a = Inr (Some (t, r)) \<longrightarrow> wi_tag w (a @ b) = Inr (Some (t, r @ b))) \<and>
     (\<forall>a. wi_tag w a = Inr None \<longrightarrow> a = []) \<and>
     streams (wi_enum w) \<and> streams (wi_int32 w) \<and> streams (wi_uint32 w) \<and> streams (wi_uint64 w) \<and> streams (wi_bytes w) \<and>
     streams (wi_string w) \<and> streams (wi_body w) \<and>
     (\<forall>tag a b r. wi_unknown w tag a = Inr r \<longrightarrow> wi_unknown w tag (a @ b) = Inr (r @ b))"

definition flows :: "(nat \<Rightarrow> 'm \<Rightarrow> bytes \<Rightarrow> string + 'm \<times> bytes) \<Rightarrow> bool" where
  "flows f \<longleftrightarrow> (\<forall>tag m. streams (f tag m))"

lemma streams_arms:
  "streams rd \<Longrightarrow> streams (store_field rd put)"
  "wire_streams w \<Longrightarrow> streams (skip_field w tag m)"
  "wire_streams w \<Longrightarrow> streams (read_message w f new)"
  "wire_streams w \<Longrightarrow> streams (message_field w f new old)"
  "wire_streams w \<Longrightarrow> streams (read_enum w dec)"
  by (fastforce simp: streams_def store_field_def skip_field_def read_message_def message_field_def read_enum_def wire_streams_def
      and_then_Inr_iff)+

lemma streams_readers:
  "wire_streams w \<Longrightarrow> streams (wi_int32 w)" "wire_streams w \<Longrightarrow> streams (wi_uint32 w)" "wire_streams w \<Longrightarrow> streams (wi_uint64 w)"
  "wire_streams w \<Longrightarrow> streams (wi_bytes w)" "wire_streams w \<Longrightarrow> streams (wi_string w)"
  by (simp_all add: wire_streams_def)

lemmas flows_simps = flows_def streams_arms streams_readers

lemma merges_flow:
  assumes "wire_streams w"
  shows "flows (identity_merge w)" "flows (kad_merge w)" "flows (autonat_merge w)" "flows (hop_merge w)" "flows (stop_merge w)"
    "flows (punch_merge w)"
  using assms
  by (simp_all add: identity_merge_def kad_merge_def autonat_merge_def hop_merge_def stop_merge_def punch_merge_def flows_simps)

section \<open>Concatenation\<close>

lemma merge_from_append:
  assumes "wire_law w" and "wire_streams w" and "takes f" and "flows f" and "merge_from w f m a = Inr m1"
  shows "merge_from w f m (a @ b) = merge_from w f m1 b"
  using assms(5)
proof (induction a arbitrary: m rule: length_induct)
  case (1 a)
  have loop: "merge_from w f m b = and_then (wi_tag w b) (\<lambda>next. case next of None \<Rightarrow> Inr m
           | Some (tag, b) \<Rightarrow> and_then (f tag m b) (\<lambda>(m, b). merge_from w f m b))" for m b
    using merge_from_loop [OF assms(1,3)] by (simp add: runs_as_loop_def)
  from 1(2) loop [of m a] obtain nx where n: "wi_tag w a = Inr nx" by (auto simp: and_then_Inr_iff)
  show ?case
  proof (cases nx)
    case None
    with n assms(2) have "a = []" by (simp add: wire_streams_def)
    with 1(2) loop [of m a] n None show ?thesis by simp
  next
    case (Some x)
    then obtain tag r where x: "nx = Some (tag, r)" by (cases x) auto
    with 1(2) loop [of m a] n obtain m2 r2 where s: "f tag m r = Inr (m2, r2)" "merge_from w f m2 r2 = Inr m1"
      by (auto simp: and_then_Inr_iff)
    have "length r2 \<le> length r" using s(1) assms(3) unfolding takes_def shrinks_def by blast
    moreover have "length r < length a" using n x assms(1) unfolding wire_law_def by blast
    ultimately have ih: "merge_from w f m2 (r2 @ b) = merge_from w f m1 b" using 1(1) s(2) by simp
    have "wi_tag w (a @ b) = Inr (Some (tag, r @ b))" using n x assms(2) unfolding wire_streams_def by blast
    moreover have "f tag m (r @ b) = Inr (m2, r2 @ b)" using s(1) assms(4) unfolding flows_def streams_def by blast
    ultimately show ?thesis using loop [of m "a @ b"] ih by simp
  qed
qed

section \<open>Fields of a newer version\<close>

text \<open>Fields whose tags are none of \<open>known\<close>, each of which the runtime can skip.\<close>

inductive unknown_fields :: "wire \<Rightarrow> nat set \<Rightarrow> bytes \<Rightarrow> bool" for w known where
  no_field: "unknown_fields w known []"
| one_field: "unknown_fields w known b"
    if "wi_tag w b = Inr (Some (tag, t))" "tag \<notin> known" "wi_unknown w tag t = Inr r" "unknown_fields w known r"

lemma merge_unknown:
  assumes "wire_law w" and "takes f" and "\<And>tag m. tag \<notin> known \<Longrightarrow> f tag m = skip_field w tag m" and "unknown_fields w known b"
  shows "merge_from w f m b = Inr m"
proof -
  have loop: "merge_from w f m b = and_then (wi_tag w b) (\<lambda>next. case next of None \<Rightarrow> Inr m
           | Some (tag, b) \<Rightarrow> and_then (f tag m b) (\<lambda>(m, b). merge_from w f m b))" for b
    using merge_from_loop [OF assms(1,2)] by (simp add: runs_as_loop_def)
  from assms(4) show ?thesis
  proof (induction rule: unknown_fields.induct)
    case no_field
    have "wi_tag w [] = Inr None" using assms(1) by (simp add: wire_law_def)
    with loop [of "[]"] show ?case by simp
  next
    case (one_field b tag t r)
    with loop [of b] assms(3) show ?case by (simp add: skip_field_def)
  qed
qed

definition reads_newer :: "wire \<Rightarrow> nat set \<Rightarrow> ('m \<Rightarrow> string + bytes) \<Rightarrow> (bytes \<Rightarrow> string + 'm) \<Rightarrow> bool" where
  "reads_newer w known wr parse \<longleftrightarrow>
     (\<forall>m buf extra. wr m = Inr buf \<longrightarrow> unknown_fields w known extra \<longrightarrow> parse (buf @ extra) = Inr m)"

lemma reads_newerI:
  assumes "wire_law w" and "wire_streams w" and "takes f" and "flows f"
    and "\<And>tag m. tag \<notin> known \<Longrightarrow> f tag m = skip_field w tag m"
    and "\<And>m. good m \<Longrightarrow> compute_size m < 2 ^ 32 \<Longrightarrow> reads w f (write m) new m \<and> length (write m) = compute_size m"
  shows "reads_newer w known (write_to_bytes w good initialized compute_size write) (parse_from_bytes w f initialized new)"
  unfolding reads_newer_def
proof (intro allI impI)
  fix m buf extra
  assume wr: "write_to_bytes w good initialized compute_size write m = Inr buf" and extra: "unknown_fields w known extra"
  from write_to_bytesD [OF assms(1) wr] assms(6) have "reads w f buf new m" "initialized m" by auto
  from reads_merge [OF this(1)] have "merge_from w f new (buf @ extra) = merge_from w f m extra"
    by (rule merge_from_append [OF assms(1-4)])
  also have "\<dots> = Inr m" by (rule merge_unknown [OF assms(1,3,5) extra])
  finally have "merge_from w f new (buf @ extra) = Inr m" .
  moreover have "w_check w True = Inr ()" using assms(1) by (simp add: wire_law_def)
  ultimately show "parse_from_bytes w f initialized new (buf @ extra) = Inr m" using \<open>initialized m\<close> by (simp add: parse_from_bytes_def)
qed

text \<open>C22: A newer version of a protocol may have fields that this one does not know. Whatever message this version could have written, with any
  fields of other numbers after it, is read as that message: the identify message, the messages of Kademlia and of AutoNAT, the hop and the stop messages
  of the relay and the message of hole punching.\<close>

theorem newer_peers_understood:
  assumes "wire_law w" and "wire_streams w"
  shows "reads_newer w {10, 18, 26, 34, 42, 50, 66} (wr_identity (generated_identity w ik)) (parse_identity (generated_identity w ik)) \<and>
    reads_newer w {8, 18, 26, 66, 74, 80} (kc_wr (generated_kad w kk)) (kc_parse (generated_kad w kk)) \<and>
    reads_newer w {8, 18, 26} (an_wr (generated_autonat w ak)) (an_parse (generated_autonat w ak)) \<and>
    reads_newer w {8, 18, 26, 34, 40} (cc_wr_hop (generated_circuit w ck)) (cc_parse_hop (generated_circuit w ck)) \<and>
    reads_newer w {8, 18, 26, 32} (cc_wr_stop (generated_circuit w ck)) (cc_parse_stop (generated_circuit w ck)) \<and>
    reads_newer w {8, 18} (cc_wr_punch (generated_circuit w ck)) (cc_parse_punch (generated_circuit w ck))"
proof (intro conjI)
  note I = reads_newerI [OF assms]
  note t = identity_takes kad_takes autonat_takes hop_takes stop_takes punch_takes
  show "reads_newer w {10, 18, 26, 34, 42, 50, 66} (wr_identity (generated_identity w ik)) (parse_identity (generated_identity w ik))"
    by (simp add: generated_identity_def, rule I) (simp_all add: t merges_flow assms identity_codec identity_merge_def)
  show "reads_newer w {8, 18, 26, 66, 74, 80} (kc_wr (generated_kad w kk)) (kc_parse (generated_kad w kk))"
    by (simp add: generated_kad_def, rule I) (simp_all add: t merges_flow assms kad_codec kad_merge_def)
  show "reads_newer w {8, 18, 26} (an_wr (generated_autonat w ak)) (an_parse (generated_autonat w ak))"
    by (simp add: generated_autonat_def, rule I) (simp_all add: t merges_flow assms autonat_codec autonat_merge_def)
  show "reads_newer w {8, 18, 26, 34, 40} (cc_wr_hop (generated_circuit w ck)) (cc_parse_hop (generated_circuit w ck))"
    by (simp add: generated_circuit_def, rule I) (simp_all add: t merges_flow assms hop_codec hop_merge_def)
  show "reads_newer w {8, 18, 26, 32} (cc_wr_stop (generated_circuit w ck)) (cc_parse_stop (generated_circuit w ck))"
    by (simp add: generated_circuit_def, rule I) (simp_all add: t merges_flow assms stop_codec stop_merge_def)
  show "reads_newer w {8, 18} (cc_wr_punch (generated_circuit w ck)) (cc_parse_punch (generated_circuit w ck))"
    by (simp add: generated_circuit_def, rule I) (simp_all add: t merges_flow assms punch_codec punch_merge_def)
qed

section \<open>The encoding\<close>

lemma unleb_append: "unleb a = Inr (n, r) \<Longrightarrow> unleb (a @ b) = Inr (n, r @ b)"
  by (induction a arbitrary: n) (auto split: if_splits sum.splits)

lemma std_body_append:
  assumes "std_body a = Inr (v, r)"
  shows "std_body (a @ b) = Inr (v, r @ b)"
proof -
  from assms obtain n c where "unleb a = Inr (n, c)" "n \<le> length c" "v = take n c" "r = drop n c"
    by (auto simp: std_body_def and_then_Inr_iff split: if_splits)
  then show ?thesis by (simp add: std_body_def unleb_append)
qed

lemma std_streams:
  "streams (std_varint :: bytes \<Rightarrow> string + 'a::len word \<times> bytes)" "streams std_body" "streams std_string"
  by (auto simp: streams_def std_varint_def std_string_def and_then_Inr_iff unleb_append std_body_append)

lemma std_wire_streams: "wire_streams (std_wire g)"
proof -
  have "std_unknown tag (a @ b) = Inr (r @ b)" if "std_unknown tag a = Inr r" for tag a b r
    using that std_streams(2)
    by (auto simp: std_unknown_def streams_def and_then_Inr_iff unleb_append split: if_splits)
  moreover have "std_next (a @ b) = Inr (Some (t, r @ b))" if "std_next a = Inr (Some (t, r))" for a b t r
    using that by (auto simp: std_next_def and_then_Inr_iff unleb_append split: if_splits)
  moreover have "a = []" if "std_next a = Inr None" for a
    using that by (auto simp: std_next_def and_then_Inr_iff split: if_splits)
  ultimately show ?thesis unfolding wire_streams_def by (simp add: std_streams)
qed

text \<open>A message of a future version: after the type and the addresses of hole punching, a string in field 9.\<close>

theorem newer_peers_understood_witness:
  "\<exists>buf. cc_wr_punch (generated_circuit (std_wire True) (sample_codec [] [] [])) (punch_new\<lparr>hp_type := Some PunchSync\<rparr>) = Inr buf \<and>
     cc_parse_punch (generated_circuit (std_wire True) (sample_codec [] [] [])) (buf @ [74, 2, 120, 121]) = Inr (punch_new\<lparr>hp_type := Some PunchSync\<rparr>)"
proof -
  have "unknown_fields (std_wire True) {8, 18} [74, 2, 120, 121]"
    by (rule unknown_fields.one_field [where tag = 74 and t = "[2, 120, 121]" and r = "[]"])
      (simp_all add: std_next_def std_unknown_def std_body_def unknown_fields.no_field)
  moreover have "reads_newer (std_wire True) {8, 18} (cc_wr_punch (generated_circuit (std_wire True) (sample_codec [] [] [])))
      (cc_parse_punch (generated_circuit (std_wire True) (sample_codec [] [] [])))"
    using newer_peers_understood [OF std_wire_law std_wire_streams, of True] by blast
  moreover obtain buf where "cc_wr_punch (generated_circuit (std_wire True) (sample_codec [] [] [])) (punch_new\<lparr>hp_type := Some PunchSync\<rparr>) = Inr buf"
    by (simp add: generated_circuit_def write_to_bytes_def punch_typed_def punch_initialized_def punch_new_def punch_size_def
        punch_type_of_def punch_type_value_def std_int32_def leb.simps)
  ultimately show ?thesis unfolding reads_newer_def by blast
qed

end
