(* ===== verification/ProtoFields.thy ===== *)
theory ProtoFields
  imports IdentityProto KadProto AutonatProto CircuitProto
begin

text \<open>
  The rest of what the generated modules offer for their messages: \<open>clear\<close> and the default instance, the names of the enums,
     and the accessors of
  the optional fields. The stack itself builds and takes apart its messages by their fields and calls \<open>status\<close> only.
\<close>

section \<open>\<open>clear\<close> and \<open>default_instance\<close>\<close>

definition identity_clear :: "identity_msg \<Rightarrow> identity_msg" where
  "identity_clear m = m\<lparr>im_protocol_version := None, im_agent_version := None, im_public_key := None, im_listen_addrs := [],
     im_observed_addr := None, im_protocols := [], im_signed_record := None\<rparr>"

definition identity_default :: identity_msg where
  "identity_default = \<lparr>im_protocol_version = None, im_agent_version = None, im_public_key = None, im_listen_addrs = [],
     im_observed_addr = None, im_protocols = [], im_signed_record = None\<rparr>"

definition record_clear :: "kad_record \<Rightarrow> kad_record" where
  "record_clear m = m\<lparr>kr_key := [], kr_value := [], kr_time := []\<rparr>"

definition record_default :: kad_record where
  "record_default = \<lparr>kr_key = [], kr_value = [], kr_time = []\<rparr>"

definition kad_clear :: "kad_message \<Rightarrow> kad_message" where
  "kad_clear m = m\<lparr>km_type := PUT_VALUE, km_cluster_level := 0, km_key := [], km_record := None, km_closer := [],
     km_provider := []\<rparr>"

definition kad_default :: kad_message where
  "kad_default = \<lparr>km_type = message_type_of 0, km_cluster_level = 0, km_key = [], km_record = None, km_closer = [],
     km_provider = []\<rparr>"

definition kad_peer_clear :: "kad_peer \<Rightarrow> kad_peer" where
  "kad_peer_clear m = m\<lparr>kp_id := [], kp_addrs := [], kp_connection := NOT_CONNECTED\<rparr>"

definition kad_peer_default :: kad_peer where
  "kad_peer_default = \<lparr>kp_id = [], kp_addrs = [], kp_connection = connection_type_of 0\<rparr>"

definition autonat_clear :: "autonat_msg \<Rightarrow> autonat_msg" where
  "autonat_clear m = m\<lparr>am_type := None, am_dial := None, am_response := None\<rparr>"

definition autonat_default :: autonat_msg where
  "autonat_default = \<lparr>am_type = None, am_dial = None, am_response = None\<rparr>"

definition autonat_peer_clear :: "autonat_peer \<Rightarrow> autonat_peer" where
  "autonat_peer_clear m = m\<lparr>ap_id := None, ap_addrs := []\<rparr>"

definition autonat_peer_default :: autonat_peer where
  "autonat_peer_default = \<lparr>ap_id = None, ap_addrs = []\<rparr>"

definition dial_clear :: "dial_field \<Rightarrow> dial_field" where
  "dial_clear m = m\<lparr>di_peer := None\<rparr>"

definition dial_default :: dial_field where
  "dial_default = \<lparr>di_peer = None\<rparr>"

definition dial_response_clear :: "dial_response \<Rightarrow> dial_response" where
  "dial_response_clear m = m\<lparr>dr_status := None, dr_text := None, dr_addr := None\<rparr>"

definition dial_response_default :: dial_response where
  "dial_response_default = \<lparr>dr_status = None, dr_text = None, dr_addr = None\<rparr>"

definition voucher_clear :: "voucher \<Rightarrow> voucher" where
  "voucher_clear m = m\<lparr>vo_relay := None, vo_peer := None, vo_expiration := None\<rparr>"

definition voucher_default :: voucher where
  "voucher_default = \<lparr>vo_relay = None, vo_peer = None, vo_expiration = None\<rparr>"

definition hop_clear :: "hop_message \<Rightarrow> hop_message" where
  "hop_clear m = m\<lparr>hm_type := None, hm_peer := None, hm_reservation := None, hm_limit := None, hm_status := None\<rparr>"

definition hop_default :: hop_message where
  "hop_default = \<lparr>hm_type = None, hm_peer = None, hm_reservation = None, hm_limit = None, hm_status = None\<rparr>"

definition stop_clear :: "stop_message \<Rightarrow> stop_message" where
  "stop_clear m = m\<lparr>sm_type := None, sm_peer := None, sm_limit := None, sm_status := None\<rparr>"

definition stop_default :: stop_message where
  "stop_default = \<lparr>sm_type = None, sm_peer = None, sm_limit = None, sm_status = None\<rparr>"

definition peer_clear :: "peer_field \<Rightarrow> peer_field" where
  "peer_clear m = m\<lparr>pf_id := None, pf_addrs := []\<rparr>"

definition peer_default :: peer_field where
  "peer_default = \<lparr>pf_id = None, pf_addrs = []\<rparr>"

definition reservation_clear :: "reservation_field \<Rightarrow> reservation_field" where
  "reservation_clear m = m\<lparr>rf_expire := None, rf_addrs := [], rf_voucher := None\<rparr>"

definition reservation_default :: reservation_field where
  "reservation_default = \<lparr>rf_expire = None, rf_addrs = [], rf_voucher = None\<rparr>"

definition limit_clear :: "limit_field \<Rightarrow> limit_field" where
  "limit_clear m = m\<lparr>lf_duration := None, lf_data := None\<rparr>"

definition limit_default :: limit_field where
  "limit_default = \<lparr>lf_duration = None, lf_data = None\<rparr>"

definition punch_clear :: "hole_punch \<Rightarrow> hole_punch" where
  "punch_clear m = m\<lparr>hp_type := None, hp_obs_addrs := []\<rparr>"

definition punch_default :: hole_punch where
  "punch_default = \<lparr>hp_type = None, hp_obs_addrs = []\<rparr>"

text \<open>A cleared message is the default one,
     which is a new one: what is merged into it is what \<open>parse_from_bytes\<close> reads.\<close>

lemma cleared_messages:
  "identity_clear m0 = identity_default" "identity_default = identity_new"
  "record_clear m1 = record_default" "record_default = record_new"
  "kad_clear m2 = kad_default" "kad_default = kad_new"
  "kad_peer_clear m3 = kad_peer_default" "kad_peer_default = kad_peer_new"
  "autonat_clear m4 = autonat_default" "autonat_default = autonat_new"
  "autonat_peer_clear m5 = autonat_peer_default" "autonat_peer_default = autonat_peer_new"
  "dial_clear m6 = dial_default" "dial_default = dial_new"
  "dial_response_clear m7 = dial_response_default" "dial_response_default = dial_response_new"
  "voucher_clear m8 = voucher_default" "voucher_default = voucher_new"
  "hop_clear m9 = hop_default" "hop_default = hop_new"
  "stop_clear m10 = stop_default" "stop_default = stop_new"
  "peer_clear m11 = peer_default" "peer_default = peer_new"
  "reservation_clear m12 = reservation_default" "reservation_default = reservation_new"
  "limit_clear m13 = limit_default" "limit_default = limit_new"
  "punch_clear m14 = punch_default" "punch_default = punch_new"
  by (simp_all add: identity_clear_def identity_default_def identity_new_def record_clear_def record_default_def record_new_def kad_clear_def kad_default_def kad_new_def kad_peer_clear_def kad_peer_default_def kad_peer_new_def autonat_clear_def autonat_default_def autonat_new_def autonat_peer_clear_def autonat_peer_default_def autonat_peer_new_def dial_clear_def dial_default_def dial_new_def dial_response_clear_def dial_response_default_def dial_response_new_def voucher_clear_def voucher_default_def voucher_new_def hop_clear_def hop_default_def hop_new_def stop_clear_def stop_default_def stop_new_def peer_clear_def peer_default_def peer_new_def reservation_clear_def reservation_default_def reservation_new_def limit_clear_def limit_default_def limit_new_def punch_clear_def punch_default_def punch_new_def message_type_of_def connection_type_of_def)

section \<open>The names of the enums\<close>

definition message_type_from_str :: "string \<Rightarrow> message_type option" where
  "message_type_from_str s =
     (if s = ''PUT_VALUE'' then Some PUT_VALUE
      else if s = ''GET_VALUE'' then Some GET_VALUE
      else if s = ''ADD_PROVIDER'' then Some ADD_PROVIDER
      else if s = ''GET_PROVIDERS'' then Some GET_PROVIDERS
      else if s = ''FIND_NODE'' then Some FIND_NODE
      else if s = ''PING'' then Some PING else None)"

definition connection_type_from_str :: "string \<Rightarrow> connection_type option" where
  "connection_type_from_str s =
     (if s = ''NOT_CONNECTED'' then Some NOT_CONNECTED
      else if s = ''CONNECTED'' then Some CONNECTED
      else if s = ''CAN_CONNECT'' then Some CAN_CONNECT
      else if s = ''CANNOT_CONNECT'' then Some CANNOT_CONNECT else None)"

definition autonat_type_from_str :: "string \<Rightarrow> autonat_type option" where
  "autonat_type_from_str s =
     (if s = ''DIAL'' then Some DIAL
      else if s = ''DIAL_RESPONSE'' then Some DIAL_RESPONSE else None)"

definition dial_status_from_str :: "string \<Rightarrow> dial_status option" where
  "dial_status_from_str s =
     (if s = ''OK'' then Some StatusOK
      else if s = ''E_DIAL_ERROR'' then Some E_DIAL_ERROR
      else if s = ''E_DIAL_REFUSED'' then Some E_DIAL_REFUSED
      else if s = ''E_BAD_REQUEST'' then Some E_BAD_REQUEST
      else if s = ''E_INTERNAL_ERROR'' then Some E_INTERNAL_ERROR else None)"

definition hop_type_from_str :: "string \<Rightarrow> hop_type option" where
  "hop_type_from_str s =
     (if s = ''RESERVE'' then Some HopReserve
      else if s = ''CONNECT'' then Some HopConnect
      else if s = ''STATUS'' then Some HopStatus else None)"

definition stop_type_from_str :: "string \<Rightarrow> stop_type option" where
  "stop_type_from_str s =
     (if s = ''CONNECT'' then Some StopConnect
      else if s = ''STATUS'' then Some StopStatus else None)"

definition status_from_str :: "string \<Rightarrow> circuit_status option" where
  "status_from_str s =
     (if s = ''UNUSED'' then Some UNUSED
      else if s = ''OK'' then Some StOK
      else if s = ''RESERVATION_REFUSED'' then Some RESERVATION_REFUSED
      else if s = ''RESOURCE_LIMIT_EXCEEDED'' then Some RESOURCE_LIMIT_EXCEEDED
      else if s = ''PERMISSION_DENIED'' then Some PERMISSION_DENIED
      else if s = ''CONNECTION_FAILED'' then Some CONNECTION_FAILED
      else if s = ''NO_RESERVATION'' then Some NO_RESERVATION
      else if s = ''MALFORMED_MESSAGE'' then Some MALFORMED_MESSAGE
      else if s = ''UNEXPECTED_MESSAGE'' then Some UNEXPECTED_MESSAGE else None)"

definition punch_type_from_str :: "string \<Rightarrow> punch_type option" where
  "punch_type_from_str s =
     (if s = ''CONNECT'' then Some PunchConnect
      else if s = ''SYNC'' then Some PunchSync else None)"

text \<open>The names are those of the numbers that have one.\<close>

lemma message_type_from_str_names:
  "message_type_from_str ''PUT_VALUE'' = Some PUT_VALUE" "message_type_from_str ''GET_VALUE'' = Some GET_VALUE"
  "message_type_from_str ''ADD_PROVIDER'' = Some ADD_PROVIDER" "message_type_from_str ''GET_PROVIDERS'' = Some GET_PROVIDERS"
  "message_type_from_str ''FIND_NODE'' = Some FIND_NODE" "message_type_from_str ''PING'' = Some PING"
  by (simp_all add: message_type_from_str_def)

lemma message_type_from_str_iff: "(\<exists>s. message_type_from_str s = Some t) \<longleftrightarrow> (\<forall>v. t \<noteq> OtherMessage v)"
proof
  show "\<forall>v. t \<noteq> OtherMessage v" if "\<exists>s. message_type_from_str s = Some t" using that by (auto simp: message_type_from_str_def split: if_splits)
  show "\<exists>s. message_type_from_str s = Some t" if "\<forall>v. t \<noteq> OtherMessage v" using that message_type_from_str_names by (cases t) blast+
qed

lemma connection_type_from_str_names:
  "connection_type_from_str ''NOT_CONNECTED'' = Some NOT_CONNECTED" "connection_type_from_str ''CONNECTED'' = Some CONNECTED"
  "connection_type_from_str ''CAN_CONNECT'' = Some CAN_CONNECT" "connection_type_from_str ''CANNOT_CONNECT'' = Some CANNOT_CONNECT"
  by (simp_all add: connection_type_from_str_def)

lemma connection_type_from_str_iff: "(\<exists>s. connection_type_from_str s = Some t) \<longleftrightarrow> (\<forall>v. t \<noteq> OtherConnection v)"
proof
  show "\<forall>v. t \<noteq> OtherConnection v" if "\<exists>s. connection_type_from_str s = Some t" using that by (auto simp: connection_type_from_str_def split: if_splits)
  show "\<exists>s. connection_type_from_str s = Some t" if "\<forall>v. t \<noteq> OtherConnection v" using that connection_type_from_str_names by (cases t) blast+
qed

lemma autonat_type_from_str_names:
  "autonat_type_from_str ''DIAL'' = Some DIAL" "autonat_type_from_str ''DIAL_RESPONSE'' = Some DIAL_RESPONSE"
  by (simp_all add: autonat_type_from_str_def)

lemma autonat_type_from_str_iff: "(\<exists>s. autonat_type_from_str s = Some t) \<longleftrightarrow> (\<forall>v. t \<noteq> OtherType v)"
proof
  show "\<forall>v. t \<noteq> OtherType v" if "\<exists>s. autonat_type_from_str s = Some t" using that by (auto simp: autonat_type_from_str_def split: if_splits)
  show "\<exists>s. autonat_type_from_str s = Some t" if "\<forall>v. t \<noteq> OtherType v" using that autonat_type_from_str_names by (cases t) blast+
qed

lemma dial_status_from_str_names:
  "dial_status_from_str ''OK'' = Some StatusOK" "dial_status_from_str ''E_DIAL_ERROR'' = Some E_DIAL_ERROR"
  "dial_status_from_str ''E_DIAL_REFUSED'' = Some E_DIAL_REFUSED" "dial_status_from_str ''E_BAD_REQUEST'' = Some E_BAD_REQUEST"
  "dial_status_from_str ''E_INTERNAL_ERROR'' = Some E_INTERNAL_ERROR"
  by (simp_all add: dial_status_from_str_def)

lemma dial_status_from_str_iff: "(\<exists>s. dial_status_from_str s = Some t) \<longleftrightarrow> (\<forall>v. t \<noteq> OtherStatus v)"
proof
  show "\<forall>v. t \<noteq> OtherStatus v" if "\<exists>s. dial_status_from_str s = Some t" using that by (auto simp: dial_status_from_str_def split: if_splits)
  show "\<exists>s. dial_status_from_str s = Some t" if "\<forall>v. t \<noteq> OtherStatus v" using that dial_status_from_str_names by (cases t) blast+
qed

lemma hop_type_from_str_names:
  "hop_type_from_str ''RESERVE'' = Some HopReserve" "hop_type_from_str ''CONNECT'' = Some HopConnect"
  "hop_type_from_str ''STATUS'' = Some HopStatus"
  by (simp_all add: hop_type_from_str_def)

lemma hop_type_from_str_iff: "(\<exists>s. hop_type_from_str s = Some t) \<longleftrightarrow> (\<forall>v. t \<noteq> HopOther v)"
proof
  show "\<forall>v. t \<noteq> HopOther v" if "\<exists>s. hop_type_from_str s = Some t" using that by (auto simp: hop_type_from_str_def split: if_splits)
  show "\<exists>s. hop_type_from_str s = Some t" if "\<forall>v. t \<noteq> HopOther v" using that hop_type_from_str_names by (cases t) blast+
qed

lemma stop_type_from_str_names:
  "stop_type_from_str ''CONNECT'' = Some StopConnect" "stop_type_from_str ''STATUS'' = Some StopStatus"
  by (simp_all add: stop_type_from_str_def)

lemma stop_type_from_str_iff: "(\<exists>s. stop_type_from_str s = Some t) \<longleftrightarrow> (\<forall>v. t \<noteq> StopOther v)"
proof
  show "\<forall>v. t \<noteq> StopOther v" if "\<exists>s. stop_type_from_str s = Some t" using that by (auto simp: stop_type_from_str_def split: if_splits)
  show "\<exists>s. stop_type_from_str s = Some t" if "\<forall>v. t \<noteq> StopOther v" using that stop_type_from_str_names by (cases t) blast+
qed

lemma status_from_str_names:
  "status_from_str ''UNUSED'' = Some UNUSED" "status_from_str ''OK'' = Some StOK"
  "status_from_str ''RESERVATION_REFUSED'' = Some RESERVATION_REFUSED"
  "status_from_str ''RESOURCE_LIMIT_EXCEEDED'' = Some RESOURCE_LIMIT_EXCEEDED"
  "status_from_str ''PERMISSION_DENIED'' = Some PERMISSION_DENIED" "status_from_str ''CONNECTION_FAILED'' = Some CONNECTION_FAILED"
  "status_from_str ''NO_RESERVATION'' = Some NO_RESERVATION" "status_from_str ''MALFORMED_MESSAGE'' = Some MALFORMED_MESSAGE"
  "status_from_str ''UNEXPECTED_MESSAGE'' = Some UNEXPECTED_MESSAGE"
  by (simp_all add: status_from_str_def)

lemma status_from_str_iff: "(\<exists>s. status_from_str s = Some t) \<longleftrightarrow> (\<forall>v. t \<noteq> StOther v)"
proof
  show "\<forall>v. t \<noteq> StOther v" if "\<exists>s. status_from_str s = Some t" using that by (auto simp: status_from_str_def split: if_splits)
  show "\<exists>s. status_from_str s = Some t" if "\<forall>v. t \<noteq> StOther v" using that status_from_str_names by (cases t) blast+
qed

lemma punch_type_from_str_names:
  "punch_type_from_str ''CONNECT'' = Some PunchConnect" "punch_type_from_str ''SYNC'' = Some PunchSync"
  by (simp_all add: punch_type_from_str_def)

lemma punch_type_from_str_iff: "(\<exists>s. punch_type_from_str s = Some t) \<longleftrightarrow> (\<forall>v. t \<noteq> PunchOther v)"
proof
  show "\<forall>v. t \<noteq> PunchOther v" if "\<exists>s. punch_type_from_str s = Some t" using that by (auto simp: punch_type_from_str_def split: if_splits)
  show "\<exists>s. punch_type_from_str s = Some t" if "\<forall>v. t \<noteq> PunchOther v" using that punch_type_from_str_names by (cases t) blast+
qed

section \<open>The accessors of the optional fields\<close>

text \<open>
  Reading a field with its default, clearing, testing and setting it; for strings and bytes also the pointer to the field,
     as a change through
  it, and taking it out of the message. The pointer to an absent field makes it present first. An enum number without a name reads as the default.
\<close>

record ('m, 'v) accessor =
  ac_get :: "'m \<Rightarrow> 'v"
  ac_clear :: "'m \<Rightarrow> 'm"
  ac_has :: "'m \<Rightarrow> bool"
  ac_set :: "'v \<Rightarrow> 'm \<Rightarrow> 'm"

record ('m, 'v) mut_accessor = "('m, 'v) accessor" +
  ac_mut :: "('v \<Rightarrow> 'v) \<Rightarrow> 'm \<Rightarrow> 'm"
  ac_take :: "'m \<Rightarrow> 'v \<times> 'm"

text \<open>What the accessors of one field promise together.\<close>

locale accessor_laws =
  fixes a :: "('m, 'v, 'e) accessor_scheme" and absent :: 'v and named :: "'v \<Rightarrow> bool"
  assumes get_set: "named v \<Longrightarrow> ac_get a (ac_set a v m) = v"
    and has_set: "ac_has a (ac_set a v m)"
    and has_clear: "\<not> ac_has a (ac_clear a m)"
    and set_set: "ac_set a u (ac_set a v m) = ac_set a u m"
    and set_clear: "ac_set a v (ac_clear a m) = ac_set a v m"
    and clear_set: "ac_clear a (ac_set a v m) = ac_clear a m"
    and get_absent: "\<not> ac_has a m \<Longrightarrow> ac_get a m = absent"
    and clear_absent: "\<not> ac_has a m \<Longrightarrow> ac_clear a m = m"
begin

lemma clear_twice: "ac_clear a (ac_clear a m) = ac_clear a m"
  by (rule clear_absent [OF has_clear])

lemma get_clear: "ac_get a (ac_clear a m) = absent"
  by (rule get_absent [OF has_clear])

lemma last_set: "vs \<noteq> [] \<Longrightarrow> fold (ac_set a) vs m = ac_set a (last vs) m"
  by (induction vs rule: rev_nonempty_induct) (simp_all add: set_set)

end

locale mut_accessor_laws = accessor_laws a absent "\<lambda>_. True"
  for a :: "('m, 'v) mut_accessor" and absent :: 'v +
  assumes mut_set: "ac_mut a f m = ac_set a (f (ac_get a m)) m"
    and take_parts: "ac_take a m = (ac_get a m, ac_clear a m)"
begin

lemma mut_makes_present: "ac_has a (ac_mut a f m)"
  by (simp add: mut_set has_set)

lemma mut_twice: "ac_mut a g (ac_mut a f m) = ac_mut a (g \<circ> f) m"
  by (simp add: mut_set get_set set_set)

lemma take_set: "ac_take a (ac_set a v m) = (v, ac_clear a m)"
  by (simp add: take_parts get_set clear_set)

lemma take_twice: "ac_take a (snd (ac_take a m)) = (absent, snd (ac_take a m))"
  by (simp add: take_parts get_clear clear_twice)

lemma put_back: "ac_take a m = (v, m') \<Longrightarrow> ac_has a m \<Longrightarrow> ac_set a v m = m \<Longrightarrow> ac_set a v m' = m"
  by (auto simp: take_parts set_clear)

end


definition identity_protocolVersion :: "(identity_msg, string) mut_accessor" where
  "identity_protocolVersion = \<lparr>
     ac_get = (\<lambda>m. case im_protocol_version m of Some v \<Rightarrow> v | None \<Rightarrow> []),
     ac_clear = (\<lambda>m. m\<lparr>im_protocol_version := None\<rparr>),
     ac_has = (\<lambda>m. im_protocol_version m \<noteq> None),
     ac_set = (\<lambda>v m. m\<lparr>im_protocol_version := Some v\<rparr>),
     ac_mut = (\<lambda>f m. let m = (if im_protocol_version m = None then m\<lparr>im_protocol_version := Some []\<rparr> else m)
        in m\<lparr>im_protocol_version := map_option f (im_protocol_version m)\<rparr>),
     ac_take = (\<lambda>m. (case im_protocol_version m of Some v \<Rightarrow> v | None \<Rightarrow> [],
     m\<lparr>im_protocol_version := None\<rparr>))\<rparr>"

interpretation identity_protocolVersion_field: mut_accessor_laws identity_protocolVersion "[]"
  by unfold_locales (auto simp: identity_protocolVersion_def Let_def split: option.splits)

definition identity_agentVersion :: "(identity_msg, string) mut_accessor" where
  "identity_agentVersion = \<lparr>
     ac_get = (\<lambda>m. case im_agent_version m of Some v \<Rightarrow> v | None \<Rightarrow> []),
     ac_clear = (\<lambda>m. m\<lparr>im_agent_version := None\<rparr>),
     ac_has = (\<lambda>m. im_agent_version m \<noteq> None),
     ac_set = (\<lambda>v m. m\<lparr>im_agent_version := Some v\<rparr>),
     ac_mut = (\<lambda>f m. let m = (if im_agent_version m = None then m\<lparr>im_agent_version := Some []\<rparr> else m)
        in m\<lparr>im_agent_version := map_option f (im_agent_version m)\<rparr>),
     ac_take = (\<lambda>m. (case im_agent_version m of Some v \<Rightarrow> v | None \<Rightarrow> [],
     m\<lparr>im_agent_version := None\<rparr>))\<rparr>"

interpretation identity_agentVersion_field: mut_accessor_laws identity_agentVersion "[]"
  by unfold_locales (auto simp: identity_agentVersion_def Let_def split: option.splits)

definition identity_publicKey :: "(identity_msg, bytes) mut_accessor" where
  "identity_publicKey = \<lparr>
     ac_get = (\<lambda>m. case im_public_key m of Some v \<Rightarrow> v | None \<Rightarrow> []),
     ac_clear = (\<lambda>m. m\<lparr>im_public_key := None\<rparr>),
     ac_has = (\<lambda>m. im_public_key m \<noteq> None),
     ac_set = (\<lambda>v m. m\<lparr>im_public_key := Some v\<rparr>),
     ac_mut = (\<lambda>f m. let m = (if im_public_key m = None then m\<lparr>im_public_key := Some []\<rparr> else m)
        in m\<lparr>im_public_key := map_option f (im_public_key m)\<rparr>),
     ac_take = (\<lambda>m. (case im_public_key m of Some v \<Rightarrow> v | None \<Rightarrow> [],
     m\<lparr>im_public_key := None\<rparr>))\<rparr>"

interpretation identity_publicKey_field: mut_accessor_laws identity_publicKey "[]"
  by unfold_locales (auto simp: identity_publicKey_def Let_def split: option.splits)

definition identity_observedAddr :: "(identity_msg, bytes) mut_accessor" where
  "identity_observedAddr = \<lparr>
     ac_get = (\<lambda>m. case im_observed_addr m of Some v \<Rightarrow> v | None \<Rightarrow> []),
     ac_clear = (\<lambda>m. m\<lparr>im_observed_addr := None\<rparr>),
     ac_has = (\<lambda>m. im_observed_addr m \<noteq> None),
     ac_set = (\<lambda>v m. m\<lparr>im_observed_addr := Some v\<rparr>),
     ac_mut = (\<lambda>f m. let m = (if im_observed_addr m = None then m\<lparr>im_observed_addr := Some []\<rparr> else m)
        in m\<lparr>im_observed_addr := map_option f (im_observed_addr m)\<rparr>),
     ac_take = (\<lambda>m. (case im_observed_addr m of Some v \<Rightarrow> v | None \<Rightarrow> [],
     m\<lparr>im_observed_addr := None\<rparr>))\<rparr>"

interpretation identity_observedAddr_field: mut_accessor_laws identity_observedAddr "[]"
  by unfold_locales (auto simp: identity_observedAddr_def Let_def split: option.splits)

definition identity_signedPeerRecord :: "(identity_msg, bytes) mut_accessor" where
  "identity_signedPeerRecord = \<lparr>
     ac_get = (\<lambda>m. case im_signed_record m of Some v \<Rightarrow> v | None \<Rightarrow> []),
     ac_clear = (\<lambda>m. m\<lparr>im_signed_record := None\<rparr>),
     ac_has = (\<lambda>m. im_signed_record m \<noteq> None),
     ac_set = (\<lambda>v m. m\<lparr>im_signed_record := Some v\<rparr>),
     ac_mut = (\<lambda>f m. let m = (if im_signed_record m = None then m\<lparr>im_signed_record := Some []\<rparr> else m)
        in m\<lparr>im_signed_record := map_option f (im_signed_record m)\<rparr>),
     ac_take = (\<lambda>m. (case im_signed_record m of Some v \<Rightarrow> v | None \<Rightarrow> [],
     m\<lparr>im_signed_record := None\<rparr>))\<rparr>"

interpretation identity_signedPeerRecord_field: mut_accessor_laws identity_signedPeerRecord "[]"
  by unfold_locales (auto simp: identity_signedPeerRecord_def Let_def split: option.splits)

definition autonat_type_access :: "(autonat_msg, autonat_type) accessor" where
  "autonat_type_access = \<lparr>
     ac_get = (\<lambda>m. case am_type m of Some v \<Rightarrow> (case v of OtherType _ \<Rightarrow> DIAL | _ \<Rightarrow> v) | None \<Rightarrow> DIAL),
     ac_clear = (\<lambda>m. m\<lparr>am_type := None\<rparr>),
     ac_has = (\<lambda>m. am_type m \<noteq> None),
     ac_set = (\<lambda>v m. m\<lparr>am_type := Some v\<rparr>)\<rparr>"

interpretation autonat_type_access_field: accessor_laws autonat_type_access DIAL "\<lambda>v. \<forall>n. v \<noteq> OtherType n"
  by unfold_locales (auto simp: autonat_type_access_def split: autonat_type.splits)

definition autonat_peer_id :: "(autonat_peer, bytes) mut_accessor" where
  "autonat_peer_id = \<lparr>
     ac_get = (\<lambda>m. case ap_id m of Some v \<Rightarrow> v | None \<Rightarrow> []),
     ac_clear = (\<lambda>m. m\<lparr>ap_id := None\<rparr>),
     ac_has = (\<lambda>m. ap_id m \<noteq> None),
     ac_set = (\<lambda>v m. m\<lparr>ap_id := Some v\<rparr>),
     ac_mut = (\<lambda>f m. let m = (if ap_id m = None then m\<lparr>ap_id := Some []\<rparr> else m)
        in m\<lparr>ap_id := map_option f (ap_id m)\<rparr>),
     ac_take = (\<lambda>m. (case ap_id m of Some v \<Rightarrow> v | None \<Rightarrow> [], m\<lparr>ap_id := None\<rparr>))\<rparr>"

interpretation autonat_peer_id_field: mut_accessor_laws autonat_peer_id "[]"
  by unfold_locales (auto simp: autonat_peer_id_def Let_def split: option.splits)

definition dial_response_status :: "(dial_response, dial_status) accessor" where
  "dial_response_status = \<lparr>
     ac_get = (\<lambda>m. case dr_status m of Some v \<Rightarrow> (case v of OtherStatus _ \<Rightarrow> StatusOK | _ \<Rightarrow> v) | None \<Rightarrow> StatusOK),
     ac_clear = (\<lambda>m. m\<lparr>dr_status := None\<rparr>),
     ac_has = (\<lambda>m. dr_status m \<noteq> None),
     ac_set = (\<lambda>v m. m\<lparr>dr_status := Some v\<rparr>)\<rparr>"

interpretation dial_response_status_field: accessor_laws dial_response_status StatusOK "\<lambda>v. \<forall>n. v \<noteq> OtherStatus n"
  by unfold_locales (auto simp: dial_response_status_def split: dial_status.splits)

definition dial_response_statusText :: "(dial_response, string) mut_accessor" where
  "dial_response_statusText = \<lparr>
     ac_get = (\<lambda>m. case dr_text m of Some v \<Rightarrow> v | None \<Rightarrow> []),
     ac_clear = (\<lambda>m. m\<lparr>dr_text := None\<rparr>),
     ac_has = (\<lambda>m. dr_text m \<noteq> None),
     ac_set = (\<lambda>v m. m\<lparr>dr_text := Some v\<rparr>),
     ac_mut = (\<lambda>f m. let m = (if dr_text m = None then m\<lparr>dr_text := Some []\<rparr> else m)
        in m\<lparr>dr_text := map_option f (dr_text m)\<rparr>),
     ac_take = (\<lambda>m. (case dr_text m of Some v \<Rightarrow> v | None \<Rightarrow> [], m\<lparr>dr_text := None\<rparr>))\<rparr>"

interpretation dial_response_statusText_field: mut_accessor_laws dial_response_statusText "[]"
  by unfold_locales (auto simp: dial_response_statusText_def Let_def split: option.splits)

definition dial_response_addr :: "(dial_response, bytes) mut_accessor" where
  "dial_response_addr = \<lparr>
     ac_get = (\<lambda>m. case dr_addr m of Some v \<Rightarrow> v | None \<Rightarrow> []),
     ac_clear = (\<lambda>m. m\<lparr>dr_addr := None\<rparr>),
     ac_has = (\<lambda>m. dr_addr m \<noteq> None),
     ac_set = (\<lambda>v m. m\<lparr>dr_addr := Some v\<rparr>),
     ac_mut = (\<lambda>f m. let m = (if dr_addr m = None then m\<lparr>dr_addr := Some []\<rparr> else m)
        in m\<lparr>dr_addr := map_option f (dr_addr m)\<rparr>),
     ac_take = (\<lambda>m. (case dr_addr m of Some v \<Rightarrow> v | None \<Rightarrow> [], m\<lparr>dr_addr := None\<rparr>))\<rparr>"

interpretation dial_response_addr_field: mut_accessor_laws dial_response_addr "[]"
  by unfold_locales (auto simp: dial_response_addr_def Let_def split: option.splits)

definition punch_type_access :: "(hole_punch, punch_type) accessor" where
  "punch_type_access = \<lparr>
     ac_get = (\<lambda>m. case hp_type m of Some v \<Rightarrow> (case v of PunchOther _ \<Rightarrow> PunchConnect | _ \<Rightarrow> v) | None \<Rightarrow> PunchConnect),
     ac_clear = (\<lambda>m. m\<lparr>hp_type := None\<rparr>),
     ac_has = (\<lambda>m. hp_type m \<noteq> None),
     ac_set = (\<lambda>v m. m\<lparr>hp_type := Some v\<rparr>)\<rparr>"

interpretation punch_type_access_field: accessor_laws punch_type_access PunchConnect "\<lambda>v. \<forall>n. v \<noteq> PunchOther n"
  by unfold_locales (auto simp: punch_type_access_def split: punch_type.splits)

text \<open>The accessor that the client of AutoNAT uses.\<close>

lemma status_accessor: "response_status = ac_get dial_response_status"
  by (simp add: fun_eq_iff response_status_def dial_response_status_def split: option.split dial_status.split)

end
