(* ===== verification/Spec2Isabelle.thy ===== *)
theory Spec2Isabelle
  imports XorMetric KBucket KadRouter KadNode PeerBook ConnPool StreamDispatch EventMediator SwitchCore
    Autonat CircuitRpc X509 SecureConn DnsAddr CircuitNode CircuitStop StopServer Mdns SwitchRun
    NodeContext EventSource SecureStream Reachability IdentityProto EndToEnd TwoNodes KadProto AutonatProto CircuitProto ProtoCompat ProtoFields
begin

text \<open>
  A verification development for \<open>xstack\<close>, a libp2p network stack in Rust (\<open>src/crates\<close>).

  The program. A \<open>Switch\<close> (crate \<open>xstack\<close>) owns the node's key, a peer book, a connection pool, a dispatcher of inbound streams, an event
  mediator and a list of transports. It dials and listens through the transports (\<open>tcp\<close>, \<open>quic\<close>, \<open>dnsaddr\<close>, \<open>circuit\<close>, secured by \<open>tls\<close> and
  \<open>x509\<close>), runs the identify handshake on every new connection, and holds back the streams of a connection until its handshake has
  succeeded. Protocol crates use it as clients: \<open>kad\<close> (Kademlia lookups), \<open>autonat\<close> (is the node behind a NAT?), \<open>circuit\<close> (relayed
  connections, reservations and hole punching) and \<open>mdns\<close> (discovery on the link).

  Theories and code. Every theory imports what its component calls.
  \<^item> \<open>Prelude\<close>: results (\<open>Result\<close> is a sum, \<open>Inl\<close> the error), effectful calls \<open>act\<close>, checked indexing, hash maps with an iteration order.
  \<^item> \<open>Net_Types\<close>: peer ids, multiaddrs, errors, NAT state (\<open>xstack/src/errors.rs\<close>, \<open>multiaddr.rs\<close>, \<open>nat.rs\<close>, parts of \<open>transport.rs\<close>).
  \<^item> \<open>XorMetric\<close>, \<open>KBucket\<close>: \<open>kad/src/kbucket.rs\<close>; keys are 256-bit words, a bucket is a list with the least recently seen peer first, and
    the shared table is a step relation over the insertions and the background pings, which interleave.
  \<^item> \<open>KadRouter\<close>, \<open>KadNode\<close>: \<open>kad/src/router.rs\<close>, \<open>rpc.rs\<close>, \<open>store.rs\<close>, \<open>errors.rs\<close>; the search for the closest peers is a step machine with the
    calls that are under way, \<open>FIND_NODE\<close> is the algorithm that it runs.
  \<^item> \<open>PeerBook\<close>, \<open>Rpc\<close>, \<open>ConnPool\<close>, \<open>StreamDispatch\<close>, \<open>EventMediator\<close>: \<open>xstack/src/book.rs\<close>, \<open>rpc.rs\<close>, \<open>connector.rs\<close>, \<open>stream.rs\<close>, \<open>event.rs\<close>. The state behind
    each mutex is a record; a driver trait is a locale, interpreted on the operations of the model; runs are lists of calls.
  \<^item> \<open>SwitchCore\<close>, \<open>SwitchRun\<close>: \<open>xstack/src/switch\<close>; the first holds the operations (identify, handshake, options) and, as \<open>hs_run\<close>,
    the handshake at each of its awaits, where its timer can fire; the second the tasks
    of a running node over the shared state: incoming connections and streams, dialling, binding. \<open>NodeContext\<close>: the ids of listeners
    (\<open>xstack/src/lib.rs\<close>), the switch of the process (\<open>global.rs\<close>), the streams of a connection, pings, and the calls by which components use
    their switch. \<open>EventSource\<close>: the typed streams of events that components read, over the mediator and the ids.
  \<^item> \<open>X509\<close>, \<open>SecureConn\<close>, \<open>SecureStream\<close>: \<open>x509/src/lib.rs\<close>, \<open>xstack/src/keystore.rs\<close>, \<open>tls/src/lib.rs\<close>, \<open>tcp/src/lib.rs\<close>, \<open>quic/src/lib.rs\<close>.
    \<open>SecureStream\<close> adds the streams of secured connections and the life of handles and streams, as a step relation for both drivers.
  \<^item> \<open>DnsAddr\<close>, \<open>Mdns\<close>, \<open>Autonat\<close>: \<open>dnsaddr/src/lib.rs\<close>, \<open>mdns/src/lib.rs\<close>, \<open>autonat/src/client.rs\<close>.
  \<^item> \<open>CircuitRpc\<close>, \<open>CircuitNode\<close>, \<open>CircuitStop\<close>, \<open>StopServer\<close>: \<open>circuit/src/rpc.rs\<close>, \<open>transport.rs\<close> with \<open>protocols/dcutr.rs\<close> and the acceptance of relayed connections,
    and \<open>protocols/stop.rs\<close>, whose tasks are a step function over a list of their events;
    \<open>StopServer\<close> puts the accept loop, its handlers and the reservation client together. \<open>Reachability\<close> follows the addresses of a node
    behind a NAT from its reservations to the dials of others.
  \<^item> \<open>Protobuf\<close>, \<open>IdentityProto\<close>, \<open>KadProto\<close>, \<open>AutonatProto\<close>, \<open>CircuitProto\<close>: the generated messages (\<open>*/src/proto/*.rs\<close>): for each its reader, its
    size and its writer; \<open>ProtoCompat\<close>: fields of other versions; \<open>ProtoFields\<close>: clearing, the names of the enums, and the accessors of
    optional fields, whose laws are a locale interpreted on each. \<open>EndToEnd\<close> runs the handshake of the switch over their bytes,
    and \<open>TwoNodes\<close> puts transport, TLS, handshake and pool of two nodes together.

  What is a parameter. Code outside the repository: the protobuf runtime (\<open>wire\<close> with \<open>wire_law\<close>), varints, the encodings of ids, keys and
  addresses (the codec records with their laws), cryptography and DER (\<open>x509_env\<close>), TLS and QUIC libraries, sockets, name servers, the network.
  Random numbers, times, the order in which a hash map is iterated and the answers of peers are arguments. Every law is satisfied by a
  concrete instance: \<open>std_wire\<close> is protobuf's own encoding with LEB128 varints, the sample codecs and \<open>toy_env\<close> serve the others.

  What the lemmas show.
  \<^item> Authentication: a connection reaches the pool only with the peer that its key proves, and streams reach a listener only after the
    handshake (\<open>pooled_authenticated\<close>, \<open>handshake_gate\<close>, \<open>identity_push_authenticated\<close>, \<open>tls_authenticated\<close>, \<open>verify_exact\<close>, \<open>tls_session\<close>);
    every stream shows the key of the certificate that the other end of its connection presented (\<open>streams_authenticated\<close>), and a relayed connection that the switch is given is one
    that was asked for and proved its key, in the order they were made (\<open>relayed_in_order\<close>).
  \<^item> Consistency of shared state over all runs: \<open>pool_consistent\<close>, \<open>dispatcher_fifo\<close>, \<open>listen_on_sound\<close>, \<open>kad_reachable_sound\<close>, \<open>counters_exact\<close>,
    \<open>autonat_decides_once\<close>, \<open>event_sources_sound\<close>, \<open>reservations_counted\<close>, \<open>stop_client_refines\<close> (the reservation client misses no change of the network).
  \<^item> Kademlia: the table refines a family of buckets indexed by distance, the search ends, asks no peer twice and returns the closest
    peers it has heard of (\<open>try_insert_functional\<close>, \<open>route_returns\<close>, \<open>route_converges\<close>, \<open>route_result_nearest\<close>, \<open>route_bounded\<close>).
  \<^item> What is sent is what is received: the round trips of the messages, of the calls and of identify
    (\<open>circuit_messages\<close>, \<open>kad_messages\<close>, \<open>identity_messages\<close>, \<open>autonat_messages\<close>, \<open>session_roundtrip\<close>);
    messages of a newer version are read as what this version knows of them (\<open>newer_peers_understood\<close>);
    \<open>handshake_over_the_wire\<close> composes them: a handshake succeeds exactly when the answer fits in the packet limit;
    \<open>two_nodes_connect\<close> goes from a dial over TLS to the pools and peer books of both nodes.
  \<^item> Dialling: \<open>connect_functional\<close>, \<open>circuit_session\<close>, \<open>circuit_dial\<close>, \<open>dcutr_upgrade\<close>, \<open>lookup_complete\<close>, \<open>mdns_discovers\<close>.
  \<^item> Where the code fails its purpose, the theorem states what it does: \<open>bad_peer_stops_listener\<close>, \<open>quic_listener_lifetime\<close>, \<open>handshake_ends\<close>,
    and \<open>nat_node_reached\<close> (a node behind a NAT cannot be dialed by its peer id, and can by the addresses of \<open>choose_nat_peers\<close>).

  Fuel. \<open>route\<close> takes a bound on the steps of a search; \<open>route_returns\<close> gives a bound that is enough for every answer of the peers, and
  more changes nothing. \<open>merge_loop\<close> takes one more turn than the input has bytes; each turn takes a byte at least, so that
  the bound is never reached (\<open>merges_are_loops\<close>). \<open>hs_run\<close> takes the number of steps; seven are enough for an undisturbed handshake. \<open>ping_echo\<close>, \<open>closest_loop\<close>, \<open>lookup_loop\<close> and \<open>split_dnsaddr\<close> have termination proofs.

  Coarser than the code: a running node (\<open>SwitchRun\<close>) takes a handshake as one step, whose timer fires only before the identity has arrived;
  \<open>handshake_ends\<close> says what the other awaits add. \<open>connect\<close> looks all addresses up in one pool, where the code locks it for each.

  Not modelled: reading and writing of the secured streams, which forward to yamux and to the QUIC library; the loop of \<open>dcutr\<close>
  that only spawns a task for each stream; the wrapper types of the driver traits (\<open>xstack/src/macros.rs\<close>) and the accessors that forward to them; the reflection
  and descriptor data of the generated messages, and their unknown fields, which are skipped but not kept; the file \<open>xstack/src/proto/autonat.rs\<close>, a copy of
  the one of \<open>autonat\<close> that nothing uses; the test suite for transports (\<open>spec\<close>), tests and examples.
\<close>

section \<open>Decoding\<close>

text \<open>On every input \<open>merge_from\<close> of each generated message is the loop of the source: the bound on the turns
  that its definition has is never reached.\<close>

lemma merges_are_loops:
  assumes "wire_law w"
  shows "runs_as_loop w (identity_merge w)" "runs_as_loop w (kad_merge w)" "runs_as_loop w (record_merge w)"
    "runs_as_loop w (kad_peer_merge w)" "runs_as_loop w (autonat_merge w)" "runs_as_loop w (dial_merge w)"
    "runs_as_loop w (dial_response_merge w)" "runs_as_loop w (autonat_peer_merge w)" "runs_as_loop w (hop_merge w)"
    "runs_as_loop w (stop_merge w)" "runs_as_loop w (punch_merge w)" "runs_as_loop w (peer_merge w)"
    "runs_as_loop w (reservation_merge w)" "runs_as_loop w (limit_merge w)" "runs_as_loop w (voucher_merge w)"
  using assms by (simp_all add: merge_from_loop identity_takes kad_takes record_takes kad_peer_takes autonat_takes dial_takes
      dial_response_takes autonat_peer_takes hop_takes stop_takes punch_takes peer_takes reservation_takes limit_takes voucher_takes)

end
